(* ===== verification/Prelude.thy ===== *)
theory Prelude
  imports Main "HOL-Library.Sublist"
begin

text \<open>
  Shared vocabulary of the development: the result type of fallible operations, the application
  errors of \<open>src/apps/api/src/core/errors/application-errors.ts\<close>, the string operations of
  JavaScript the sources use (\<open>join\<close>, \<open>split\<close>, \<open>startsWith\<close>, \<open>padStart\<close>, \<open>String(n)\<close>), and the
  generic lemmas on lists and strings the component theories share.

  A JavaScript string is modelled as a list of characters. The sources compare, split, join and
  measure identifiers, codes and labels, all of which the product restricts to ASCII; a HOL
  character is one byte, so on those strings \<open>length\<close> agrees with JavaScript's \<open>length\<close>.
\<close>

named_theorems string_simps \<open>evaluation rules for the string operations\<close>
named_theorems path_simps \<open>facts about materialised paths\<close>
named_theorems store_simps \<open>frame facts of the repository operations\<close>

type_synonym ident = string
type_synonym instant = int

subsection \<open>Results and errors\<close>

text \<open>
  \<open>ConstraintViolation\<close> is a write the database refuses by a named constraint of
  \<open>src/prisma/migrations\<close> or \<open>src/infra/sql/post-migrate\<close>; \<open>RegExpSyntaxError\<close>, \<open>RangeError\<close> and
  \<open>PlainError\<close> (a bare \<open>Error\<close>) are the language's own exceptions. The others are the classes of the application.
\<close>

datatype app_error =
    ValidationError string "(string \<times> string) list"
  | ForbiddenError string
  | NotFoundError string
  | VersionConflictError int int
  | InvalidTransitionError string string
  | DuplicateError string string
  | NumberSeriesCollisionError string
  | DocumentLockedError ident instant
  | LegalHoldError ident nat
  | TenantReadOnlyError
  | ContentNotScannedError string
  | ConstraintViolation string
  | RegExpSyntaxError
  | RangeError string
  | PlainError string

type_synonym 'a result = "app_error + 'a"

text \<open>Sequencing of fallible steps: the first error aborts the transaction, as a throw does.\<close>

definition bind_result :: "'a result \<Rightarrow> ('a \<Rightarrow> 'b result) \<Rightarrow> 'b result" where
  "bind_result r f = (case r of Inl e \<Rightarrow> Inl e | Inr x \<Rightarrow> f x)"

lemma bind_result_simps [simp]:
  "bind_result (Inl e) f = Inl e"
  "bind_result (Inr x) f = f x"
  by (simp_all add: bind_result_def)

lemma bind_result_Inr:
  "bind_result r f = Inr y \<longleftrightarrow> (\<exists>x. r = Inr x \<and> f x = Inr y)"
  by (cases r) auto

lemma bind_result_Inl:
  "bind_result r f = Inl e \<longleftrightarrow> r = Inl e \<or> (\<exists>x. r = Inr x \<and> f x = Inl e)"
  by (cases r) auto

lemma bind_result_cong [fundef_cong]:
  assumes "r = r'" and "\<And>x. r' = Inr x \<Longrightarrow> f x = g x"
  shows "bind_result r f = bind_result r' g"
  using assms by (cases r') auto

text \<open>A guard: \<open>throw\<close> the error unless the condition holds.\<close>

definition require_that :: "bool \<Rightarrow> app_error \<Rightarrow> unit result" where
  "require_that b e = (if b then Inr () else Inl e)"

lemma require_that_Inr [simp]: "require_that b e = Inr u \<longleftrightarrow> b"
  by (simp add: require_that_def)

lemma require_that_Inl [simp]: "require_that b e = Inl e' \<longleftrightarrow> \<not> b \<and> e' = e"
  by (auto simp: require_that_def)

subsection \<open>String operations of JavaScript\<close>

definition startsWith :: "string \<Rightarrow> string \<Rightarrow> bool" where
  "startsWith s p \<longleftrightarrow> take (length p) s = p"

lemma startsWith_iff_prefix: "startsWith s p \<longleftrightarrow> prefix p s"
  by (metis append_eq_conv_conj prefix_def startsWith_def)

definition endsWith :: "string \<Rightarrow> string \<Rightarrow> bool" where
  "endsWith s p \<longleftrightarrow> length p \<le> length s \<and> drop (length s - length p) s = p"

fun includesStr :: "string \<Rightarrow> string \<Rightarrow> bool" where
  "includesStr [] p \<longleftrightarrow> p = []"
| "includesStr (c # s) p \<longleftrightarrow> startsWith (c # s) p \<or> includesStr s p"

fun joinStr :: "string \<Rightarrow> string list \<Rightarrow> string" where
  "joinStr sep [] = []"
| "joinStr sep [p] = p"
| "joinStr sep (p # ps) = p @ sep @ joinStr sep ps"

text \<open>\<open>s.split(c)\<close> for a one-character separator.\<close>

fun splitOn :: "char \<Rightarrow> string \<Rightarrow> string list" where
  "splitOn c [] = [[]]"
| "splitOn c (x # xs) =
     (if x = c then [] # splitOn c xs
      else (case splitOn c xs of [] \<Rightarrow> [[x]] | w # ws \<Rightarrow> (x # w) # ws))"

definition padStart :: "nat \<Rightarrow> char \<Rightarrow> string \<Rightarrow> string" where
  "padStart n c s = replicate (n - length s) c @ s"

definition isDigit :: "char \<Rightarrow> bool" where
  "isDigit c \<longleftrightarrow> 48 \<le> (of_char c :: nat) \<and> (of_char c :: nat) \<le> 57"

definition digitChar :: "nat \<Rightarrow> char" where
  "digitChar d = char_of (48 + d)"

definition digitVal :: "char \<Rightarrow> nat" where
  "digitVal c = of_char c - 48"

text \<open>\<open>String(n)\<close> of a non-negative integer, and \<open>Number(s)\<close> of a digit string.\<close>

fun showNat :: "nat \<Rightarrow> string" where
  "showNat n = (if n < 10 then [digitChar n] else showNat (n div 10) @ [digitChar (n mod 10)])"

declare showNat.simps [simp del]

definition readNat :: "string \<Rightarrow> nat" where
  "readNat s = foldl (\<lambda>acc c. 10 * acc + digitVal c) 0 s"

definition showInt :: "int \<Rightarrow> string" where
  "showInt n = (if n < 0 then CHR ''-'' # showNat (nat (- n)) else showNat (nat n))"

definition isSpace :: "char \<Rightarrow> bool" where
  "isSpace c \<longleftrightarrow> (let n = (of_char c :: nat) in n = 32 \<or> (9 \<le> n \<and> n \<le> 13) \<or> n = 160)"

definition trimStr :: "string \<Rightarrow> string" where
  "trimStr s = rev (dropWhile isSpace (rev (dropWhile isSpace s)))"

text \<open>\<open>squish\<close> of \<open>src/packages/utils/src/text.ts\<close>: runs of white space become one blank, then trim.\<close>

fun collapseSpace :: "string \<Rightarrow> string" where
  "collapseSpace [] = []"
| "collapseSpace [c] = (if isSpace c then '' '' else [c])"
| "collapseSpace (c # d # s) =
     (if isSpace c then (if isSpace d then collapseSpace (d # s) else CHR '' '' # collapseSpace (d # s))
      else c # collapseSpace (d # s))"

definition squish :: "string \<Rightarrow> string" where
  "squish s = trimStr (collapseSpace s)"

definition lowerChar :: "char \<Rightarrow> char" where
  "lowerChar c = (let n = (of_char c :: nat) in if 65 \<le> n \<and> n \<le> 90 then char_of (n + 32) else c)"

definition upperChar :: "char \<Rightarrow> char" where
  "upperChar c = (let n = (of_char c :: nat) in if 97 \<le> n \<and> n \<le> 122 then char_of (n - 32) else c)"

definition toLowerCase :: "string \<Rightarrow> string" where
  "toLowerCase s = map lowerChar s"

definition toUpperCase :: "string \<Rightarrow> string" where
  "toUpperCase s = map upperChar s"

subsection \<open>Joining and splitting\<close>

lemma joinStr_Cons: "joinStr sep (p # ps) = (if ps = [] then p else p @ sep @ joinStr sep ps)"
  by (cases ps) auto

lemma joinStr_append:
  "xs \<noteq> [] \<Longrightarrow> ys \<noteq> [] \<Longrightarrow> joinStr sep (xs @ ys) = joinStr sep xs @ sep @ joinStr sep ys"
proof (induction xs)
  case (Cons x xs)
  then show ?case by (cases xs) (auto simp: joinStr_Cons)
qed simp

lemma splitOn_not_Nil [simp]: "splitOn c s \<noteq> []"
  by (induction s) (auto split: list.splits)

lemma splitOn_free: "c \<notin> set s \<Longrightarrow> splitOn c s = [s]"
  by (induction s) auto

lemma splitOn_append_sep:
  "c \<notin> set s \<Longrightarrow> splitOn c (s @ c # t) = s # splitOn c t"
  by (induction s) auto

lemma splitOn_joinStr:
  assumes "ps \<noteq> []" and "\<forall>p \<in> set ps. c \<notin> set p"
  shows "splitOn c (joinStr [c] ps) = ps"
  using assms
proof (induction ps)
  case (Cons p ps)
  then show ?case
    by (cases ps) (auto simp: splitOn_free splitOn_append_sep)
qed simp

lemma sep_split_unique:
  assumes "c \<notin> set x" and "c \<notin> set y" and "x @ c # s = y @ c # t"
  shows "x = y \<and> s = t"
  using assms by (induction x arbitrary: y) (auto simp: Cons_eq_append_conv append_eq_Cons_conv)

lemma sep_split_unique_last:
  assumes "c \<notin> set x" and "c \<notin> set y" and "s @ c # x = t @ c # y"
  shows "x = y \<and> s = t"
proof -
  have "rev x @ c # rev s = rev y @ c # rev t" using arg_cong [OF assms(3), of rev] by simp
  then show ?thesis using sep_split_unique [of c "rev x" "rev y" "rev s" "rev t"] assms(1,2) by simp
qed

text \<open>
  A joined list with separator-free parts around one part of any content: the parts are determined
  by the text and the number of parts before and after.
\<close>

lemma joinStr_around_inject:
  assumes "length xs = length xs'" and "length ys = length ys'"
    and "\<forall>x \<in> set (xs @ xs' @ ys @ ys'). c \<notin> set x"
    and "joinStr [c] (xs @ p # ys) = joinStr [c] (xs' @ p' # ys')"
  shows "xs = xs' \<and> p = p' \<and> ys = ys'"
proof -
  have right: "p = p' \<and> ys = ys'"
    if "length ys = length ys'" "\<forall>x \<in> set (ys @ ys'). c \<notin> set x" "joinStr [c] (p # ys) = joinStr [c] (p' # ys')"
    for ys ys' :: "string list"
    using that
  proof (induction ys arbitrary: ys' rule: rev_induct)
    case (snoc y ys)
    then obtain zs z where z: "ys' = zs @ [z]" by (cases ys' rule: rev_cases) auto
    have eq: "joinStr [c] (p # ys) @ c # y = joinStr [c] (p' # zs) @ c # z"
      using snoc.prems(3) joinStr_append [of "p # ys" "[y]" "[c]"] joinStr_append [of "p' # zs" "[z]" "[c]"] z by simp
    have free: "c \<notin> set y" "c \<notin> set z" using snoc.prems(2) z by simp_all
    note yz = conjunct1 [OF sep_split_unique_last [OF free eq]] conjunct2 [OF sep_split_unique_last [OF free eq]]
    have "p = p' \<and> ys = zs" by (rule snoc.IH [OF _ _ yz(2)]) (use snoc.prems(1,2) z in auto)
    then show ?case using yz(1) z by simp
  qed simp
  show ?thesis
    using assms
  proof (induction xs arbitrary: xs')
    case Nil
    then show ?case using right by simp
  next
    case (Cons x xs)
    then obtain z zs where z: "xs' = z # zs" by (cases xs') auto
    have eq: "x @ c # joinStr [c] (xs @ p # ys) = z @ c # joinStr [c] (zs @ p' # ys')"
      using Cons.prems(4) z by (simp add: joinStr_Cons)
    have free: "c \<notin> set x" "c \<notin> set z" using Cons.prems(3) z by simp_all
    note xz = conjunct1 [OF sep_split_unique [OF free eq]] conjunct2 [OF sep_split_unique [OF free eq]]
    have "xs = zs \<and> p = p' \<and> ys = ys'"
      by (rule Cons.IH [OF _ _ _ xz(2)]) (use Cons.prems(1-3) z in auto)
    then show ?case using xz(1) z by simp
  qed
qed

lemma joinStr_inject_free:
  assumes "ps \<noteq> []" and "qs \<noteq> []"
    and "\<forall>p \<in> set ps. c \<notin> set p" and "\<forall>q \<in> set qs. c \<notin> set q"
    and "joinStr [c] ps = joinStr [c] qs"
  shows "ps = qs"
  by (metis assms splitOn_joinStr)

subsection \<open>Decimal numerals\<close>

lemma of_char_digitChar: "d < 10 \<Longrightarrow> (of_char (digitChar d) :: nat) = 48 + d"
  by (simp add: digitChar_def)

lemma digitVal_digitChar [simp]: "d < 10 \<Longrightarrow> digitVal (digitChar d) = d"
  by (simp add: digitVal_def of_char_digitChar)

lemma isDigit_digitChar [simp]: "d < 10 \<Longrightarrow> isDigit (digitChar d)"
  by (simp add: isDigit_def of_char_digitChar)

lemma readNat_append: "readNat (s @ [c]) = 10 * readNat s + digitVal c"
  by (simp add: readNat_def)

lemma readNat_showNat [simp]: "readNat (showNat n) = n"
proof (induction n rule: showNat.induct)
  case (1 n)
  then show ?case
    by (subst showNat.simps) (auto simp: readNat_append, simp add: readNat_def)
qed

lemma showNat_inject [simp]: "showNat m = showNat n \<longleftrightarrow> m = n"
  by (metis readNat_showNat)

lemma showNat_digits: "c \<in> set (showNat n) \<Longrightarrow> isDigit c"
proof (induction n rule: showNat.induct)
  case (1 n)
  show ?case
  proof (cases "n < 10")
    case True
    with "1.prems" show ?thesis by (simp add: showNat.simps [of n])
  next
    case False
    with "1.prems" "1.IH" show ?thesis by (auto simp: showNat.simps [of n])
  qed
qed

lemma showNat_not_Nil [simp]: "showNat n \<noteq> []"
  by (subst showNat.simps) simp

lemma readNat_zeros: "readNat (replicate k (CHR ''0'') @ s) = readNat s"
proof -
  have "foldl (\<lambda>acc c. 10 * acc + digitVal c) 0 (replicate k (CHR ''0'')) = 0"
    by (induction k) (auto simp: digitVal_def)
  then show ?thesis by (simp add: readNat_def)
qed

lemma readNat_padStart [simp]: "readNat (padStart n (CHR ''0'') s) = readNat s"
  by (simp add: padStart_def readNat_zeros)

lemma length_padStart [simp]: "length (padStart n c s) = max n (length s)"
  by (simp add: padStart_def)

lemma isDigit_zero [simp]: "isDigit (CHR ''0'')"
  by (simp add: isDigit_def)

lemma padStart_digits: "c \<in> set (padStart n (CHR ''0'') (showNat m)) \<Longrightarrow> isDigit c"
  by (auto simp: padStart_def dest: showNat_digits)

lemma padStart_showNat_inject:
  "padStart p (CHR ''0'') (showNat m) = padStart p (CHR ''0'') (showNat n) \<longleftrightarrow> m = n"
  by (metis readNat_padStart readNat_showNat)

subsection \<open>Lists\<close>

lemma find_Some_mem: "List.find P xs = Some x \<Longrightarrow> x \<in> set xs \<and> P x"
  by (metis find_Some_iff nth_mem)

lemma find_None_iff_all: "List.find P xs = None \<longleftrightarrow> (\<forall>x \<in> set xs. \<not> P x)"
  by (auto simp: find_None_iff)

text \<open>
  A row update: the effect of an SQL \<open>UPDATE ... WHERE\<close> on a table held as a list, in which each
  row that satisfies the condition is replaced and the others keep their place.
\<close>

definition updateWhere :: "('a \<Rightarrow> bool) \<Rightarrow> ('a \<Rightarrow> 'a) \<Rightarrow> 'a list \<Rightarrow> 'a list" where
  "updateWhere P f rows = map (\<lambda>r. if P r then f r else r) rows"

lemma updateWhere_simps [simp]:
  "updateWhere P f [] = []"
  "updateWhere P f (r # rs) = (if P r then f r else r) # updateWhere P f rs"
  by (simp_all add: updateWhere_def)

lemma set_updateWhere: "set (updateWhere P f rows) = (\<lambda>r. if P r then f r else r) ` set rows"
  by (simp add: updateWhere_def)

lemma length_updateWhere [simp]: "length (updateWhere P f rows) = length rows"
  by (simp add: updateWhere_def)

lemma map_updateWhere:
  assumes "\<And>r. P r \<Longrightarrow> g (f r) = g r"
  shows "map g (updateWhere P f rows) = map g rows"
  using assms by (induction rows) auto

lemma updateWhere_none: "\<forall>r \<in> set rows. \<not> P r \<Longrightarrow> updateWhere P f rows = rows"
  by (induction rows) auto

lemma mem_updateWhereE:
  assumes "r' \<in> set (updateWhere P f rows)"
  obtains r where "r \<in> set rows" and "r' = (if P r then f r else r)"
  using assms by (auto simp: set_updateWhere)

text \<open>
  A partial unique index: among the rows satisfying \<open>P\<close>, the key \<open>k\<close> determines the identifier \<open>i\<close>.
\<close>

definition uniqueWhere :: "('r \<Rightarrow> bool) \<Rightarrow> ('r \<Rightarrow> 'k) \<Rightarrow> ('r \<Rightarrow> 'i) \<Rightarrow> 'r list \<Rightarrow> bool" where
  "uniqueWhere P k i rows \<longleftrightarrow>
     (\<forall>x \<in> set rows. \<forall>y \<in> set rows. P x \<longrightarrow> P y \<longrightarrow> k x = k y \<longrightarrow> i x = i y)"

lemma find_updateWhere:
  "(\<And>x. Q x \<Longrightarrow> P (f x) = P x) \<Longrightarrow>
   List.find P (updateWhere Q f xs) = map_option (\<lambda>x. if Q x then f x else x) (List.find P xs)"
  by (induction xs) (auto simp: updateWhere_def)

lemma find_append: "List.find P (xs @ ys) = (case List.find P xs of None \<Rightarrow> List.find P ys | Some x \<Rightarrow> Some x)"
  by (induction xs) auto

lemma uniqueWhereD:
  "\<lbrakk>uniqueWhere P k i rows; x \<in> set rows; y \<in> set rows; P x; P y; k x = k y\<rbrakk> \<Longrightarrow> i x = i y"
  unfolding uniqueWhere_def by blast

lemma uniqueWhereI:
  "(\<And>x y. \<lbrakk>x \<in> set rows; y \<in> set rows; P x; P y; k x = k y\<rbrakk> \<Longrightarrow> i x = i y) \<Longrightarrow> uniqueWhere P k i rows"
  unfolding uniqueWhere_def by blast

lemma length_le_1_same:
  "\<lbrakk>distinct xs; \<And>a b. \<lbrakk>a \<in> set xs; b \<in> set xs\<rbrakk> \<Longrightarrow> a = b\<rbrakk> \<Longrightarrow> length xs \<le> 1"
  using card_le_Suc0_iff_eq [of "set xs"] by (simp add: distinct_card)

lemma uniqueWhere_length:
  assumes u: "uniqueWhere P k i rows" and d: "distinct (map i rows)"
  shows "length (filter (\<lambda>r. k r = x \<and> P r) rows) \<le> 1"
proof -
  let ?hits = "filter (\<lambda>r. k r = x \<and> P r) rows"
  have "length (map i ?hits) \<le> 1"
  proof (rule length_le_1_same)
    show "distinct (map i ?hits)" using d by (simp add: distinct_map_filter)
    show "a = b" if a: "a \<in> set (map i ?hits)" and b: "b \<in> set (map i ?hits)" for a b
    proof -
      obtain q where q: "q \<in> set rows" "k q = x" "P q" "a = i q" using a by auto
      obtain r where r: "r \<in> set rows" "k r = x" "P r" "b = i r" using b by auto
      show ?thesis using uniqueWhereD [OF u q(1) r(1) q(3) r(3)] q r by simp
    qed
  qed
  then show ?thesis by simp
qed

lemma uniqueWhere_update:
  assumes u: "uniqueWhere P k i rows"
    and kept: "\<And>r. r \<in> set rows \<Longrightarrow> Q r \<Longrightarrow> k (f r) = k r \<and> i (f r) = i r"
    and narrow: "\<And>r. r \<in> set rows \<Longrightarrow> Q r \<Longrightarrow> P (f r) \<Longrightarrow> P r"
  shows "uniqueWhere P k i (updateWhere Q f rows)"
proof (rule uniqueWhereI)
  fix x y
  assume x: "x \<in> set (updateWhere Q f rows)" and y: "y \<in> set (updateWhere Q f rows)"
    and P: "P x" "P y" and eq: "k x = k y"
  obtain a where a: "a \<in> set rows" "x = (if Q a then f a else a)" using x by (rule mem_updateWhereE)
  obtain b where b: "b \<in> set rows" "y = (if Q b then f b else b)" using y by (rule mem_updateWhereE)
  have "P a" "k a = k x" "i a = i x" using a P(1) kept [OF a(1)] narrow [OF a(1)] by (auto split: if_splits)
  moreover have "P b" "k b = k y" "i b = i y"
    using b P(2) kept [OF b(1)] narrow [OF b(1)] by (auto split: if_splits)
  ultimately show "i x = i y" using uniqueWhereD [OF u a(1) b(1)] eq by simp
qed

lemma uniqueWhere_append:
  assumes u: "uniqueWhere P k i rows" and new: "\<And>y. \<lbrakk>P x; y \<in> set rows; P y\<rbrakk> \<Longrightarrow> k y \<noteq> k x"
  shows "uniqueWhere P k i (rows @ [x])"
proof (rule uniqueWhereI)
  fix a b
  assume "a \<in> set (rows @ [x])" "b \<in> set (rows @ [x])" and P: "P a" "P b" and eq: "k a = k b"
  then consider "a \<in> set rows" "b \<in> set rows" | "a = x" "b = x" | "a = x" "b \<in> set rows" | "a \<in> set rows" "b = x"
    by auto
  then show "i a = i b"
  proof cases
    case 1
    then show ?thesis using uniqueWhereD [OF u _ _ P eq] by blast
  next
    case 3
    then show ?thesis using new [of b] P eq by simp
  next
    case 4
    then show ?thesis using new [of a] P eq by simp
  qed simp
qed

lemma ball_updateWhere:
  "(\<forall>r \<in> set (updateWhere Q f rows). R r) \<longleftrightarrow> (\<forall>r \<in> set rows. R (if Q r then f r else r))"
  by (induction rows) auto

lemma bex_updateWhere:
  "(\<exists>r \<in> set (updateWhere Q f rows). R r) \<longleftrightarrow> (\<exists>r \<in> set rows. R (if Q r then f r else r))"
  by (induction rows) auto

lemma distinct_map_eq:
  "\<lbrakk>distinct (map f xs); x \<in> set xs; y \<in> set xs; f x = f y\<rbrakk> \<Longrightarrow> x = y"
  by (metis distinct_map inj_on_def)

end
