(* ===== verification/Tree_Path.thy ===== *)
theory Tree_Path
  imports Prelude
begin

text \<open>
  Materialised-path arithmetic, \<open>src/packages/domain/src/tree.ts\<close>, and the placement rules the
  three trees of the product add on top of it: departments
  (\<open>src/apps/api/src/modules/organization/domain/scope-tree.ts\<close>), folders
  (\<open>src/apps/api/src/modules/library/domain/folder-tree.ts\<close>) and categories
  (\<open>src/apps/api/src/modules/administration/domain/category-tree.ts\<close>).

  A path is a string of identifiers separated by dots. Its abstraction is the list of identifiers,
  ancestors first; the lemmas show that every string operation refines the list operation it stands
  for whenever identifiers are non-empty and hold no dot.
\<close>

subsection \<open>The path operations\<close>

definition PATH_SEPARATOR :: char where
  "PATH_SEPARATOR = CHR ''.''"

definition pathFor :: "string option \<Rightarrow> ident \<Rightarrow> string" where
  "pathFor parentPath i =
     (case parentPath of
        None \<Rightarrow> i
      | Some p \<Rightarrow> if p = [] then i else p @ [PATH_SEPARATOR] @ i)"

definition idsInPath :: "string \<Rightarrow> ident list" where
  "idsInPath path = filter (\<lambda>segment. segment \<noteq> []) (splitOn PATH_SEPARATOR path)"

definition ancestorIdsOf :: "string \<Rightarrow> ident list" where
  "ancestorIdsOf path = butlast (idsInPath path)"

definition depthOf :: "string \<Rightarrow> nat" where
  "depthOf path = length (idsInPath path)"

definition isAtOrBelow :: "string \<Rightarrow> string \<Rightarrow> bool" where
  "isAtOrBelow candidatePath ancestorPath \<longleftrightarrow>
     candidatePath = ancestorPath \<or> startsWith candidatePath (ancestorPath @ [PATH_SEPARATOR])"

definition subtreePattern :: "string \<Rightarrow> string" where
  "subtreePattern path = path @ [PATH_SEPARATOR] @ ''%''"

definition subtreePrefix :: "string \<Rightarrow> string" where
  "subtreePrefix path = path @ [PATH_SEPARATOR]"

datatype tree_rejection = TOO_DEEP | PARENT_IS_SELF | PARENT_IS_DESCENDANT

record placement_input =
  nodeId :: "ident option"
  nodePath :: "string option"
  parentId :: "ident option"
  parentPath :: "string option"
  maximumDepth :: nat

definition checkTreePlacement :: "placement_input \<Rightarrow> tree_rejection list" where
  "checkTreePlacement input =
     (case parentId input of
        None \<Rightarrow> []
      | Some p \<Rightarrow>
          (if nodeId input \<noteq> None \<and> nodeId input = Some p then [PARENT_IS_SELF] else []) @
          (case (nodePath input, parentPath input) of
             (Some np, Some pp) \<Rightarrow> if isAtOrBelow pp np then [PARENT_IS_DESCENDANT] else []
           | _ \<Rightarrow> []) @
          (case parentPath input of
             Some pp \<Rightarrow> if depthOf pp + 1 > maximumDepth input then [TOO_DEEP] else []
           | None \<Rightarrow> []))"

definition rewriteSubtree :: "(ident \<times> string) list \<Rightarrow> string \<Rightarrow> string \<Rightarrow> (ident \<times> string) list" where
  "rewriteSubtree descendants fromPath toPath =
     map (\<lambda>(i, path). (i, toPath @ drop (length fromPath) path)) descendants"

definition relativeDepthOf :: "string list \<Rightarrow> string \<Rightarrow> int" where
  "relativeDepthOf descendants rootPath =
     foldl (\<lambda>deepest path. max deepest (int (depthOf path) - int (depthOf rootPath) + 1))
       1 descendants"

subsection \<open>Departments, folders and categories\<close>

definition MAXIMUM_DEPTH :: nat where
  "MAXIMUM_DEPTH = 10"

definition MAXIMUM_FOLDER_DEPTH :: nat where
  "MAXIMUM_FOLDER_DEPTH = 32"

definition MAXIMUM_CATEGORY_DEPTH :: nat where
  "MAXIMUM_CATEGORY_DEPTH = 8"

datatype scope_rejection = ScopeTree tree_rejection | PARENT_IN_ANOTHER_ENTITY

definition checkPlacement ::
  "ident option \<Rightarrow> string option \<Rightarrow> ident option \<Rightarrow> string option \<Rightarrow> ident \<Rightarrow> ident option
   \<Rightarrow> scope_rejection list" where
  "checkPlacement nId nPath pId pPath entityId parentEntityId =
     (let shared = map ScopeTree (checkTreePlacement
            \<lparr>nodeId = nId, nodePath = nPath, parentId = pId, parentPath = pPath,
             maximumDepth = MAXIMUM_DEPTH\<rparr>)
      in if pId = None then shared
         else shared @
           (if parentEntityId \<noteq> None \<and> parentEntityId \<noteq> Some entityId
            then [PARENT_IN_ANOTHER_ENTITY] else []))"

definition subtreeFitsUnder :: "string option \<Rightarrow> int \<Rightarrow> bool" where
  "subtreeFitsUnder pPath subtreeHeight \<longleftrightarrow>
     int (case pPath of None \<Rightarrow> 0 | Some p \<Rightarrow> depthOf p) + subtreeHeight \<le> int MAXIMUM_DEPTH"

datatype folder_rejection = FolderTree tree_rejection | PARENT_IN_ANOTHER_LIBRARY | ROOT_CANNOT_MOVE

definition checkFolderPlacement ::
  "ident option \<Rightarrow> string option \<Rightarrow> bool \<Rightarrow> ident \<Rightarrow> ident option \<Rightarrow> string option \<Rightarrow> ident option
   \<Rightarrow> folder_rejection list" where
  "checkFolderPlacement nId nPath nodeIsRoot libraryId pId pPath parentLibraryId =
     map FolderTree (checkTreePlacement
       \<lparr>nodeId = nId, nodePath = nPath, parentId = pId, parentPath = pPath,
        maximumDepth = MAXIMUM_FOLDER_DEPTH\<rparr>) @
     (if nodeIsRoot then [ROOT_CANNOT_MOVE] else []) @
     (if parentLibraryId \<noteq> None \<and> parentLibraryId \<noteq> Some libraryId
      then [PARENT_IN_ANOTHER_LIBRARY] else [])"

definition folderSubtreeFits :: "int \<Rightarrow> int \<Rightarrow> bool" where
  "folderSubtreeFits parentDepth subtreeHeight \<longleftrightarrow>
     parentDepth + subtreeHeight \<le> int MAXIMUM_FOLDER_DEPTH"

definition checkCategoryPlacement ::
  "ident option \<Rightarrow> string option \<Rightarrow> ident option \<Rightarrow> string option \<Rightarrow> tree_rejection list" where
  "checkCategoryPlacement nId nPath pId pPath =
     checkTreePlacement
       \<lparr>nodeId = nId, nodePath = nPath, parentId = pId, parentPath = pPath,
        maximumDepth = MAXIMUM_CATEGORY_DEPTH\<rparr>"

subsection \<open>Paths as lists of identifiers\<close>

text \<open>The abstraction: a path is the rendering of a non-empty list of dot-free identifiers.\<close>

definition wf_id :: "ident \<Rightarrow> bool" where
  "wf_id i \<longleftrightarrow> i \<noteq> [] \<and> PATH_SEPARATOR \<notin> set i"

definition wf_ids :: "ident list \<Rightarrow> bool" where
  "wf_ids ids \<longleftrightarrow> ids \<noteq> [] \<and> (\<forall>i \<in> set ids. wf_id i)"

definition render :: "ident list \<Rightarrow> string" where
  "render ids = joinStr [PATH_SEPARATOR] ids"

lemma wf_ids_append [path_simps]:
  "ys \<noteq> [] \<Longrightarrow> wf_ids (ys @ zs) \<longleftrightarrow> wf_ids ys \<and> (\<forall>i \<in> set zs. wf_id i)"
  by (auto simp: wf_ids_def)

lemma wf_idsD: "wf_ids ids \<Longrightarrow> i \<in> set ids \<Longrightarrow> wf_id i"
  by (simp add: wf_ids_def)

lemma idsInPath_render [path_simps]: "wf_ids ids \<Longrightarrow> idsInPath (render ids) = ids"
  by (simp add: idsInPath_def render_def wf_ids_def wf_id_def splitOn_joinStr filter_id_conv)

lemma render_inject [path_simps]:
  "wf_ids xs \<Longrightarrow> wf_ids ys \<Longrightarrow> render xs = render ys \<longleftrightarrow> xs = ys"
  by (metis idsInPath_render)

lemma render_not_Nil: "wf_ids ids \<Longrightarrow> render ids \<noteq> []"
  by (cases ids) (auto simp: render_def wf_ids_def wf_id_def joinStr_Cons)

lemma depthOf_render [path_simps]: "wf_ids ids \<Longrightarrow> depthOf (render ids) = length ids"
  by (simp add: depthOf_def idsInPath_render)

lemma ancestorIdsOf_render [path_simps]: "wf_ids ids \<Longrightarrow> ancestorIdsOf (render ids) = butlast ids"
  by (simp add: ancestorIdsOf_def idsInPath_render)

lemma render_snoc: "ids \<noteq> [] \<Longrightarrow> render (ids @ [i]) = render ids @ [PATH_SEPARATOR] @ i"
  by (simp add: render_def joinStr_append)

lemma render_append:
  "xs \<noteq> [] \<Longrightarrow> ys \<noteq> [] \<Longrightarrow> render (xs @ ys) = render xs @ [PATH_SEPARATOR] @ render ys"
  by (simp add: render_def joinStr_append)

lemma pathFor_root [path_simps]: "pathFor None i = render [i]"
  by (simp add: pathFor_def render_def)

lemma pathFor_render [path_simps]:
  "wf_ids ids \<Longrightarrow> pathFor (Some (render ids)) i = render (ids @ [i])"
  using render_not_Nil [of ids] by (simp add: pathFor_def wf_ids_def render_snoc)

lemma render_prefix_step:
  assumes "wf_ids xs" and "wf_ids ys" and "prefix (render ys @ [PATH_SEPARATOR]) (render xs)"
  shows "strict_prefix ys xs"
proof -
  from assms(3) obtain t where t: "render xs = render ys @ PATH_SEPARATOR # t"
    by (auto simp: prefix_def)
  have free: "\<forall>y \<in> set ys. PATH_SEPARATOR \<notin> set y"
    using assms(2) by (auto simp: wf_ids_def wf_id_def)
  have ysN: "ys \<noteq> []" using assms(2) by (simp add: wf_ids_def)
  have split: "splitOn PATH_SEPARATOR (render ys @ PATH_SEPARATOR # t)
      = ys @ splitOn PATH_SEPARATOR t"
    using ysN free
  proof (induction ys)
    case (Cons y ys)
    then show ?case
      by (cases "ys = []") (auto simp: render_def joinStr_Cons splitOn_append_sep)
  qed simp
  have "xs = ys @ splitOn PATH_SEPARATOR t"
    using split t assms(1)
    by (metis render_def splitOn_joinStr wf_id_def wf_ids_def)
  then show ?thesis by (simp add: strict_prefix_def prefix_def)
qed

lemma isAtOrBelow_render [path_simps]:
  assumes "wf_ids xs" and "wf_ids ys"
  shows "isAtOrBelow (render xs) (render ys) \<longleftrightarrow> prefix ys xs"
proof
  assume "isAtOrBelow (render xs) (render ys)"
  then consider "render xs = render ys" | "prefix (render ys @ [PATH_SEPARATOR]) (render xs)"
    by (auto simp: isAtOrBelow_def startsWith_iff_prefix)
  then show "prefix ys xs"
    using assms by cases (auto simp: render_inject dest: render_prefix_step)
next
  assume "prefix ys xs"
  then obtain zs where zs: "xs = ys @ zs" by (auto simp: prefix_def)
  show "isAtOrBelow (render xs) (render ys)"
  proof (cases "zs = []")
    case True
    with zs show ?thesis by (simp add: isAtOrBelow_def)
  next
    case False
    with zs assms show ?thesis
      by (simp add: isAtOrBelow_def startsWith_iff_prefix render_append wf_ids_def)
  qed
qed

lemma rewrite_path_render [path_simps]:
  assumes "old \<noteq> []" and "new \<noteq> []"
  shows "render new @ drop (length (render old)) (render (old @ rest)) = render (new @ rest)"
  using assms by (cases "rest = []") (simp_all add: render_append)

lemma relativeDepthOf_ge:
  "int (depthOf p) - int (depthOf root) + 1 \<le> relativeDepthOf ps root" if "p \<in> set ps"
proof -
  have acc: "d \<le> foldl (\<lambda>deepest path. max deepest (int (depthOf path) - int (depthOf root) + 1)) d qs"
    for d qs
    by (induction qs arbitrary: d) (auto intro: order.trans [OF max.cobounded1])
  have "int (depthOf p) - int (depthOf root) + 1
      \<le> foldl (\<lambda>deepest path. max deepest (int (depthOf path) - int (depthOf root) + 1)) d ps" for d
    using that
  proof (induction ps arbitrary: d)
    case (Cons q ps)
    then show ?case
      by (auto intro: order.trans [OF max.cobounded2 acc])
  qed simp
  then show ?thesis by (simp add: relativeDepthOf_def)
qed

subsection \<open>The contract every placement check keeps\<close>

text \<open>
  What a caller relies on when a placement check of any of the three trees accepts: the new parent
  is neither the node nor below it, and the node's own new depth is within the ceiling.
\<close>

locale tree_ceiling =
  fixes ceiling :: nat
    and check :: "ident option \<Rightarrow> string option \<Rightarrow> ident option \<Rightarrow> string option \<Rightarrow> 'r list"
  assumes accepts_shared:
    "check n np p pp = [] \<Longrightarrow>
     checkTreePlacement \<lparr>nodeId = n, nodePath = np, parentId = p, parentPath = pp,
       maximumDepth = ceiling\<rparr> = []"
begin

lemma accepted_acyclic:
  assumes "check (Some n) (Some (render ns)) (Some p) (Some (render ps)) = []"
    and "wf_ids ns" and "wf_ids ps"
  shows "n \<noteq> p \<and> \<not> prefix ns ps"
  using accepts_shared [OF assms(1)] assms(2,3)
  by (simp add: checkTreePlacement_def isAtOrBelow_render split: if_splits)

lemma accepted_depth:
  assumes "check n np (Some p) (Some (render ps)) = []" and "wf_ids ps"
  shows "length (ps @ [i]) \<le> ceiling"
  using accepts_shared [OF assms(1)] assms(2)
  by (simp add: checkTreePlacement_def depthOf_render split: if_splits)

end

interpretation departments: tree_ceiling MAXIMUM_DEPTH
  "\<lambda>n np p pp. checkPlacement n np p pp entityId parentEntityId"
  for entityId parentEntityId
  by unfold_locales (auto simp: checkPlacement_def Let_def split: if_splits)

interpretation folders: tree_ceiling MAXIMUM_FOLDER_DEPTH
  "\<lambda>n np p pp. checkFolderPlacement n np nodeIsRoot libraryId p pp parentLibraryId"
  for nodeIsRoot libraryId parentLibraryId
  by unfold_locales (auto simp: checkFolderPlacement_def split: if_splits)

interpretation categories: tree_ceiling MAXIMUM_CATEGORY_DEPTH checkCategoryPlacement
  by unfold_locales (simp add: checkCategoryPlacement_def)

subsection \<open>Properties\<close>

text \<open>
  C20: on paths of dot-free identifiers the string operations refine the operations on the list of
  identifiers: reading a path gives its identifiers back, its depth is their number, a child's path
  appends one, and the subtree test is the prefix order, so a sibling whose identifier merely starts
  with the same characters is never taken for a descendant.
\<close>

theorem path_operations_refine_lists:
  assumes "wf_ids xs" and "wf_ids ys" and "wf_id i"
  shows "idsInPath (render xs) = xs \<and> depthOf (render xs) = length xs \<and>
    ancestorIdsOf (render xs) = butlast xs \<and> pathFor (Some (render xs)) i = render (xs @ [i]) \<and>
    (isAtOrBelow (render xs) (render ys) \<longleftrightarrow> prefix ys xs)"
  using assms by (simp add: path_simps)

theorem path_operations_refine_lists_witness:
  "idsInPath (render [''a'', ''bc'']) = [''a'', ''bc''] \<and> \<not> isAtOrBelow (render [''a'', ''bc'']) (render [''a'', ''b''])"
  using path_operations_refine_lists [of "[''a'', ''bc'']" "[''a'', ''b'']" "''x''"]
  by (simp add: wf_ids_def wf_id_def PATH_SEPARATOR_def)

text \<open>
  C21: a folder placement the check accepts makes no cycle, stays within the depth ceiling, never
  moves a library's root and never crosses into another library.
\<close>

theorem folder_placement_safe:
  assumes "checkFolderPlacement (Some n) (Some (render ns)) isRoot libraryId (Some p) (Some (render ps)) parentLibraryId = []"
    and "wf_ids ns" and "wf_ids ps"
  shows "n \<noteq> p \<and> \<not> prefix ns ps \<and> length (ps @ [n]) \<le> MAXIMUM_FOLDER_DEPTH \<and> \<not> isRoot \<and>
    (parentLibraryId = None \<or> parentLibraryId = Some libraryId)"
  using folders.accepted_acyclic [OF assms] folders.accepted_depth [OF assms(1,3)] assms(1)
  by (auto simp: checkFolderPlacement_def split: if_splits)

theorem folder_placement_safe_witness:
  "checkFolderPlacement (Some ''c'') (Some (render [''r'', ''c''])) False ''l'' (Some ''d'') (Some (render [''r'', ''d''])) (Some ''l'') = []
   \<and> \<not> prefix [''r'', ''c''] [''r'', ''d'']"
proof -
  have "checkFolderPlacement (Some ''c'') (Some (render [''r'', ''c''])) False ''l'' (Some ''d'')
      (Some (render [''r'', ''d''])) (Some ''l'') = []" by code_simp
  then show ?thesis
    using folder_placement_safe [of "''c''" "[''r'', ''c'']" False "''l''" "''d''" "[''r'', ''d'']" "Some ''l''"]
    by (simp add: wf_ids_def wf_id_def PATH_SEPARATOR_def)
qed

text \<open>
  moving a subtree rewrites the path of every descendant to the same place under the new path,
  and when the subtree fits under the new parent no rewritten path exceeds the folder ceiling.
\<close>

theorem subtree_move_rewrites:
  assumes "wf_ids old" and "wf_ids new" and "\<forall>(i, rest) \<in> set nodes. \<forall>j \<in> set rest. wf_id j"
    and "folderSubtreeFits (int (length new) - 1)
           (relativeDepthOf (map (\<lambda>(i, rest). render (old @ rest)) nodes) (render old))"
  shows "rewriteSubtree (map (\<lambda>(i, rest). (i, render (old @ rest))) nodes) (render old) (render new)
      = map (\<lambda>(i, rest). (i, render (new @ rest))) nodes \<and>
    (\<forall>(i, rest) \<in> set nodes. isAtOrBelow (render (new @ rest)) (render new) \<and>
       depthOf (render (new @ rest)) \<le> MAXIMUM_FOLDER_DEPTH)"
proof -
  have ne: "old \<noteq> []" "new \<noteq> []" using assms(1,2) by (auto simp: wf_ids_def)
  have "rewriteSubtree (map (\<lambda>(i, rest). (i, render (old @ rest))) nodes) (render old) (render new)
      = map (\<lambda>(i, rest). (i, render (new @ rest))) nodes"
    by (auto simp: rewriteSubtree_def rewrite_path_render [OF ne])
  moreover have "isAtOrBelow (render (new @ rest)) (render new) \<and> depthOf (render (new @ rest)) \<le> MAXIMUM_FOLDER_DEPTH"
    if "(i, rest) \<in> set nodes" for i rest
  proof -
    have wf: "wf_ids (old @ rest)" "wf_ids (new @ rest)" using assms(1-3) that ne by (auto simp: path_simps)
    have "int (depthOf (render (old @ rest))) - int (depthOf (render old)) + 1
        \<le> relativeDepthOf (map (\<lambda>(i, rest). render (old @ rest)) nodes) (render old)"
      by (rule relativeDepthOf_ge) (use that in force)
    then have "int (length rest) + 1 + (int (length new) - 1) \<le> int MAXIMUM_FOLDER_DEPTH"
      using assms(1,4) wf by (simp add: path_simps folderSubtreeFits_def)
    then show ?thesis using assms(2) wf by (simp add: path_simps)
  qed
  ultimately show ?thesis by blast
qed

theorem subtree_move_rewrites_witness:
  "rewriteSubtree [(''x'', render [''r'', ''a'', ''x''])] (render [''r'', ''a'']) (render [''r'', ''b'', ''a''])
   = [(''x'', render [''r'', ''b'', ''a'', ''x''])]"
proof -
  have "folderSubtreeFits 2 (relativeDepthOf [render [''r'', ''a'', ''x'']] (render [''r'', ''a'']))" by code_simp
  then show ?thesis
    using subtree_move_rewrites [of "[''r'', ''a'']" "[''r'', ''b'', ''a'']" "[(''x'', [''x''])]"]
    by (simp add: wf_ids_def wf_id_def PATH_SEPARATOR_def)
qed

end
