(* ===== verification/Transaction.thy ===== *)
theory Transaction
  imports Prelude
begin

text \<open>
  The choreography of every administered write: \<open>src/apps/api/src/core/persistence/administered-writer.ts\<close>,
  \<open>optimistic-lock.ts\<close> and \<open>record-stamps.ts\<close>.

  A use case is a transaction: a function from the state to either an error or a result with the
  next state. An error discards the state the transaction had built, which is the roll-back of
  \<open>UnitOfWork.run\<close>; a nested \<open>write\<close> joins the transaction that is already open, so its audit row
  is appended to the same state. The state every component extends holds what a transaction of any
  component can touch: the audit trail, the outbox, the count of cache invalidations and the number of
  identifiers drawn so far.
\<close>

subsection \<open>What every transaction can reach\<close>

datatype json = JNull | JBool bool | JNum int | JStr string | JStrs "string list"

type_synonym payload = "(string \<times> json) list"

definition jopt :: "string option \<Rightarrow> json" where
  "jopt v = (case v of None \<Rightarrow> JNull | Some s \<Rightarrow> JStr s)"

datatype operation = CREATED | UPDATED | DELETED_OP | RESTORED | MOVED

datatype outcome = SUCCESS | FAILURE

record change =
  action :: string
  subjectType :: string
  subjectId :: ident
  operation :: operation
  before :: "payload option"
  after :: "payload option"
  reason :: "string option"
  outcome :: "outcome option"

record audit_row =
  aActor :: "ident option"
  aAction :: string
  aSubjectType :: string
  aSubjectId :: ident
  aOutcome :: outcome
  aOperation :: operation
  aBefore :: "payload option"
  aAfter :: "payload option"
  aReason :: "string option"

datatype event = Event (eventType: string) (aggregateId: ident) (eventPayload: payload)

record core =
  trail :: "audit_row list"
  outbox :: "event list"
  invalidations :: nat
  serial :: nat

text \<open>The request context, the tenant's row and the clock, as a transaction sees them.\<close>

datatype tenant_status = ACTIVE | SUSPENDED | CLOSED

record request =
  userId :: "ident option"
  tenantStatus :: "tenant_status option"
  now :: instant
  mkId :: "nat \<Rightarrow> ident"

subsection \<open>Transactions\<close>

type_synonym ('s, 'a) tx = "'s \<Rightarrow> ('a \<times> 's) result"

definition returnT :: "'a \<Rightarrow> ('s, 'a) tx" where
  "returnT x = (\<lambda>s. Inr (x, s))"

definition bindT :: "('s, 'a) tx \<Rightarrow> ('a \<Rightarrow> ('s, 'b) tx) \<Rightarrow> ('s, 'b) tx" where
  "bindT m f = (\<lambda>s. bind_result (m s) (\<lambda>(x, s'). f x s'))"

definition thenT :: "('s, 'a) tx \<Rightarrow> ('s, 'b) tx \<Rightarrow> ('s, 'b) tx" where
  "thenT m n = bindT m (\<lambda>_. n)"

definition throwT :: "app_error \<Rightarrow> ('s, 'a) tx" where
  "throwT e = (\<lambda>s. Inl e)"

definition getsT :: "('s \<Rightarrow> 'a) \<Rightarrow> ('s, 'a) tx" where
  "getsT f = (\<lambda>s. Inr (f s, s))"

definition modifyT :: "('s \<Rightarrow> 's) \<Rightarrow> ('s, unit) tx" where
  "modifyT f = (\<lambda>s. Inr ((), f s))"

definition requireT :: "bool \<Rightarrow> app_error \<Rightarrow> ('s, unit) tx" where
  "requireT b e = (if b then returnT () else throwT e)"

definition whenT :: "bool \<Rightarrow> ('s, unit) tx \<Rightarrow> ('s, unit) tx" where
  "whenT b m = (if b then m else returnT ())"

definition liftT :: "'a result \<Rightarrow> ('s, 'a) tx" where
  "liftT r = (\<lambda>s. bind_result r (\<lambda>x. Inr (x, s)))"

text \<open>A \<open>for ... of\<close> loop whose body may throw.\<close>

fun forEachT :: "('a \<Rightarrow> ('s, unit) tx) \<Rightarrow> 'a list \<Rightarrow> ('s, unit) tx" where
  "forEachT f [] = returnT ()"
| "forEachT f (x # xs) = thenT (f x) (forEachT f xs)"

lemmas tx_defs = returnT_def bindT_def thenT_def throwT_def getsT_def modifyT_def requireT_def
  whenT_def liftT_def

lemma bindT_Inr:
  "bindT m f s = Inr r \<longleftrightarrow> (\<exists>x s'. m s = Inr (x, s') \<and> f x s' = Inr r)"
  by (auto simp: bindT_def bind_result_Inr)

lemma thenT_Inr:
  "thenT m n s = Inr r \<longleftrightarrow> (\<exists>x s'. m s = Inr (x, s') \<and> n s' = Inr r)"
  by (auto simp: thenT_def bindT_Inr)

lemma tx_Inr [simp]:
  "returnT a s = Inr r \<longleftrightarrow> r = (a, s)"
  "throwT e s = Inr r \<longleftrightarrow> False"
  "getsT f s = Inr r \<longleftrightarrow> r = (f s, s)"
  "modifyT g s = Inr u \<longleftrightarrow> u = ((), g s)"
  "requireT b e s = Inr v \<longleftrightarrow> b \<and> v = ((), s)"
  by (auto simp: tx_defs)

lemma whenT_Inr:
  "whenT b m s = Inr (u, s') \<longleftrightarrow> (if b then m s = Inr (u, s') else s' = s)"
  by (auto simp: tx_defs)

lemma liftT_Inr: "liftT r s = Inr (x, s') \<longleftrightarrow> r = Inr x \<and> s' = s"
  by (auto simp: liftT_def bind_result_Inr)

lemmas tx_Inr_simps = bindT_Inr thenT_Inr whenT_Inr liftT_Inr

text \<open>The outcome of \<open>UnitOfWork.run\<close>: what the caller is told, and the state that is committed.\<close>

definition runTx :: "('s, 'a) tx \<Rightarrow> 's \<Rightarrow> 'a result \<times> 's" where
  "runTx m s = (case m s of Inl e \<Rightarrow> (Inl e, s) | Inr (x, s') \<Rightarrow> (Inr x, s'))"

subsection \<open>The administered writer\<close>

definition refuseWhenReadOnly :: "request \<Rightarrow> ('s, unit) tx" where
  "refuseWhenReadOnly rq =
     requireT (tenantStatus rq = None \<or> tenantStatus rq = Some ACTIVE) TenantReadOnlyError"

definition auditRow :: "request \<Rightarrow> change \<Rightarrow> audit_row" where
  "auditRow rq c =
     \<lparr>aActor = userId rq, aAction = action c, aSubjectType = subjectType c,
      aSubjectId = subjectId c,
      aOutcome = (case outcome c of None \<Rightarrow> SUCCESS | Some r \<Rightarrow> r),
      aOperation = operation c, aBefore = before c, aAfter = after c, aReason = reason c\<rparr>"

definition recordChange :: "request \<Rightarrow> change \<Rightarrow> ('z core_scheme, unit) tx" where
  "recordChange rq c = modifyT (\<lambda>s. s\<lparr>trail := trail s @ [auditRow rq c]\<rparr>)"

definition writeT :: "request \<Rightarrow> ('z core_scheme, 'a \<times> change) tx \<Rightarrow> ('z core_scheme, 'a) tx" where
  "writeT rq work =
     thenT (refuseWhenReadOnly rq)
     (bindT work (\<lambda>(result, change).
      thenT (recordChange rq change) (returnT result)))"

definition changeT :: "request \<Rightarrow> ('z core_scheme, 'a) tx \<Rightarrow> ('z core_scheme, 'a) tx" where
  "changeT rq work = thenT (refuseWhenReadOnly rq) work"

definition readT :: "('z core_scheme, 'a) tx \<Rightarrow> ('z core_scheme, 'a) tx" where
  "readT work = work"

definition nextId :: "request \<Rightarrow> ('z core_scheme, ident) tx" where
  "nextId rq = (\<lambda>s. Inr (mkId rq (serial s), s\<lparr>serial := Suc (serial s)\<rparr>))"

definition publishT :: "event list \<Rightarrow> ('z core_scheme, unit) tx" where
  "publishT es = modifyT (\<lambda>s. s\<lparr>outbox := outbox s @ es\<rparr>)"

definition invalidateTenant :: "('z core_scheme, unit) tx" where
  "invalidateTenant = modifyT (\<lambda>s. s\<lparr>invalidations := Suc (invalidations s)\<rparr>)"

definition checkVersion :: "int option \<Rightarrow> int \<Rightarrow> ('s, unit) tx" where
  "checkVersion expected actual =
     (case expected of
        None \<Rightarrow> returnT ()
      | Some e \<Rightarrow> requireT (e = actual) (VersionConflictError e actual))"

definition requireVersion :: "int option \<Rightarrow> int \<Rightarrow> ('s, unit) tx" where
  "requireVersion expected actual =
     (case expected of
        None \<Rightarrow> throwT (VersionConflictError (-1) actual)
      | Some e \<Rightarrow> checkVersion (Some e) actual)"

definition nextVersion :: "int \<Rightarrow> int" where
  "nextVersion current = current + 1"

definition requireUser :: "request \<Rightarrow> string \<Rightarrow> ('s, ident) tx" where
  "requireUser rq act =
     (case userId rq of None \<Rightarrow> throwT (ForbiddenError act) | Some u \<Rightarrow> returnT u)"

subsection \<open>Facts about the writer\<close>

lemma refuseWhenReadOnly_Inr [simp]:
  "refuseWhenReadOnly rq s = Inr r \<longleftrightarrow>
   (tenantStatus rq = None \<or> tenantStatus rq = Some ACTIVE) \<and> r = ((), s)"
  by (simp add: refuseWhenReadOnly_def)

lemma requireVersion_Inr [simp]:
  "requireVersion e a s = Inr r \<longleftrightarrow> e = Some a \<and> r = ((), s)"
  by (auto simp: requireVersion_def checkVersion_def split: option.splits)

lemma checkVersion_Inr [simp]:
  "checkVersion e a s = Inr r \<longleftrightarrow> (e = None \<or> e = Some a) \<and> r = ((), s)"
  by (auto simp: checkVersion_def split: option.splits)

lemma requireUser_Inr [simp]:
  "requireUser rq act s = Inr r \<longleftrightarrow> (\<exists>u. userId rq = Some u \<and> r = (u, s))"
  by (auto simp: requireUser_def split: option.splits)

lemma nextId_Inr [simp]:
  "nextId rq s = Inr r \<longleftrightarrow> r = (mkId rq (serial s), s\<lparr>serial := Suc (serial s)\<rparr>)"
  by (auto simp: nextId_def)

lemma publishT_Inr [simp]:
  "publishT es s = Inr r \<longleftrightarrow> r = ((), s\<lparr>outbox := outbox s @ es\<rparr>)"
  by (simp add: publishT_def)

lemma invalidateTenant_Inr [simp]:
  "invalidateTenant s = Inr r \<longleftrightarrow> r = ((), s\<lparr>invalidations := Suc (invalidations s)\<rparr>)"
  by (simp add: invalidateTenant_def)

lemma writeT_Inr:
  "writeT rq work s = Inr (x, s') \<longleftrightarrow>
   (tenantStatus rq = None \<or> tenantStatus rq = Some ACTIVE) \<and>
   (\<exists>c s1. work s = Inr ((x, c), s1) \<and> s' = s1\<lparr>trail := trail s1 @ [auditRow rq c]\<rparr>)"
  by (auto simp: writeT_def thenT_Inr bindT_Inr recordChange_def)

lemma changeT_Inr:
  "changeT rq work s = Inr r \<longleftrightarrow>
   (tenantStatus rq = None \<or> tenantStatus rq = Some ACTIVE) \<and> work s = Inr r"
  by (auto simp: changeT_def thenT_Inr)

lemma writeT_read_only:
  assumes "tenantStatus rq = Some st" and "st \<noteq> ACTIVE"
  shows "writeT rq work s = Inl TenantReadOnlyError"
  using assms by (simp add: writeT_def refuseWhenReadOnly_def tx_defs)

subsection \<open>Reasoning about transactions\<close>

text \<open>
  Triples for committed transactions: from a state satisfying \<open>P\<close>, if the transaction commits with
  result \<open>x\<close> then \<open>Q x\<close> holds of the committed state. \<open>preserves\<close> is the special case of an invariant
  and \<open>leaves\<close> that of a table no step of the transaction touches.
\<close>

named_theorems hoare_intros \<open>triples of the control structures\<close>
named_theorems preserves_intros \<open>preservation rules of the control structures and the primitives\<close>
named_theorems leaves_intros \<open>frame rules of the control structures and the primitives\<close>

definition hoare :: "('s \<Rightarrow> bool) \<Rightarrow> ('s, 'a) tx \<Rightarrow> ('a \<Rightarrow> 's \<Rightarrow> bool) \<Rightarrow> bool" where
  "hoare P m Q \<longleftrightarrow> (\<forall>s x s'. P s \<longrightarrow> m s = Inr (x, s') \<longrightarrow> Q x s')"

definition preserves :: "('s \<Rightarrow> bool) \<Rightarrow> ('s, 'a) tx \<Rightarrow> bool" where
  "preserves I m \<longleftrightarrow> hoare I m (\<lambda>_. I)"

definition leaves :: "('s \<Rightarrow> 't) \<Rightarrow> ('s, 'a) tx \<Rightarrow> bool" where
  "leaves t m \<longleftrightarrow> (\<forall>s x s'. m s = Inr (x, s') \<longrightarrow> t s' = t s)"

lemma hoareI: "(\<And>s x s'. \<lbrakk>P s; m s = Inr (x, s')\<rbrakk> \<Longrightarrow> Q x s') \<Longrightarrow> hoare P m Q"
  by (auto simp: hoare_def)

lemma hoareD: "\<lbrakk>hoare P m Q; P s; m s = Inr (x, s')\<rbrakk> \<Longrightarrow> Q x s'"
  by (auto simp: hoare_def)

lemma preservesI: "(\<And>s x s'. \<lbrakk>I s; m s = Inr (x, s')\<rbrakk> \<Longrightarrow> I s') \<Longrightarrow> preserves I m"
  by (auto simp: preserves_def hoare_def)

lemma preservesD: "\<lbrakk>preserves I m; I s; m s = Inr (x, s')\<rbrakk> \<Longrightarrow> I s'"
  by (auto simp: preserves_def hoare_def)

lemma leavesI: "(\<And>s x s'. m s = Inr (x, s') \<Longrightarrow> t s' = t s) \<Longrightarrow> leaves t m"
  by (auto simp: leaves_def)

lemma leavesD: "leaves t m \<Longrightarrow> m s = Inr (x, s') \<Longrightarrow> t s' = t s"
  by (auto simp: leaves_def)

lemma hoare_strengthen: "\<lbrakk>hoare P m Q; \<And>s. P' s \<Longrightarrow> P s; \<And>x s. Q x s \<Longrightarrow> Q' x s\<rbrakk> \<Longrightarrow> hoare P' m Q'"
  unfolding hoare_def by blast

lemma hoare_bind: "\<lbrakk>hoare P m R; \<And>x. hoare (R x) (f x) Q\<rbrakk> \<Longrightarrow> hoare P (bindT m f) Q"
  by (fastforce simp: hoare_def bindT_Inr)

lemma hoare_then: "\<lbrakk>hoare P m (\<lambda>_. R); hoare R n Q\<rbrakk> \<Longrightarrow> hoare P (thenT m n) Q"
  by (fastforce simp: hoare_def thenT_Inr)

lemma hoare_gets: "hoare P (getsT f) (\<lambda>x s. P s \<and> x = f s)"
  by (rule hoareI) simp

lemma hoare_if:
  "\<lbrakk>b \<Longrightarrow> hoare P m Q; \<not> b \<Longrightarrow> hoare P n Q\<rbrakk> \<Longrightarrow> hoare P (if b then m else n) Q"
  by simp

lemma hoare_option:
  "\<lbrakk>hoare P m Q; \<And>x. hoare P (f x) Q\<rbrakk> \<Longrightarrow> hoare P (case v of None \<Rightarrow> m | Some x \<Rightarrow> f x) Q"
  by (cases v) auto

lemma hoare_option_eq:
  "\<lbrakk>hoare P m Q; \<And>x. v = Some x \<Longrightarrow> hoare P (f x) Q\<rbrakk> \<Longrightarrow> hoare P (case v of None \<Rightarrow> m | Some x \<Rightarrow> f x) Q"
  by (cases v) auto

lemma hoare_require: "(b \<Longrightarrow> hoare P m Q) \<Longrightarrow> hoare P (thenT (requireT b e) m) Q"
  by (auto simp: hoare_def thenT_Inr)

lemma hoare_return: "(\<And>s. P s \<Longrightarrow> Q x s) \<Longrightarrow> hoare P (returnT x) Q"
  by (rule hoareI) simp

lemma hoare_throw: "hoare P (throwT e) Q"
  by (rule hoareI) simp

lemma hoare_write:
  assumes "hoare P m (\<lambda>(x, c). Q x)" and "\<And>x s y. Q x (s\<lparr>trail := y\<rparr>) = Q x s"
  shows "hoare P (writeT rq m) Q"
proof (rule hoareI)
  fix s x s'
  assume "P s" and "writeT rq m s = Inr (x, s')"
  then obtain c s1 where "m s = Inr ((x, c), s1)" and "s' = s1\<lparr>trail := trail s1 @ [auditRow rq c]\<rparr>"
    by (auto simp: writeT_Inr)
  with hoareD [OF assms(1) \<open>P s\<close>] show "Q x s'" by (simp add: assms(2))
qed

lemma hoare_preserves: "preserves I m \<Longrightarrow> hoare I m (\<lambda>_. I)"
  by (simp add: preserves_def)

lemma preserves_bind [preserves_intros]:
  "\<lbrakk>preserves I m; \<And>x. preserves I (f x)\<rbrakk> \<Longrightarrow> preserves I (bindT m f)"
  unfolding preserves_def by (rule hoare_bind)

lemma preserves_then [preserves_intros]:
  "\<lbrakk>preserves I m; preserves I n\<rbrakk> \<Longrightarrow> preserves I (thenT m n)"
  unfolding preserves_def by (rule hoare_then)

lemma preserves_basic [preserves_intros]:
  "preserves I (returnT x)" "preserves I (throwT e)" "preserves I (getsT f)"
  "preserves I (requireT b e)" "preserves I (liftT r)" "preserves I (checkVersion v w)"
  "preserves I (requireVersion v w)" "preserves I (requireUser rq a)"
  "preserves I (refuseWhenReadOnly rq)"
  by (auto intro!: preservesI simp: liftT_Inr)

lemma preserves_when [preserves_intros]: "preserves I m \<Longrightarrow> preserves I (whenT b m)"
  by (simp add: whenT_def preserves_basic)

lemma preserves_if [preserves_intros]:
  "\<lbrakk>b \<Longrightarrow> preserves I m; \<not> b \<Longrightarrow> preserves I n\<rbrakk> \<Longrightarrow> preserves I (if b then m else n)"
  by simp

lemma preserves_option [preserves_intros]:
  "\<lbrakk>preserves I m; \<And>x. preserves I (f x)\<rbrakk> \<Longrightarrow>
   preserves I (case v of None \<Rightarrow> m | Some x \<Rightarrow> f x)"
  by (cases v) auto

lemma preserves_prod [preserves_intros]:
  "(\<And>a b. preserves I (f a b)) \<Longrightarrow> preserves I (case v of (a, b) \<Rightarrow> f a b)"
  by (cases v) auto

lemma preserves_list [preserves_intros]:
  "\<lbrakk>preserves I m; \<And>x xs. preserves I (f x xs)\<rbrakk> \<Longrightarrow>
   preserves I (case v of [] \<Rightarrow> m | x # xs \<Rightarrow> f x xs)"
  by (cases v) auto

lemma preserves_let [preserves_intros]:
  "(\<And>x. preserves I (f x)) \<Longrightarrow> preserves I (Let v f)"
  by (simp add: Let_def)

lemma preserves_forEach [preserves_intros]:
  "(\<And>x. preserves I (f x)) \<Longrightarrow> preserves I (forEachT f xs)"
  by (induction xs) (auto intro: preserves_intros)

lemma preserves_read [preserves_intros]: "preserves I m \<Longrightarrow> preserves I (readT m)"
  by (simp add: readT_def)

lemma preserves_write:
  assumes blind: "\<And>s y. I (s\<lparr>trail := y\<rparr>) = I s" and m: "preserves I m"
  shows "preserves I (writeT rq m)"
proof (rule preservesI)
  fix s x s'
  assume "I s" and "writeT rq m s = Inr (x, s')"
  then obtain c s1 where "m s = Inr ((x, c), s1)" and "s' = s1\<lparr>trail := trail s1 @ [auditRow rq c]\<rparr>"
    by (auto simp: writeT_Inr)
  with preservesD [OF m \<open>I s\<close>] show "I s'" by (simp add: blind)
qed

lemma leaves_preserves: "leaves t m \<Longrightarrow> preserves (\<lambda>s. J (t s)) m"
  by (auto intro!: preservesI dest: leavesD)

lemma leaves_bind [leaves_intros]: "\<lbrakk>leaves t m; \<And>x. leaves t (f x)\<rbrakk> \<Longrightarrow> leaves t (bindT m f)"
  by (fastforce simp: leaves_def bindT_Inr)

lemma leaves_then [leaves_intros]: "\<lbrakk>leaves t m; leaves t n\<rbrakk> \<Longrightarrow> leaves t (thenT m n)"
  by (fastforce simp: leaves_def thenT_Inr)

lemma leaves_basic [leaves_intros]:
  "leaves t (returnT x)" "leaves t (throwT e)" "leaves t (getsT f)" "leaves t (requireT b e)"
  "leaves t (liftT r)" "leaves t (checkVersion v w)" "leaves t (requireVersion v w)"
  "leaves t (requireUser rq a)" "leaves t (refuseWhenReadOnly rq)"
  by (auto intro!: leavesI simp: liftT_Inr)

lemma leaves_modify [leaves_intros]: "(\<And>s. t (g s) = t s) \<Longrightarrow> leaves t (modifyT g)"
  by (auto intro!: leavesI)

lemma leaves_when [leaves_intros]: "leaves t m \<Longrightarrow> leaves t (whenT b m)"
  by (simp add: whenT_def leaves_basic)

lemma leaves_if [leaves_intros]:
  "\<lbrakk>b \<Longrightarrow> leaves t m; \<not> b \<Longrightarrow> leaves t n\<rbrakk> \<Longrightarrow> leaves t (if b then m else n)"
  by simp

lemma leaves_option [leaves_intros]:
  "\<lbrakk>leaves t m; \<And>x. leaves t (f x)\<rbrakk> \<Longrightarrow> leaves t (case v of None \<Rightarrow> m | Some x \<Rightarrow> f x)"
  by (cases v) auto

lemma leaves_prod [leaves_intros]:
  "(\<And>a b. leaves t (f a b)) \<Longrightarrow> leaves t (case v of (a, b) \<Rightarrow> f a b)"
  by (cases v) auto

lemma leaves_list [leaves_intros]:
  "\<lbrakk>leaves t m; \<And>x xs. leaves t (f x xs)\<rbrakk> \<Longrightarrow> leaves t (case v of [] \<Rightarrow> m | x # xs \<Rightarrow> f x xs)"
  by (cases v) auto

lemma leaves_let [leaves_intros]: "(\<And>x. leaves t (f x)) \<Longrightarrow> leaves t (Let v f)"
  by (simp add: Let_def)

lemma leaves_forEach [leaves_intros]: "(\<And>x. leaves t (f x)) \<Longrightarrow> leaves t (forEachT f xs)"
  by (induction xs) (auto intro: leaves_intros)

lemma leaves_read [leaves_intros]: "leaves t m \<Longrightarrow> leaves t (readT m)"
  by (simp add: readT_def)

subsection \<open>The contract of a transactional component\<close>

text \<open>
  A component is a set of transactions with an invariant each of them keeps when it commits. The
  contract gives the invariant of every state any interleaving of committed and refused transactions
  reaches: a refused transaction leaves the state as it was.
\<close>

locale transactional =
  fixes start :: "'s \<Rightarrow> bool"
    and step :: "'s \<Rightarrow> 's \<Rightarrow> bool"
    and inv :: "'s \<Rightarrow> bool"
  assumes starts: "start s \<Longrightarrow> inv s"
    and commits: "\<lbrakk>inv s; step s s'\<rbrakk> \<Longrightarrow> inv s'"
begin

lemma history_keeps: "\<lbrakk>step\<^sup>*\<^sup>* s s'; inv s\<rbrakk> \<Longrightarrow> inv s'"
  by (induction rule: rtranclp_induct) (auto intro: commits)

lemma reachable_keeps: "\<lbrakk>start s; step\<^sup>*\<^sup>* s s'\<rbrakk> \<Longrightarrow> inv s'"
  by (rule history_keeps) (auto intro: starts)

end

text \<open>A refused transaction commits nothing; a committed one is seen by the caller as it returned.\<close>

lemma runTx_refused: "m s = Inl e \<Longrightarrow> runTx m s = (Inl e, s)"
  by (simp add: runTx_def)

lemma runTx_committed: "m s = Inr (x, s') \<Longrightarrow> runTx m s = (Inr x, s')"
  by (simp add: runTx_def)

lemma runTx_preserves: "preserves I m \<Longrightarrow> I s \<Longrightarrow> I (snd (runTx m s))"
  by (auto simp: runTx_def dest: preservesD split: sum.splits)

end
