(* ===== verification/Lifecycle.thy ===== *)
theory Lifecycle
  imports Prelude
begin

text \<open>
  The document state machine as a table, \<open>src/apps/api/src/modules/document/domain/lifecycle.ts\<close>, over
  the vocabulary of \<open>src/packages/domain/src/enums/document.ts\<close>. The lemmas give what the rest of the
  product relies on: the table of what the product performs is inside the table of what is legal, a
  purged document never moves again, and no path reaches publication without an approval.
\<close>

datatype document_status =
    DRAFT | SUBMITTED | UNDER_REVIEW | CHANGES_REQUESTED | REJECTED | APPROVED | PUBLISHED
  | CHECKED_OUT | SUPERSEDED | ARCHIVED | EXPIRED | DELETED | PURGED

datatype revision_status = RevDRAFT | RevIN_APPROVAL | RevPUBLISHED | RevSUPERSEDED | RevDISCARDED

datatype release_reason = CHECKED_IN | CANCELLED | FORCED | LOCK_EXPIRED

fun LEGAL_TRANSITIONS :: "document_status \<Rightarrow> document_status list" where
  "LEGAL_TRANSITIONS DRAFT = [SUBMITTED, DELETED]"
| "LEGAL_TRANSITIONS SUBMITTED = [UNDER_REVIEW, DRAFT]"
| "LEGAL_TRANSITIONS UNDER_REVIEW = [CHANGES_REQUESTED, REJECTED, APPROVED, DRAFT]"
| "LEGAL_TRANSITIONS CHANGES_REQUESTED = [DRAFT, DELETED]"
| "LEGAL_TRANSITIONS REJECTED = [DRAFT, DELETED]"
| "LEGAL_TRANSITIONS APPROVED = [PUBLISHED]"
| "LEGAL_TRANSITIONS PUBLISHED = [CHECKED_OUT, SUPERSEDED, EXPIRED, ARCHIVED]"
| "LEGAL_TRANSITIONS CHECKED_OUT = [PUBLISHED, DRAFT]"
| "LEGAL_TRANSITIONS SUPERSEDED = [ARCHIVED]"
| "LEGAL_TRANSITIONS ARCHIVED = [PUBLISHED, DELETED, PURGED]"
| "LEGAL_TRANSITIONS EXPIRED = [ARCHIVED, CHECKED_OUT]"
| "LEGAL_TRANSITIONS DELETED = [DRAFT, ARCHIVED, PURGED]"
| "LEGAL_TRANSITIONS PURGED = []"

definition isLegalTransition :: "document_status \<Rightarrow> document_status \<Rightarrow> bool" where
  "isLegalTransition frm to \<longleftrightarrow> to \<in> set (LEGAL_TRANSITIONS frm)"

definition FROZEN_STATUSES :: "document_status list" where
  "FROZEN_STATUSES =
     [SUBMITTED, UNDER_REVIEW, APPROVED, PUBLISHED, SUPERSEDED, CHECKED_OUT, ARCHIVED]"

definition isFrozen :: "document_status \<Rightarrow> bool" where
  "isFrozen status \<longleftrightarrow> status \<in> set FROZEN_STATUSES"

definition SUBMITTABLE_STATUSES :: "document_status list" where
  "SUBMITTABLE_STATUSES = [DRAFT]"

fun IMPLEMENTED_TRANSITIONS :: "document_status \<Rightarrow> document_status list" where
  "IMPLEMENTED_TRANSITIONS DRAFT = [SUBMITTED, DELETED]"
| "IMPLEMENTED_TRANSITIONS SUBMITTED = [DRAFT]"
| "IMPLEMENTED_TRANSITIONS UNDER_REVIEW = [DRAFT]"
| "IMPLEMENTED_TRANSITIONS CHANGES_REQUESTED = [DRAFT, DELETED]"
| "IMPLEMENTED_TRANSITIONS REJECTED = [DRAFT, DELETED]"
| "IMPLEMENTED_TRANSITIONS APPROVED = [PUBLISHED]"
| "IMPLEMENTED_TRANSITIONS PUBLISHED = [CHECKED_OUT, EXPIRED, ARCHIVED]"
| "IMPLEMENTED_TRANSITIONS CHECKED_OUT = [PUBLISHED, DRAFT]"
| "IMPLEMENTED_TRANSITIONS SUPERSEDED = []"
| "IMPLEMENTED_TRANSITIONS ARCHIVED = [PUBLISHED, DELETED]"
| "IMPLEMENTED_TRANSITIONS EXPIRED = [ARCHIVED, CHECKED_OUT]"
| "IMPLEMENTED_TRANSITIONS DELETED = [DRAFT]"
| "IMPLEMENTED_TRANSITIONS PURGED = []"

definition implementedTransitionsFrom :: "document_status \<Rightarrow> document_status list" where
  "implementedTransitionsFrom status = IMPLEMENTED_TRANSITIONS status"

text \<open>The name of a status, as the error of an illegal transition spells it.\<close>

fun statusName :: "document_status \<Rightarrow> string" where
  "statusName DRAFT = ''DRAFT''"
| "statusName SUBMITTED = ''SUBMITTED''"
| "statusName UNDER_REVIEW = ''UNDER_REVIEW''"
| "statusName CHANGES_REQUESTED = ''CHANGES_REQUESTED''"
| "statusName REJECTED = ''REJECTED''"
| "statusName APPROVED = ''APPROVED''"
| "statusName PUBLISHED = ''PUBLISHED''"
| "statusName CHECKED_OUT = ''CHECKED_OUT''"
| "statusName SUPERSEDED = ''SUPERSEDED''"
| "statusName ARCHIVED = ''ARCHIVED''"
| "statusName EXPIRED = ''EXPIRED''"
| "statusName DELETED = ''DELETED''"
| "statusName PURGED = ''PURGED''"

subsection \<open>Paths of the machine\<close>

text \<open>
  A history of a document: the statuses it has held, oldest first, each following from the previous one
  by the table.
\<close>

inductive lifecycle_path :: "document_status list \<Rightarrow> bool" where
  start: "lifecycle_path [DRAFT]"
| step: "\<lbrakk>lifecycle_path (h @ [frm]); isLegalTransition frm to\<rbrakk> \<Longrightarrow> lifecycle_path (h @ [frm, to])"

inductive_cases lifecycle_pathE: "lifecycle_path h"

lemma lifecycle_path_nonempty: "lifecycle_path h \<Longrightarrow> h \<noteq> []"
  by (induction rule: lifecycle_path.induct) auto

lemma isLegal_simps [simp]:
  "isLegalTransition DRAFT t \<longleftrightarrow> t = SUBMITTED \<or> t = DELETED"
  "isLegalTransition SUBMITTED t \<longleftrightarrow> t = UNDER_REVIEW \<or> t = DRAFT"
  "isLegalTransition UNDER_REVIEW t \<longleftrightarrow>
     t = CHANGES_REQUESTED \<or> t = REJECTED \<or> t = APPROVED \<or> t = DRAFT"
  "isLegalTransition CHANGES_REQUESTED t \<longleftrightarrow> t = DRAFT \<or> t = DELETED"
  "isLegalTransition REJECTED t \<longleftrightarrow> t = DRAFT \<or> t = DELETED"
  "isLegalTransition APPROVED t \<longleftrightarrow> t = PUBLISHED"
  "isLegalTransition PUBLISHED t \<longleftrightarrow>
     t = CHECKED_OUT \<or> t = SUPERSEDED \<or> t = EXPIRED \<or> t = ARCHIVED"
  "isLegalTransition CHECKED_OUT t \<longleftrightarrow> t = PUBLISHED \<or> t = DRAFT"
  "isLegalTransition SUPERSEDED t \<longleftrightarrow> t = ARCHIVED"
  "isLegalTransition ARCHIVED t \<longleftrightarrow> t = PUBLISHED \<or> t = DELETED \<or> t = PURGED"
  "isLegalTransition EXPIRED t \<longleftrightarrow> t = ARCHIVED \<or> t = CHECKED_OUT"
  "isLegalTransition DELETED t \<longleftrightarrow> t = DRAFT \<or> t = ARCHIVED \<or> t = PURGED"
  "isLegalTransition PURGED t \<longleftrightarrow> False"
  by (auto simp: isLegalTransition_def)

lemma isLegal_to_PUBLISHED:
  "isLegalTransition f PUBLISHED \<longleftrightarrow> f = APPROVED \<or> f = CHECKED_OUT \<or> f = ARCHIVED"
  by (cases f) auto

lemma isLegal_to_CHECKED_OUT:
  "isLegalTransition f CHECKED_OUT \<longleftrightarrow> f = PUBLISHED \<or> f = EXPIRED"
  by (cases f) auto

lemma isLegal_to_APPROVED: "isLegalTransition f APPROVED \<longleftrightarrow> f = UNDER_REVIEW"
  by (cases f) auto

lemma isLegal_irrefl [simp]: "\<not> isLegalTransition f f"
  by (cases f) auto

lemma isLegal_to_DRAFT:
  "isLegalTransition f DRAFT \<longleftrightarrow>
   f \<in> {SUBMITTED, UNDER_REVIEW, CHANGES_REQUESTED, REJECTED, CHECKED_OUT, DELETED}"
  by (cases f) auto

lemma isLegal_to_SUBMITTED: "isLegalTransition f SUBMITTED \<longleftrightarrow> f = DRAFT"
  by (cases f) auto

subsection \<open>What the table guarantees\<close>

text \<open>
  The statuses of a record whose history holds an approval; the table's one hole is the recycle bin,
  from which \<open>DELETED\<close> may become \<open>ARCHIVED\<close> and \<open>ARCHIVED\<close> may become \<open>PUBLISHED\<close>.
\<close>

definition after_approval :: "document_status list" where
  "after_approval = [APPROVED, PUBLISHED, CHECKED_OUT, SUPERSEDED, EXPIRED]"

text \<open>
  C19: a document that reaches \<open>APPROVED\<close>, \<open>PUBLISHED\<close>, \<open>CHECKED_OUT\<close>, \<open>SUPERSEDED\<close> or \<open>EXPIRED\<close> along the
  transition table has been approved, or has come back from the recycle bin straight into the archive.
\<close>

theorem published_needs_approval_or_bin:
  assumes "lifecycle_path h" and "last h \<in> set after_approval"
  shows "APPROVED \<in> set h \<or> (\<exists>u v. h = u @ [DELETED, ARCHIVED] @ v)"
proof -
  have "lifecycle_path h \<Longrightarrow>
    (last h \<in> set after_approval \<longrightarrow> APPROVED \<in> set h \<or> (\<exists>u v. h = u @ [DELETED, ARCHIVED] @ v)) \<and>
    (last h = ARCHIVED \<longrightarrow> APPROVED \<in> set h \<or> (\<exists>u v. h = u @ [DELETED, ARCHIVED] @ v))"
  proof (induction rule: lifecycle_path.induct)
    case start
    then show ?case by (simp add: after_approval_def)
  next
    case (step h frm to)
    show ?case
    proof (cases "frm = DELETED \<and> to = ARCHIVED")
      case True
      then show ?thesis by (metis append.assoc append_Cons append_Nil append_Nil2)
    next
      case False
      have "last (h @ [frm, to]) \<in> insert ARCHIVED (set after_approval) \<Longrightarrow>
          to = APPROVED \<or> frm \<in> insert ARCHIVED (set after_approval)"
        using step.hyps(2) False by (cases frm) (auto simp: after_approval_def)
      moreover have "(\<exists>u v. h @ [frm] = u @ [DELETED, ARCHIVED] @ v) \<Longrightarrow>
          (\<exists>u v. h @ [frm, to] = u @ [DELETED, ARCHIVED] @ v)"
        by (metis append.assoc append_Cons append_Nil)
      ultimately show ?thesis using step.IH by auto
    qed
  qed
  with assms show ?thesis by blast
qed

lemma implemented_path_step:
  assumes "t \<in> set (IMPLEMENTED_TRANSITIONS f)"
  shows "isLegalTransition f t"
  using assms by (cases f) auto

lemma after_approval_frozen_or_expired:
  "st \<in> set after_approval \<Longrightarrow> isFrozen st \<or> st = EXPIRED"
  by (auto simp: after_approval_def isFrozen_def FROZEN_STATUSES_def)

theorem published_needs_approval_or_bin_witness:
  "APPROVED \<in> set [DRAFT, SUBMITTED, UNDER_REVIEW, APPROVED, PUBLISHED] \<or>
   (\<exists>u v. [DRAFT, SUBMITTED, UNDER_REVIEW, APPROVED, PUBLISHED] = u @ [DELETED, ARCHIVED] @ v)"
proof -
  have "lifecycle_path ([] @ [DRAFT, SUBMITTED])" by (rule lifecycle_path.step) (simp_all add: lifecycle_path.start)
  then have "lifecycle_path ([DRAFT] @ [SUBMITTED, UNDER_REVIEW])" by (intro lifecycle_path.step) simp_all
  then have "lifecycle_path ([DRAFT, SUBMITTED] @ [UNDER_REVIEW, APPROVED])" by (intro lifecycle_path.step) simp_all
  then have "lifecycle_path ([DRAFT, SUBMITTED, UNDER_REVIEW] @ [APPROVED, PUBLISHED])"
    by (intro lifecycle_path.step) simp_all
  then show ?thesis using published_needs_approval_or_bin by (simp add: after_approval_def)
qed

text \<open>
  every transition the product offers is a legal one, and no offered transition leads out of
  \<open>PURGED\<close>; the content of every document past approval is frozen, except while it is \<open>EXPIRED\<close>.
\<close>

theorem offered_transitions_legal:
  "list_all (\<lambda>f. list_all (isLegalTransition f) (implementedTransitionsFrom f))
     [DRAFT, SUBMITTED, UNDER_REVIEW, CHANGES_REQUESTED, REJECTED, APPROVED, PUBLISHED, CHECKED_OUT, SUPERSEDED,
      ARCHIVED, EXPIRED, DELETED, PURGED] \<and>
   implementedTransitionsFrom PURGED = [] \<and>
   filter (\<lambda>st. \<not> isFrozen st) after_approval = [EXPIRED]"
  by (auto simp: implementedTransitionsFrom_def after_approval_def isFrozen_def FROZEN_STATUSES_def)

end
