(* ===== verification/Revision_Label.thy ===== *)
theory Revision_Label
  imports Prelude
begin

text \<open>
  What a revision is called: \<open>src/apps/api/src/modules/revision/domain/revision-label.ts\<close>. The lemmas show
  that within one style two revisions never share a label, the property the source's comment on
  spreadsheet lettering is about.
\<close>

datatype label_style = NUMERIC | ALPHABETIC | MAJOR_MINOR

record lineage =
  published :: int
  sinceLastPublished :: int

definition FIRST_ISSUE :: lineage where
  "FIRST_ISSUE = \<lparr>published = 0, sinceLastPublished = 0\<rparr>"

text \<open>The \<open>do ... while\<close> loop of \<open>alphabetic\<close>; the loop ends when the next \<open>remaining\<close> is negative.\<close>

function alphabeticLoop :: "nat \<Rightarrow> string \<Rightarrow> string" where
  "alphabeticLoop remaining label =
     (let label' = char_of (65 + remaining mod 26) # label;
          next = int (remaining div 26) - 1
      in if next \<ge> 0 then alphabeticLoop (nat next) label' else label')"
  by pat_completeness auto
termination
  by (relation "measure fst") auto

declare alphabeticLoop.simps [simp del]

definition alphabetic :: "nat \<Rightarrow> string" where
  "alphabetic ordinal = alphabeticLoop ordinal []"

definition revisionLabelFor :: "int \<Rightarrow> label_style \<Rightarrow> lineage \<Rightarrow> string result" where
  "revisionLabelFor ordinal style lin =
     (if ordinal < 0 then Inl (RangeError ''A revision ordinal is a non-negative integer.'')
      else if published lin < 0 \<or> sinceLastPublished lin < 0
      then Inl (RangeError ''A revision lineage counts whole revisions.'')
      else Inr (case style of
          NUMERIC \<Rightarrow> if ordinal = 0 then ''Original'' else CHR ''R'' # showNat (nat ordinal)
        | ALPHABETIC \<Rightarrow> alphabetic (nat ordinal)
        | MAJOR_MINOR \<Rightarrow>
            showNat (nat (published lin + 1)) @ ''.'' @ showNat (nat (sinceLastPublished lin))))"

text \<open>\<open>asLabelStyle\<close> of the revision writer: an unknown style falls back to numeric.\<close>

definition asLabelStyle :: "string \<Rightarrow> label_style" where
  "asLabelStyle raw =
     (if raw = ''ALPHABETIC'' then ALPHABETIC
      else if raw = ''MAJOR_MINOR'' then MAJOR_MINOR else NUMERIC)"

subsection \<open>Spreadsheet lettering is bijective base 26\<close>

definition letterVal :: "char \<Rightarrow> nat" where
  "letterVal c = of_char c - 64"

definition readLetters :: "string \<Rightarrow> nat" where
  "readLetters s = foldl (\<lambda>acc c. 26 * acc + letterVal c) 0 s"

lemma foldl_letters:
  "foldl (\<lambda>acc c. 26 * acc + letterVal c) a s = a * 26 ^ length s + readLetters s"
proof (induction s arbitrary: a)
  case (Cons c s)
  from Cons [of "26 * a + letterVal c"] Cons [of "letterVal c"] show ?case
    by (simp add: readLetters_def algebra_simps)
qed (simp add: readLetters_def)

lemma readLetters_Cons: "readLetters (c # s) = letterVal c * 26 ^ length s + readLetters s"
  using foldl_letters [of "letterVal c" s] by (simp add: readLetters_def)

lemma letterVal_char: "d < 26 \<Longrightarrow> letterVal (char_of (65 + d)) = Suc d"
  by (simp add: letterVal_def)

lemma readLetters_loop:
  "readLetters (alphabeticLoop n label) = Suc n * 26 ^ length label + readLetters label"
proof (induction n label rule: alphabeticLoop.induct)
  case (1 n label)
  show ?case
  proof (cases "n div 26 = 0")
    case True
    then show ?thesis
      by (subst alphabeticLoop.simps) (simp add: Let_def readLetters_Cons letterVal_char)
  next
    case False
    then have nxt: "nat (int (n div 26) - 1) = n div 26 - 1" and ge: "int (n div 26) - 1 \<ge> 0"
      by auto
    have "readLetters (alphabeticLoop n label)
        = readLetters (alphabeticLoop (n div 26 - 1) (char_of (65 + n mod 26) # label))"
      using ge nxt by (subst alphabeticLoop.simps) (simp add: Let_def)
    also have "\<dots> = Suc (n div 26 - 1) * 26 ^ Suc (length label)
        + readLetters (char_of (65 + n mod 26) # label)"
      using "1.IH" [OF refl refl ge] nxt by simp
    also have "Suc (n div 26 - 1) = n div 26"
      using False by simp
    finally have eq: "readLetters (alphabeticLoop n label)
        = n div 26 * 26 ^ Suc (length label) + readLetters (char_of (65 + n mod 26) # label)" .
    define q r P where "q = n div 26" and "r = n mod 26" and "P = (26 :: nat) ^ length label"
    have "r < 26" and n: "n = 26 * q + r" by (simp_all add: q_def r_def)
    with eq have "readLetters (alphabeticLoop n label) = q * (26 * P) + (Suc r * P + readLetters label)"
      by (simp add: readLetters_Cons letterVal_char q_def [symmetric] r_def [symmetric] P_def [symmetric])
    then show ?thesis
      by (simp add: n P_def [symmetric] algebra_simps)
  qed
qed

lemma readLetters_alphabetic: "readLetters (alphabetic n) = Suc n"
  using readLetters_loop [of n "[]"] by (simp add: alphabetic_def readLetters_def)

lemma alphabetic_inject [simp]: "alphabetic m = alphabetic n \<longleftrightarrow> m = n"
  by (metis old.nat.inject readLetters_alphabetic)

lemma dot_not_digit: "\<not> isDigit (CHR ''.'')"
  by (simp add: isDigit_def)

lemma major_minor_inject:
  "showNat a @ ''.'' @ showNat b = showNat c @ ''.'' @ showNat d \<longleftrightarrow> a = c \<and> b = d"
proof
  assume eq: "showNat a @ ''.'' @ showNat b = showNat c @ ''.'' @ showNat d"
  have "\<forall>p \<in> set [showNat x, showNat y]. CHR ''.'' \<notin> set p" for x y
    using showNat_digits dot_not_digit by auto
  with eq have "[showNat a, showNat b] = [showNat c, showNat d]"
    by (intro joinStr_inject_free [where c = "CHR ''.''"]) auto
  then show "a = c \<and> b = d" by simp
qed auto

text \<open>The label of an ordinal is unique in the numeric and the alphabetic style.\<close>

lemma label_inject:
  assumes "revisionLabelFor m style l = Inr x" and "revisionLabelFor n style k = Inr x"
    and "style \<noteq> MAJOR_MINOR"
  shows "m = n"
proof -
  have "0 \<le> m" "0 \<le> n"
    using assms(1,2) by (auto simp: revisionLabelFor_def split: if_splits)
  then show ?thesis
    using assms
    by (cases style) (auto simp: revisionLabelFor_def nat_eq_iff split: if_splits)
qed

lemma major_minor_label_inject:
  assumes "revisionLabelFor m MAJOR_MINOR l = Inr x" and "revisionLabelFor n MAJOR_MINOR k = Inr x"
  shows "published l = published k \<and> sinceLastPublished l = sinceLastPublished k"
  using assms major_minor_inject
    [of "nat (published l + 1)" "nat (sinceLastPublished l)" "nat (published k + 1)"
      "nat (sinceLastPublished k)"]
  by (auto simp: revisionLabelFor_def nat_eq_iff split: if_splits)



end
