(* ===== verification/Document_Store.thy ===== *)
theory Document_Store
  imports Transaction Lifecycle Revision_Label
begin

text \<open>
  The tables behind a document and the repository operations on them:
  \<open>prisma-document.repository.ts\<close> and \<open>prisma-document-lock.repository.ts\<close> of
  \<open>src/apps/api/src/modules/document/infrastructure\<close>, \<open>prisma-revision.writer.ts\<close> of
  \<open>src/apps/api/src/modules/revision/infrastructure\<close>, and the reference count of
  \<open>src/apps/api/src/modules/storage\<close>.

  A table is the list of its rows in insertion order; the rows are one tenant's, because every
  statement of these repositories filters on the tenant of the request. A unique index, a check
  constraint or a trigger the code leans on is a branch of the operation it guards:
  \<open>uq_document_lock_live\<close>, \<open>uq_revision_ordinal\<close>, \<open>uq_revision_published\<close>, the primary keys,
  \<open>ck_document_numbered_when_published\<close>, \<open>ck_file_object_ref_count\<close> and
  \<open>current_revision_belongs_to_document\<close>.
\<close>

subsection \<open>Rows\<close>

record document_row =
  dId :: ident
  dFolderId :: ident
  dDocumentTypeId :: ident
  dCategoryId :: "ident option"
  dConfidentialityId :: ident
  dRetentionPolicyId :: "ident option"
  dTitle :: string
  dDescription :: "string option"
  dOrigin :: string
  dOwnerUserId :: ident
  dStatus :: document_status
  dDocumentNumber :: "string option"
  dLatestRevisionId :: "ident option"
  dCurrentRevisionId :: "ident option"
  dMetadata :: payload
  dVersion :: int
  dDeletedAt :: "instant option"
  dDeleteReason :: "string option"
  dDeleteCascadeId :: "ident option"

record revision_row =
  rId :: ident
  rDocumentId :: ident
  rOrdinal :: int
  rLabel :: string
  rStatus :: revision_status
  rFileObjectId :: ident
  rFilename :: string
  rChangeNote :: "string option"
  rRestoredFromRevisionId :: "ident option"
  rPublishedAt :: "instant option"
  rEffectiveFrom :: "string option"
  rEffectiveTo :: "string option"
  rMetadataSnapshot :: "payload option"
  rVersion :: int
  rDeletedAt :: "instant option"
  rDeleteCascadeId :: "ident option"

record lock_row =
  lId :: ident
  lDocumentId :: ident
  lLockedBy :: ident
  lCheckedOutRevisionId :: "ident option"
  lDraftRevisionId :: "ident option"
  lAcquiredAt :: instant
  lExpiresAt :: instant
  lReleasedAt :: "instant option"
  lReleasedBy :: "ident option"
  lReleaseReason :: "release_reason option"
  lReleaseNote :: "string option"
  lVersion :: int

record file_object =
  fId :: ident
  fChecksumSha256 :: string
  fScanStatus :: string
  fDerived :: bool
  fRefCount :: int
  fDeletedAt :: "instant option"

datatype retention_call =
    OnTrigger ident string instant "ident option" "string option"
  | OnRestored ident

record doc_state = core +
  docs :: "document_row list"
  revs :: "revision_row list"
  locks :: "lock_row list"
  files :: "file_object list"
  retentionCalls :: "retention_call list"

type_synonym 'a dtx = "(doc_state, 'a) tx"

subsection \<open>The document repository\<close>

definition findById :: "ident \<Rightarrow> bool \<Rightarrow> doc_state \<Rightarrow> document_row option" where
  "findById i includeDeleted s =
     List.find (\<lambda>d. dId d = i \<and> (includeDeleted \<or> dDeletedAt d = None)) (docs s)"

definition countWhere :: "('r \<Rightarrow> bool) \<Rightarrow> 'r list \<Rightarrow> nat" where
  "countWhere P rows = length (filter P rows)"

text \<open>The database's own check on a document row, \<open>ck_document_numbered_when_published\<close>.\<close>

definition numberedWhenPublished :: "document_row \<Rightarrow> bool" where
  "numberedWhenPublished d \<longleftrightarrow> dStatus d \<noteq> PUBLISHED \<or> dDocumentNumber d \<noteq> None"

definition insertDocument :: "document_row \<Rightarrow> unit dtx" where
  "insertDocument d =
     bindT (getsT docs) (\<lambda>rows.
     thenT (requireT (dId d \<notin> dId ` set rows) (ConstraintViolation ''document_pkey''))
     (modifyT (\<lambda>s. s\<lparr>docs := docs s @ [d]\<rparr>)))"

definition setStatus :: "ident \<Rightarrow> int \<Rightarrow> document_status \<Rightarrow> unit dtx" where
  "setStatus i expectedVersion status =
     bindT (getsT docs) (\<lambda>rows.
       let hit = (\<lambda>d. dId d = i \<and> dVersion d = expectedVersion \<and> dDeletedAt d = None);
           moved = (\<lambda>d. d\<lparr>dStatus := status, dVersion := expectedVersion + 1\<rparr>)
       in thenT (requireT (countWhere hit rows \<noteq> 0)
                   (VersionConflictError expectedVersion expectedVersion))
          (thenT (requireT (\<forall>d \<in> set rows. hit d \<longrightarrow> numberedWhenPublished (moved d))
                   (ConstraintViolation ''ck_document_numbered_when_published''))
          (modifyT (\<lambda>s. s\<lparr>docs := updateWhere hit moved (docs s)\<rparr>))))"

definition versioned :: "ident \<Rightarrow> int \<Rightarrow> (document_row \<Rightarrow> document_row) \<Rightarrow> bool \<Rightarrow> unit dtx" where
  "versioned i expectedVersion f includeDeleted =
     bindT (getsT docs) (\<lambda>rows.
       let hit = (\<lambda>d. dId d = i \<and> dVersion d = expectedVersion \<and>
                      (includeDeleted \<or> dDeletedAt d = None))
       in thenT (requireT (countWhere hit rows \<noteq> 0)
                   (VersionConflictError expectedVersion (expectedVersion + 1)))
          (modifyT (\<lambda>s. s\<lparr>docs := updateWhere hit (\<lambda>d. (f d)\<lparr>dVersion := expectedVersion + 1\<rparr>)
                                      (docs s)\<rparr>)))"

definition setDeleted ::
  "request \<Rightarrow> ident \<Rightarrow> int \<Rightarrow> bool \<Rightarrow> string option \<Rightarrow> ident option \<Rightarrow> unit dtx" where
  "setDeleted rq i expectedVersion deleted why cascadeId =
     versioned i expectedVersion
       (if deleted
        then (\<lambda>d. d\<lparr>dDeletedAt := Some (now rq), dDeleteReason := why, dDeleteCascadeId := cascadeId\<rparr>)
        else (\<lambda>d. d\<lparr>dDeletedAt := None, dDeleteReason := None, dDeleteCascadeId := None\<rparr>))
       True"

text \<open>A field of a patch is absent, or present with the value to store.\<close>

record document_patch =
  pTitle :: "string option"
  pDescription :: "string option option"
  pCategoryId :: "ident option option"
  pConfidentialityId :: "ident option"

definition patchRow :: "document_patch \<Rightarrow> document_row \<Rightarrow> document_row" where
  "patchRow patch d =
     d\<lparr>dTitle := (case pTitle patch of None \<Rightarrow> dTitle d | Some t \<Rightarrow> t),
       dDescription := (case pDescription patch of None \<Rightarrow> dDescription d | Some t \<Rightarrow> t),
       dCategoryId := (case pCategoryId patch of None \<Rightarrow> dCategoryId d | Some c \<Rightarrow> c),
       dConfidentialityId := (case pConfidentialityId patch of None \<Rightarrow> dConfidentialityId d | Some c \<Rightarrow> c)\<rparr>"

definition patchDocument :: "ident \<Rightarrow> int \<Rightarrow> document_patch \<Rightarrow> unit dtx" where
  "patchDocument i expectedVersion patch = versioned i expectedVersion (patchRow patch) False"

definition moveTo :: "ident \<Rightarrow> int \<Rightarrow> ident \<Rightarrow> unit dtx" where
  "moveTo i expectedVersion folderId =
     versioned i expectedVersion (\<lambda>d. d\<lparr>dFolderId := folderId\<rparr>) False"

definition replaceMetadata :: "ident \<Rightarrow> payload \<Rightarrow> unit dtx" where
  "replaceMetadata i values =
     modifyT (\<lambda>s. s\<lparr>docs := updateWhere (\<lambda>d. dId d = i) (\<lambda>d. d\<lparr>dMetadata := values\<rparr>) (docs s)\<rparr>)"

definition cascadeIdOf :: "ident \<Rightarrow> doc_state \<Rightarrow> ident option" where
  "cascadeIdOf i s = Option.bind (List.find (\<lambda>d. dId d = i) (docs s)) dDeleteCascadeId"

text \<open>The trigger \<open>current_revision_belongs_to_document\<close>.\<close>

definition revisionBelongs :: "ident \<Rightarrow> ident \<Rightarrow> doc_state \<Rightarrow> bool" where
  "revisionBelongs revisionId i s \<longleftrightarrow>
     (\<exists>r \<in> set (revs s). rId r = revisionId \<and> rDocumentId r = i)"

definition attachLatestRevision :: "ident \<Rightarrow> ident \<Rightarrow> unit dtx" where
  "attachLatestRevision i revisionId =
     bindT (getsT (\<lambda>s. revisionBelongs revisionId i s)) (\<lambda>owned.
     thenT (requireT owned (ConstraintViolation ''current_revision_belongs_to_document''))
     (modifyT (\<lambda>s. s\<lparr>docs := updateWhere (\<lambda>d. dId d = i)
        (\<lambda>d. d\<lparr>dLatestRevisionId := Some revisionId\<rparr>) (docs s)\<rparr>)))"

definition setCurrentRevision :: "ident \<Rightarrow> ident \<Rightarrow> unit dtx" where
  "setCurrentRevision i revisionId =
     bindT (getsT (\<lambda>s. revisionBelongs revisionId i s)) (\<lambda>owned.
     thenT (requireT owned (ConstraintViolation ''current_revision_belongs_to_document''))
     (modifyT (\<lambda>s. s\<lparr>docs := updateWhere (\<lambda>d. dId d = i)
        (\<lambda>d. d\<lparr>dCurrentRevisionId := Some revisionId\<rparr>) (docs s)\<rparr>)))"

definition assignNumber :: "ident \<Rightarrow> string \<Rightarrow> bool dtx" where
  "assignNumber i number =
     bindT (getsT docs) (\<lambda>rows.
       let hit = (\<lambda>d. dId d = i \<and> dDocumentNumber d = None \<and> dDeletedAt d = None)
       in thenT (requireT (countWhere hit rows = 0 \<or>
                    (\<forall>d \<in> set rows. dDocumentNumber d \<noteq> Some number))
                   (ConstraintViolation ''uq_document_number''))
          (thenT (modifyT (\<lambda>s. s\<lparr>docs := updateWhere hit
                    (\<lambda>d. d\<lparr>dDocumentNumber := Some number, dVersion := dVersion d + 1\<rparr>) (docs s)\<rparr>))
          (returnT (countWhere hit rows > 0))))"

definition DUPLICATE_LIMIT :: nat where
  "DUPLICATE_LIMIT = 20"

definition findByFileObject :: "ident \<Rightarrow> doc_state \<Rightarrow> document_row list" where
  "findByFileObject fileObjectId s =
     take DUPLICATE_LIMIT (filter (\<lambda>d. dDeletedAt d = None \<and>
       (\<exists>r \<in> set (revs s). rDocumentId r = dId d \<and> rFileObjectId r = fileObjectId \<and>
          rDeletedAt r = None))
     (docs s))"

subsection \<open>The lock repository\<close>

definition liveFor :: "ident \<Rightarrow> doc_state \<Rightarrow> lock_row option" where
  "liveFor i s = List.find (\<lambda>l. lDocumentId l = i \<and> lReleasedAt l = None) (locks s)"

definition acquire ::
  "ident \<Rightarrow> ident \<Rightarrow> ident \<Rightarrow> ident option \<Rightarrow> instant \<Rightarrow> instant \<Rightarrow> lock_row dtx" where
  "acquire lockId i lockedBy checkedOut acquiredAt expiresAt =
     bindT (getsT id) (\<lambda>s.
       let row = \<lparr>lId = lockId, lDocumentId = i, lLockedBy = lockedBy,
                  lCheckedOutRevisionId = checkedOut, lDraftRevisionId = None,
                  lAcquiredAt = acquiredAt, lExpiresAt = expiresAt, lReleasedAt = None,
                  lReleasedBy = None, lReleaseReason = None, lReleaseNote = None, lVersion = 1\<rparr>
       in if lockId \<in> lId ` set (locks s) \<or> liveFor i s \<noteq> None
          then throwT (case liveFor i s of
                 None \<Rightarrow> DocumentLockedError ''unknown'' expiresAt
               | Some holder \<Rightarrow> DocumentLockedError (lLockedBy holder) (lExpiresAt holder))
          else thenT (requireT (expiresAt > acquiredAt) (ConstraintViolation ''ck_document_lock_expiry''))
               (thenT (modifyT (\<lambda>s. s\<lparr>locks := locks s @ [row]\<rparr>)) (returnT row)))"

definition release ::
  "ident \<Rightarrow> release_reason \<Rightarrow> ident option \<Rightarrow> string option \<Rightarrow> instant \<Rightarrow> bool dtx" where
  "release lockId why releasedBy note at =
     bindT (getsT locks) (\<lambda>rows.
       let hit = (\<lambda>l. lId l = lockId \<and> lReleasedAt l = None)
       in thenT (modifyT (\<lambda>s. s\<lparr>locks := updateWhere hit
                (\<lambda>l. l\<lparr>lReleasedAt := Some at, lReleasedBy := releasedBy,
                      lReleaseReason := Some why, lReleaseNote := note,
                      lVersion := lVersion l + 1\<rparr>) (locks s)\<rparr>))
          (returnT (countWhere hit rows = 1)))"

definition releaseExpired :: "ident \<Rightarrow> instant \<Rightarrow> lock_row option dtx" where
  "releaseExpired i at =
     bindT (getsT (liveFor i)) (\<lambda>live.
       case live of
         None \<Rightarrow> returnT None
       | Some l \<Rightarrow>
           if lExpiresAt l > at then returnT None
           else bindT (getsT locks) (\<lambda>rows.
             let hit = (\<lambda>k. lId k = lId l \<and> lReleasedAt k = None)
             in thenT (modifyT (\<lambda>s. s\<lparr>locks := updateWhere hit
                  (\<lambda>k. k\<lparr>lReleasedAt := Some at, lReleasedBy := None,
                        lReleaseReason := Some LOCK_EXPIRED, lVersion := lVersion k + 1\<rparr>) (locks s)\<rparr>))
                (returnT (if countWhere hit rows = 0 then None else Some l))))"

definition attachDraft :: "ident \<Rightarrow> ident option \<Rightarrow> unit dtx" where
  "attachDraft lockId revisionId =
     modifyT (\<lambda>s. s\<lparr>locks := updateWhere (\<lambda>l. lId l = lockId \<and> lReleasedAt l = None)
       (\<lambda>l. l\<lparr>lDraftRevisionId := revisionId, lVersion := lVersion l + 1\<rparr>) (locks s)\<rparr>)"

subsection \<open>The reference counts of stored content\<close>

definition describeFile :: "ident \<Rightarrow> doc_state \<Rightarrow> file_object option" where
  "describeFile i s = List.find (\<lambda>f. fId f = i \<and> fDeletedAt f = None \<and> \<not> fDerived f) (files s)"

definition adjustRefCount :: "ident \<Rightarrow> int \<Rightarrow> unit dtx" where
  "adjustRefCount i delta =
     bindT (getsT files) (\<lambda>rows.
       let hit = (\<lambda>f. fId f = i \<and> fDeletedAt f = None)
       in thenT (requireT (countWhere hit rows \<noteq> 0) (NotFoundError ''The requested file''))
          (thenT (requireT (\<forall>f \<in> set rows. hit f \<longrightarrow> fRefCount f + delta \<ge> 0)
                   (ConstraintViolation ''ck_file_object_ref_count''))
          (modifyT (\<lambda>s. s\<lparr>files := updateWhere hit
             (\<lambda>f. f\<lparr>fRefCount := fRefCount f + delta\<rparr>) (files s)\<rparr>))))"

definition reference :: "ident \<Rightarrow> unit dtx" where
  "reference i = adjustRefCount i 1"

definition dereference :: "ident \<Rightarrow> unit dtx" where
  "dereference i = adjustRefCount i (-1)"

subsection \<open>The revision writer\<close>

definition createInitial ::
  "request \<Rightarrow> ident \<Rightarrow> ident \<Rightarrow> string \<Rightarrow> string option \<Rightarrow> string \<Rightarrow> (ident \<times> string) dtx" where
  "createInitial rq i fileObjectId filename changeNote labelStyle =
     bindT (nextId rq) (\<lambda>revisionId.
     bindT (liftT (revisionLabelFor 0 (asLabelStyle labelStyle) FIRST_ISSUE)) (\<lambda>label.
     bindT (getsT revs) (\<lambda>rows.
     thenT (requireT (revisionId \<notin> rId ` set rows) (ConstraintViolation ''document_revision_pkey''))
     (thenT (requireT (\<forall>r \<in> set rows. rDocumentId r = i \<longrightarrow> rOrdinal r \<noteq> 0)
               (ConstraintViolation ''uq_revision_ordinal''))
     (thenT (modifyT (\<lambda>s. s\<lparr>revs := revs s @
        [\<lparr>rId = revisionId, rDocumentId = i, rOrdinal = 0, rLabel = label, rStatus = RevDRAFT,
          rFileObjectId = fileObjectId, rFilename = filename, rChangeNote = changeNote,
          rRestoredFromRevisionId = None, rPublishedAt = None, rEffectiveFrom = None,
          rEffectiveTo = None, rMetadataSnapshot = None, rVersion = 1, rDeletedAt = None,
          rDeleteCascadeId = None\<rparr>]\<rparr>))
     (returnT (revisionId, label)))))))"

text \<open>
  The lineage \<open>createNext\<close> reads: the rows of the document by descending ordinal.
\<close>

definition lineageOf :: "ident \<Rightarrow> doc_state \<Rightarrow> revision_row list" where
  "lineageOf i s = rev (sort_key rOrdinal (filter (\<lambda>r. rDocumentId r = i) (revs s)))"

definition createNext ::
  "request \<Rightarrow> ident \<Rightarrow> ident \<Rightarrow> string \<Rightarrow> string option \<Rightarrow> string \<Rightarrow> ident option
   \<Rightarrow> (ident \<times> int \<times> string) dtx" where
  "createNext rq i fileObjectId filename changeNote labelStyle restoredFrom =
     bindT (getsT (lineageOf i)) (\<lambda>rows.
     case rows of
       [] \<Rightarrow> throwT (NotFoundError ''The document this revision extends'')
     | newest # _ \<Rightarrow>
       (let ordinal = rOrdinal newest + 1;
            published = int (countWhere (\<lambda>r. rPublishedAt r \<noteq> None) rows);
            since = (case List.find (\<lambda>r. rPublishedAt r \<noteq> None) rows of
                       None \<Rightarrow> ordinal
                     | Some lastPublished \<Rightarrow> ordinal - rOrdinal lastPublished - 1)
        in bindT (liftT (revisionLabelFor ordinal (asLabelStyle labelStyle)
                     \<lparr>published = published, sinceLastPublished = since\<rparr>)) (\<lambda>label.
           bindT (nextId rq) (\<lambda>revisionId.
           bindT (getsT revs) (\<lambda>allRows.
           thenT (requireT (revisionId \<notin> rId ` set allRows \<and>
                     (\<forall>r \<in> set allRows. rDocumentId r = i \<longrightarrow> rOrdinal r \<noteq> ordinal))
                   (VersionConflictError ordinal (ordinal + 1)))
           (thenT (modifyT (\<lambda>s. s\<lparr>revs := revs s @
              [\<lparr>rId = revisionId, rDocumentId = i, rOrdinal = ordinal, rLabel = label,
                rStatus = RevDRAFT, rFileObjectId = fileObjectId, rFilename = filename,
                rChangeNote = changeNote, rRestoredFromRevisionId = restoredFrom,
                rPublishedAt = None, rEffectiveFrom = None, rEffectiveTo = None,
                rMetadataSnapshot = None, rVersion = 1, rDeletedAt = None,
                rDeleteCascadeId = None\<rparr>]\<rparr>))
           (thenT (publishT
              (Event ''revision.created'' revisionId
                 [(''revisionId'', JStr revisionId), (''documentId'', JStr i),
                  (''ordinal'', JNum ordinal),
                  (''authorId'', JStr (case userId rq of None \<Rightarrow> '''' | Some u \<Rightarrow> u)),
                  (''fileObjectId'', JStr fileObjectId)]
               # (case restoredFrom of
                    None \<Rightarrow> []
                  | Some src \<Rightarrow>
                      [Event ''revision.restored'' revisionId
                         [(''revisionId'', JStr revisionId), (''documentId'', JStr i),
                          (''restoredFromRevisionId'', JStr src),
                          (''fileObjectId'', JStr fileObjectId)]])))
           (returnT (revisionId, ordinal, label)))))))))"

definition describeRevision :: "ident \<Rightarrow> ident \<Rightarrow> doc_state \<Rightarrow> revision_row option" where
  "describeRevision i revisionId s =
     List.find (\<lambda>r. rId r = revisionId \<and> rDocumentId r = i \<and> rDeletedAt r = None) (revs s)"

definition describePublished :: "ident \<Rightarrow> doc_state \<Rightarrow> revision_row option" where
  "describePublished i s =
     List.find (\<lambda>r. rDocumentId r = i \<and> rStatus r = RevPUBLISHED) (revs s)"

definition setWorkingStatus ::
  "ident \<Rightarrow> revision_status list \<Rightarrow> revision_status \<Rightarrow> unit dtx" where
  "setWorkingStatus revisionId sources to =
     modifyT (\<lambda>s. s\<lparr>revs := updateWhere (\<lambda>r. rId r = revisionId \<and> rStatus r \<in> set sources)
       (\<lambda>r. r\<lparr>rStatus := to, rVersion := rVersion r + 1\<rparr>) (revs s)\<rparr>)"

definition supersede :: "ident \<Rightarrow> unit dtx" where
  "supersede priorId =
     modifyT (\<lambda>s. s\<lparr>revs := updateWhere (\<lambda>r. rId r = priorId \<and> rStatus r = RevPUBLISHED)
       (\<lambda>r. r\<lparr>rStatus := RevSUPERSEDED, rVersion := rVersion r + 1\<rparr>) (revs s)\<rparr>)"

text \<open>
  \<open>publish\<close> of the writer: supersede first, publish second. The second statement is refused by
  \<open>uq_revision_published\<close> while another row of the document still says published.
\<close>

definition publishRevision ::
  "ident \<Rightarrow> ident \<Rightarrow> instant \<Rightarrow> string \<Rightarrow> string option \<Rightarrow> payload \<Rightarrow> ident option dtx" where
  "publishRevision i revisionId publishedAt effectiveFrom effectiveTo snapshot =
     bindT (getsT (describePublished i)) (\<lambda>prior.
     thenT (case prior of None \<Rightarrow> returnT () | Some p \<Rightarrow> supersede (rId p))
     (bindT (getsT revs) (\<lambda>rows.
       let hit = (\<lambda>r. rId r = revisionId \<and> rDocumentId r = i \<and>
                      rStatus r \<in> {RevIN_APPROVAL, RevDRAFT});
           moved = (\<lambda>r. r\<lparr>rStatus := RevPUBLISHED, rPublishedAt := Some publishedAt,
                          rEffectiveFrom := Some effectiveFrom, rEffectiveTo := effectiveTo,
                          rMetadataSnapshot := Some snapshot, rVersion := rVersion r + 1\<rparr>)
       in thenT (requireT (countWhere hit rows \<noteq> 0)
                  (NotFoundError ''A publishable revision of this document''))
          (thenT (requireT (\<forall>r \<in> set rows. \<not> (rDocumentId r = i \<and> rStatus r = RevPUBLISHED))
                  (ConstraintViolation ''uq_revision_published''))
          (thenT (modifyT (\<lambda>s. s\<lparr>revs := updateWhere hit moved (revs s)\<rparr>))
          (bindT (getsT (\<lambda>s. List.find (\<lambda>r. rId r = revisionId) (revs s))) (\<lambda>row.
           case row of
             None \<Rightarrow> throwT (NotFoundError ''No DocumentRevision found'')
           | Some r \<Rightarrow>
             thenT (publishT
               (Event ''revision.published'' revisionId
                  [(''revisionId'', JStr revisionId), (''documentId'', JStr i),
                   (''fileObjectId'', JStr (rFileObjectId r))]
                # (case prior of
                     None \<Rightarrow> []
                   | Some p \<Rightarrow>
                       [Event ''revision.superseded'' (rId p)
                          [(''revisionId'', JStr (rId p)), (''documentId'', JStr i),
                           (''supersededByRevisionId'', JStr revisionId)]])))
             (returnT (map_option rId prior)))))))))"

definition discard :: "ident \<Rightarrow> ident \<Rightarrow> bool dtx" where
  "discard i revisionId =
     bindT (getsT revs) (\<lambda>rows.
       let hit = (\<lambda>r. rId r = revisionId \<and> rDocumentId r = i \<and> rStatus r = RevDRAFT)
       in thenT (modifyT (\<lambda>s. s\<lparr>revs := updateWhere hit
                  (\<lambda>r. r\<lparr>rStatus := RevDISCARDED, rVersion := rVersion r + 1\<rparr>) (revs s)\<rparr>))
          (returnT (countWhere hit rows > 0)))"

text \<open>What \<open>toCascaded\<close> says of a row: its file, and whether the row still holds a reference.\<close>

definition toCascaded :: "revision_row \<Rightarrow> ident \<times> bool" where
  "toCascaded r = (rFileObjectId r, rStatus r \<noteq> RevDISCARDED)"

definition cascadeDelete :: "request \<Rightarrow> ident \<Rightarrow> ident \<Rightarrow> (ident \<times> bool) list dtx" where
  "cascadeDelete rq i cascadeId =
     bindT (getsT (\<lambda>s. filter (\<lambda>r. rDocumentId r = i \<and> rDeletedAt r = None) (revs s))) (\<lambda>rows.
     thenT (modifyT (\<lambda>s. s\<lparr>revs := updateWhere (\<lambda>r. rId r \<in> rId ` set rows)
        (\<lambda>r. r\<lparr>rDeletedAt := Some (now rq), rDeleteCascadeId := Some cascadeId\<rparr>) (revs s)\<rparr>))
     (returnT (map toCascaded rows)))"

definition restoreCascade :: "ident \<Rightarrow> ident \<Rightarrow> (ident \<times> bool) list dtx" where
  "restoreCascade i cascadeId =
     bindT (getsT (\<lambda>s. filter (\<lambda>r. rDocumentId r = i \<and> rDeleteCascadeId r = Some cascadeId \<and>
                                    rDeletedAt r \<noteq> None) (revs s))) (\<lambda>rows.
     thenT (modifyT (\<lambda>s. s\<lparr>revs := updateWhere (\<lambda>r. rId r \<in> rId ` set rows)
        (\<lambda>r. r\<lparr>rDeletedAt := None, rDeleteCascadeId := None\<rparr>) (revs s)\<rparr>))
     (returnT (map toCascaded rows)))"

end
