(* ===== verification/Document_Service.thy ===== *)
theory Document_Service
  imports Document_Store "HOL-Library.Char_ord" "HOL-Library.List_Lexorder"
begin

text \<open>
  The document use cases of \<open>src/apps/api/src/modules/document/application/document.service.ts\<close> that
  move a document through its life: creation, the one lifecycle transition every other component goes
  through, deletion and restoration, archival and reinstatement, and the sweep that expires closed
  effective windows.

  What the service asks other modules through its ports (the placement of a folder, the access
  decision, the type's policy, legal holds, the settings) is a parameter of the definitions. A calendar
  day is the string \<open>YYYY-MM-DD\<close> the source compares, ordered character by character.
\<close>

record type_policy =
  tpId :: ident
  tpIsActive :: bool
  tpDefaultConfidentialityId :: ident
  tpRetentionPolicyId :: "ident option"
  tpRevisionLabelStyle :: string

record ports =
  placementFolder :: "ident \<Rightarrow> ident option"
  mayPlaceIn :: "ident \<Rightarrow> string \<Rightarrow> bool"
  documentType :: "ident \<Rightarrow> type_policy option"
  confidentialityRank :: "ident \<Rightarrow> int option"
  rowRank :: "ident \<Rightarrow> int"
  categoryExists :: "ident \<Rightarrow> bool"
  metadataFor :: "type_policy \<Rightarrow> payload \<Rightarrow> payload result"
  holdsOn :: "ident \<Rightarrow> instant option list"
  checkoutExpiryHours :: int
  today :: string

subsection \<open>Shared guards\<close>

definition requireDocument :: "ident \<Rightarrow> bool \<Rightarrow> document_row dtx" where
  "requireDocument i includeDeleted =
     bindT (getsT (findById i includeDeleted)) (\<lambda>row.
       case row of
         None \<Rightarrow> throwT (NotFoundError ''The requested resource'')
       | Some d \<Rightarrow> returnT d)"

definition requireTitle :: "string \<Rightarrow> string dtx" where
  "requireTitle raw =
     thenT (requireT (squish raw \<noteq> []) (ValidationError ''A title is required.'' [(''title'', ''required'')]))
     (returnT (squish raw))"

definition requireReason :: "string \<Rightarrow> string dtx" where
  "requireReason raw =
     thenT (requireT (squish raw \<noteq> []) (ValidationError ''A reason is required.'' [(''reason'', ''required'')]))
     (returnT (squish raw))"

definition requireAttachable :: "ident \<Rightarrow> file_object dtx" where
  "requireAttachable fileObjectId =
     bindT (getsT (describeFile fileObjectId)) (\<lambda>file.
       case file of
         None \<Rightarrow> throwT (ValidationError ''That upload could not be found.'' [(''fileObjectId'', ''unknown'')])
       | Some f \<Rightarrow>
           thenT (requireT (fScanStatus f = ''CLEAN'') (ContentNotScannedError (fScanStatus f)))
           (returnT f))"

definition requireType :: "ports \<Rightarrow> ident \<Rightarrow> type_policy dtx" where
  "requireType p i =
     (case documentType p i of
        None \<Rightarrow> throwT (ValidationError ''That document type does not exist.'' [(''documentTypeId'', ''unknown'')])
      | Some policy \<Rightarrow>
          thenT (requireT (tpIsActive policy)
                  (ValidationError ''That document type is no longer in use.'' [(''documentTypeId'', ''inactive'')]))
          (returnT policy))"

definition resolveConfidentiality :: "ports \<Rightarrow> type_policy \<Rightarrow> ident option \<Rightarrow> ident dtx" where
  "resolveConfidentiality p policy chosen =
     (case chosen of
        None \<Rightarrow> returnT (tpDefaultConfidentialityId policy)
      | Some c \<Rightarrow>
          if c = tpDefaultConfidentialityId policy then returnT c
          else (case confidentialityRank p c of
              None \<Rightarrow> throwT (ValidationError ''That confidentiality level does not exist.''
                        [(''confidentialityId'', ''unknown'')])
            | Some rank \<Rightarrow>
                (case confidentialityRank p (tpDefaultConfidentialityId policy) of
                   None \<Rightarrow> returnT c
                 | Some fallback \<Rightarrow>
                     thenT (requireT (\<not> rank < fallback)
                             (ValidationError ''A document cannot be less sensitive than its type's default.''
                                [(''confidentialityId'', ''below default'')]))
                     (returnT c))))"

definition resolveCategory :: "ports \<Rightarrow> ident option \<Rightarrow> ident option dtx" where
  "resolveCategory p categoryId =
     (case categoryId of
        None \<Rightarrow> returnT None
      | Some c \<Rightarrow>
          thenT (requireT (categoryExists p c)
                  (ValidationError ''That category does not exist.'' [(''categoryId'', ''unknown'')]))
          (returnT (Some c)))"

definition resolveConfidentialityChange :: "ports \<Rightarrow> document_row \<Rightarrow> ident \<Rightarrow> ident dtx" where
  "resolveConfidentialityChange p current chosen =
     (case confidentialityRank p chosen of
        None \<Rightarrow> throwT (ValidationError ''That confidentiality level does not exist.''
                  [(''confidentialityId'', ''unknown'')])
      | Some rank \<Rightarrow>
          thenT (requireT (\<not> rank < rowRank p (dConfidentialityId current))
                  (ValidationError ''Reducing a document's confidentiality is not done from here.''
                     [(''confidentialityId'', ''declassification'')]))
          (returnT chosen))"

definition refuseWhenFrozen :: "document_row \<Rightarrow> unit dtx" where
  "refuseWhenFrozen d =
     requireT (\<not> isFrozen (dStatus d))
       (ValidationError ''This document is in approval and cannot be edited.''
          [(''status'', statusName (dStatus d))])"

text \<open>A patch field that is present goes through its check; an absent one stays absent.\<close>

definition whenPresent :: "'a option \<Rightarrow> ('a \<Rightarrow> 'b dtx) \<Rightarrow> 'b option dtx" where
  "whenPresent v f =
     (case v of None \<Rightarrow> returnT None | Some x \<Rightarrow> bindT (f x) (\<lambda>y. returnT (Some y)))"

definition refuseWhenFrozenForDelete :: "document_row \<Rightarrow> unit dtx" where
  "refuseWhenFrozenForDelete d =
     requireT (isLegalTransition (dStatus d) DELETED)
       (InvalidTransitionError (statusName (dStatus d)) ''DELETED'')"

definition onTrigger :: "document_row \<Rightarrow> string \<Rightarrow> instant \<Rightarrow> unit dtx" where
  "onTrigger d trigger at =
     modifyT (\<lambda>s. s\<lparr>retentionCalls := retentionCalls s @
       [OnTrigger (dId d) trigger at (dRetentionPolicyId d) (dDocumentNumber d)]\<rparr>)"

definition onRestored :: "ident \<Rightarrow> unit dtx" where
  "onRestored i = modifyT (\<lambda>s. s\<lparr>retentionCalls := retentionCalls s @ [OnRestored i]\<rparr>)"

definition changed :: "ident \<Rightarrow> operation \<Rightarrow> payload option \<Rightarrow> payload option \<Rightarrow> change" where
  "changed i op b a =
     \<lparr>action = ''DOCUMENT_CHANGED'', subjectType = ''DOCUMENT'', subjectId = i, operation = op,
      before = b, after = a, reason = None, outcome = None\<rparr>"

subsection \<open>The lifecycle transition\<close>

record transition_input =
  tDocumentId :: ident
  tTo :: document_status
  tWorkflowInstanceId :: "ident option"
  tReason :: "string option"
  tAuditAction :: "string option"
  tAuditFacts :: payload
  tAttestReason :: bool
  tDecisionComment :: "string option"

abbreviation plainTransition :: "ident \<Rightarrow> document_status \<Rightarrow> string option \<Rightarrow> transition_input" where
  "plainTransition i to why \<equiv>
     \<lparr>tDocumentId = i, tTo = to, tWorkflowInstanceId = None, tReason = why, tAuditAction = None,
      tAuditFacts = [], tAttestReason = False, tDecisionComment = None\<rparr>"

definition transitioned :: "transition_input \<Rightarrow> document_status \<Rightarrow> bool \<Rightarrow> change" where
  "transitioned inp frm unchanged =
     \<lparr>action = (case tAuditAction inp of None \<Rightarrow> ''DOCUMENT_CHANGED'' | Some a \<Rightarrow> a),
      subjectType = ''DOCUMENT'', subjectId = tDocumentId inp, operation = UPDATED,
      before = Some [(''status'', JStr (statusName frm))],
      after = Some ([(''status'', JStr (statusName (tTo inp))),
                     (''workflowInstanceId'', jopt (tWorkflowInstanceId inp)),
                     (''reason'', jopt (tReason inp))]
                    @ tAuditFacts inp @ (if unchanged then [(''unchanged'', JBool True)] else [])),
      reason = (if tAttestReason inp then tReason inp else None),
      outcome = None\<rparr>"

definition announce :: "request \<Rightarrow> document_row \<Rightarrow> transition_input \<Rightarrow> unit dtx" where
  "announce rq current inp =
     (case tTo inp of
        APPROVED \<Rightarrow>
          publishT [Event ''document.approved'' (dId current)
            [(''documentId'', JStr (dId current)),
             (''revisionId'', JStr (case dLatestRevisionId current of None \<Rightarrow> '''' | Some r \<Rightarrow> r)),
             (''documentNumber'', JStr (case dDocumentNumber current of None \<Rightarrow> '''' | Some n \<Rightarrow> n)),
             (''workflowInstanceId'', JStr (case tWorkflowInstanceId inp of None \<Rightarrow> '''' | Some w \<Rightarrow> w))]]
      | REJECTED \<Rightarrow>
          bindT (requireUser rq ''create a document without a signed-in user'') (\<lambda>actor.
          publishT [Event ''document.rejected'' (dId current)
            [(''documentId'', JStr (dId current)),
             (''revisionId'', JStr (case dLatestRevisionId current of None \<Rightarrow> '''' | Some r \<Rightarrow> r)),
             (''decidedBy'', JStr actor),
             (''comment'', JStr (case tDecisionComment inp of
                 Some c \<Rightarrow> c
               | None \<Rightarrow> (case tReason inp of Some c \<Rightarrow> c | None \<Rightarrow> '''')))]])
      | _ \<Rightarrow> returnT ())"

text \<open>The revision's own machine, kept in step with the document's.\<close>

definition syncRevision :: "document_row \<Rightarrow> document_status \<Rightarrow> unit dtx" where
  "syncRevision current to =
     (case dLatestRevisionId current of
        None \<Rightarrow> returnT ()
      | Some latest \<Rightarrow>
          if to = SUBMITTED then setWorkingStatus latest [RevDRAFT] RevIN_APPROVAL
          else if to \<in> {DRAFT, CHANGES_REQUESTED, REJECTED}
          then setWorkingStatus latest [RevIN_APPROVAL] RevDRAFT
          else returnT ())"

definition applyLifecycleTransition :: "request \<Rightarrow> transition_input \<Rightarrow> bool dtx" where
  "applyLifecycleTransition rq inp =
     writeT rq (bindT (requireDocument (tDocumentId inp) False) (\<lambda>current.
       if dStatus current = tTo inp
       then returnT (False, transitioned inp (dStatus current) True)
       else thenT (requireT (isLegalTransition (dStatus current) (tTo inp))
                    (InvalidTransitionError (statusName (dStatus current)) (statusName (tTo inp))))
            (thenT (setStatus (tDocumentId inp) (dVersion current) (tTo inp))
            (thenT (syncRevision current (tTo inp))
            (thenT (announce rq current inp)
            (returnT (True, transitioned inp (dStatus current) False)))))))"

definition availableTransitions :: "ident \<Rightarrow> document_status list dtx" where
  "availableTransitions i =
     readT (bindT (requireDocument i False) (\<lambda>d. returnT (implementedTransitionsFrom (dStatus d))))"

subsection \<open>Creation\<close>

record new_document =
  nFolderId :: ident
  nDocumentTypeId :: ident
  nCategoryId :: "ident option"
  nConfidentialityId :: "ident option"
  nTitle :: string
  nDescription :: "string option"
  nFileObjectId :: ident
  nFilename :: string
  nMetadata :: payload
  nOrigin :: string
  nAcknowledgeDuplicate :: bool

definition refuseDuplicate :: "ident \<Rightarrow> unit dtx" where
  "refuseDuplicate fileObjectId =
     bindT (getsT (findByFileObject fileObjectId)) (\<lambda>existing.
       requireT (existing = []) (DuplicateError ''document with this exact content'' ''fileObjectId''))"

definition createDocument :: "ports \<Rightarrow> request \<Rightarrow> new_document \<Rightarrow> document_row dtx" where
  "createDocument p rq inp =
     bindT (requireTitle (nTitle inp)) (\<lambda>title.
     writeT rq
      (let noFolder = ValidationError ''That folder does not exist.'' [(''folderId'', ''unknown'')] in
       case placementFolder p (nFolderId inp) of
         None \<Rightarrow> throwT noFolder
       | Some folderId \<Rightarrow>
         thenT (requireT (mayPlaceIn p folderId ''document:create'') noFolder)
         (bindT (requireType p (nDocumentTypeId inp)) (\<lambda>policy.
          bindT (requireAttachable (nFileObjectId inp)) (\<lambda>file.
          thenT (whenT (\<not> nAcknowledgeDuplicate inp) (refuseDuplicate (fId file)))
          (bindT (resolveConfidentiality p policy (nConfidentialityId inp)) (\<lambda>confidentialityId.
           bindT (resolveCategory p (nCategoryId inp)) (\<lambda>categoryId.
           bindT (liftT (metadataFor p policy (nMetadata inp))) (\<lambda>metadata.
           bindT (nextId rq) (\<lambda>i.
           bindT (requireUser rq ''create a document without a signed-in user'') (\<lambda>actor.
           thenT (insertDocument
             \<lparr>dId = i, dFolderId = folderId, dDocumentTypeId = tpId policy, dCategoryId = categoryId,
              dConfidentialityId = confidentialityId, dRetentionPolicyId = tpRetentionPolicyId policy,
              dTitle = title, dDescription = map_option squish (nDescription inp),
              dOrigin = nOrigin inp, dOwnerUserId = actor, dStatus = DRAFT, dDocumentNumber = None,
              dLatestRevisionId = None, dCurrentRevisionId = None, dMetadata = metadata,
              dVersion = 1, dDeletedAt = None, dDeleteReason = None, dDeleteCascadeId = None\<rparr>)
           (bindT (createInitial rq i (fId file) (nFilename inp) None (tpRevisionLabelStyle policy))
            (\<lambda>(revisionId, label).
            thenT (reference (fId file))
            (thenT (attachLatestRevision i revisionId)
            (thenT (publishT [Event ''document.created'' i
                [(''documentId'', JStr i), (''folderId'', JStr folderId),
                 (''documentTypeId'', JStr (tpId policy)), (''ownerUserId'', JStr actor),
                 (''revisionId'', JStr revisionId), (''fileObjectId'', JStr (fId file))]])
            (bindT (requireDocument i False) (\<lambda>row.
             returnT (row, changed i CREATED None (Some
               [(''title'', JStr title), (''folderId'', JStr folderId),
                (''documentTypeId'', JStr (tpId policy)),
                (''confidentialityId'', JStr confidentialityId),
                (''fileObjectId'', JStr (fId file)),
                (''checksumSha256'', JStr (fChecksumSha256 file)),
                (''origin'', JStr (nOrigin inp)), (''revisionId'', JStr revisionId)])))))))))))))))))))"

subsection \<open>Edits\<close>

definition updateDocument ::
  "ports \<Rightarrow> request \<Rightarrow> ident \<Rightarrow> document_patch \<Rightarrow> payload option \<Rightarrow> int option \<Rightarrow> document_row dtx" where
  "updateDocument p rq i patch metadata expectedVersion =
     writeT rq
      (bindT (requireDocument i False) (\<lambda>current.
       thenT (if pConfidentialityId patch \<noteq> None \<and>
                 pConfidentialityId patch \<noteq> Some (dConfidentialityId current)
              then requireVersion expectedVersion (dVersion current)
              else checkVersion expectedVersion (dVersion current))
       (thenT (refuseWhenFrozen current)
       (bindT (whenPresent (pTitle patch) requireTitle) (\<lambda>title.
        bindT (whenPresent (pConfidentialityId patch) (resolveConfidentialityChange p current))
         (\<lambda>confidentialityId.
        bindT (whenPresent (pCategoryId patch) (resolveCategory p)) (\<lambda>categoryId.
        thenT (patchDocument i (dVersion current)
          \<lparr>pTitle = title, pDescription = map_option (map_option squish) (pDescription patch),
           pCategoryId = categoryId, pConfidentialityId = confidentialityId\<rparr>)
        (thenT (case metadata of
             None \<Rightarrow> returnT ()
           | Some supplied \<Rightarrow>
               bindT (requireType p (dDocumentTypeId current)) (\<lambda>policy.
               bindT (liftT (metadataFor p policy supplied)) (replaceMetadata i)))
        (bindT (requireDocument i False) (\<lambda>row.
         returnT (row, changed i UPDATED
           (Some ((if title \<noteq> None then [(''title'', JStr (dTitle current))] else [])
                  @ (if categoryId \<noteq> None then [(''categoryId'', jopt (dCategoryId current))] else [])
                  @ (if confidentialityId \<noteq> None
                     then [(''confidentialityId'', JStr (dConfidentialityId current))] else [])))
           (Some ((case title of None \<Rightarrow> [] | Some t \<Rightarrow> [(''title'', JStr t)])
                  @ (case categoryId of None \<Rightarrow> [] | Some c \<Rightarrow> [(''categoryId'', jopt c)])
                  @ (case confidentialityId of None \<Rightarrow> [] | Some c \<Rightarrow> [(''confidentialityId'', JStr c)])
                  @ (case metadata of None \<Rightarrow> []
                     | Some supplied \<Rightarrow> [(''metadataFields'', JStrs (map fst supplied))]))))))))))))))"

definition moved :: "ident \<Rightarrow> ident \<Rightarrow> ident \<Rightarrow> bool \<Rightarrow> change" where
  "moved i frm to unchanged =
     \<lparr>action = ''DOCUMENT_MOVED'', subjectType = ''DOCUMENT'', subjectId = i, operation = MOVED,
      before = Some [(''folderId'', JStr frm)],
      after = Some ((''folderId'', JStr to) # (if unchanged then [(''unchanged'', JBool True)] else [])),
      reason = None, outcome = None\<rparr>"

definition moveDocument :: "ports \<Rightarrow> request \<Rightarrow> ident \<Rightarrow> ident \<Rightarrow> int option \<Rightarrow> document_row dtx" where
  "moveDocument p rq i folderId expectedVersion =
     writeT rq
      (bindT (requireDocument i False) (\<lambda>current.
       thenT (requireVersion expectedVersion (dVersion current))
       (thenT (refuseWhenFrozen current)
       (let noFolder = ValidationError ''That folder does not exist.'' [(''folderId'', ''unknown'')] in
        case placementFolder p folderId of
          None \<Rightarrow> throwT noFolder
        | Some target \<Rightarrow>
          thenT (requireT (mayPlaceIn p target ''document:move'') noFolder)
          (if target = dFolderId current
           then returnT (current, moved i (dFolderId current) target True)
           else
             thenT (moveTo i (dVersion current) target)
             (thenT invalidateTenant
             (thenT (publishT [Event ''document.moved'' i
                [(''documentId'', JStr i), (''fromFolderId'', JStr (dFolderId current)),
                 (''toFolderId'', JStr target)]])
             (bindT (requireDocument i False) (\<lambda>row.
              returnT (row, moved i (dFolderId current) target False))))))))))"

subsection \<open>Deletion and restoration\<close>

text \<open>The loop that gives back, or takes again, the reference of every cascaded revision.\<close>

definition dereferenceCascaded :: "(ident \<times> bool) list \<Rightarrow> unit dtx" where
  "dereferenceCascaded = forEachT (\<lambda>(fileObjectId, referenced). whenT referenced (dereference fileObjectId))"

definition referenceCascaded :: "(ident \<times> bool) list \<Rightarrow> unit dtx" where
  "referenceCascaded = forEachT (\<lambda>(fileObjectId, referenced). whenT referenced (reference fileObjectId))"

definition liveHolds :: "ports \<Rightarrow> ident \<Rightarrow> nat" where
  "liveHolds p i = length (filter (\<lambda>releasedAt. releasedAt = None) (holdsOn p i))"

definition removeDocument :: "ports \<Rightarrow> request \<Rightarrow> ident \<Rightarrow> int option \<Rightarrow> string \<Rightarrow> unit dtx" where
  "removeDocument p rq i expectedVersion why =
     bindT (requireReason why) (\<lambda>stated.
     writeT rq
      (bindT (requireDocument i False) (\<lambda>current.
       thenT (requireVersion expectedVersion (dVersion current))
       (thenT (refuseWhenFrozenForDelete current)
       (thenT (requireT (\<not> liveHolds p i > 0) (LegalHoldError i (liveHolds p i)))
       (bindT (nextId rq) (\<lambda>cascadeId.
        thenT (setDeleted rq i (dVersion current) True (Some stated) (Some cascadeId))
        (bindT (cascadeDelete rq i cascadeId) (\<lambda>revisions.
         thenT (dereferenceCascaded revisions)
         (thenT (onTrigger current ''ON_DELETE'' (now rq))
         (bindT (requireUser rq ''create a document without a signed-in user'') (\<lambda>actor.
          thenT (publishT [Event ''document.deleted'' i
             [(''documentId'', JStr i), (''deletedBy'', JStr actor), (''cascadeId'', JStr cascadeId),
              (''previousStatus'', JStr (statusName (dStatus current)))]])
          (returnT ((), (changed i DELETED_OP (Some [(''deletedAt'', JNull)])
             (Some [(''title'', JStr (dTitle current)),
                    (''documentNumber'', jopt (dDocumentNumber current)),
                    (''cascadeId'', JStr cascadeId),
                    (''revisionsCascaded'', JNum (int (length revisions)))]))
             \<lparr>reason := Some stated\<rparr>))))))))))))))"

text \<open>
  The legacy arm of \<open>restore\<close>: a document deleted before cascades existed gives back the reference of
  its latest revision, the row of greatest ordinal among the live ones.
\<close>

definition latestLiveRevision :: "ident \<Rightarrow> doc_state \<Rightarrow> revision_row option" where
  "latestLiveRevision i s =
     (case filter (\<lambda>r. rDeletedAt r = None) (lineageOf i s) of [] \<Rightarrow> None | r # _ \<Rightarrow> Some r)"

definition restoreDocument :: "ports \<Rightarrow> request \<Rightarrow> ident \<Rightarrow> int option \<Rightarrow> unit dtx" where
  "restoreDocument p rq i expectedVersion =
     writeT rq
      (bindT (requireDocument i True) (\<lambda>current.
       thenT (checkVersion expectedVersion (dVersion current))
       (if dDeletedAt current = None
        then returnT ((), changed i RESTORED None (Some [(''alreadyLive'', JBool True)]))
        else
          thenT (requireT (placementFolder p (dFolderId current) \<noteq> None)
                  (ValidationError ''Restore the folder this document was in first.''
                     [(''folderId'', ''deleted'')]))
          (bindT (getsT (cascadeIdOf i)) (\<lambda>cascadeId.
           bindT (getsT (latestLiveRevision i)) (\<lambda>latest.
           thenT (setDeleted rq i (dVersion current) False None None)
           (thenT (case cascadeId of
                Some c \<Rightarrow> bindT (restoreCascade i c) referenceCascaded
              | None \<Rightarrow> (case latest of None \<Rightarrow> returnT () | Some r \<Rightarrow> reference (rFileObjectId r)))
           (thenT (onRestored i)
           (thenT (publishT [Event ''document.restored'' i
              [(''documentId'', JStr i), (''restoredTo'', JStr (statusName (dStatus current))),
               (''renamedTo'', JNull)]])
           (returnT ((), changed i RESTORED
              (Some [(''deletedAt'', case dDeletedAt current of None \<Rightarrow> JNull | Some t \<Rightarrow> JNum t)])
              (Some [(''title'', JStr (dTitle current))]))))))))))))"

subsection \<open>Archival, reinstatement and expiry\<close>

definition archiveDocument :: "request \<Rightarrow> ident \<Rightarrow> int option \<Rightarrow> string \<Rightarrow> unit dtx" where
  "archiveDocument rq i expectedVersion why =
     bindT (requireReason why) (\<lambda>stated.
     readT (bindT (requireDocument i False) (\<lambda>current.
       thenT (requireVersion expectedVersion (dVersion current))
       (bindT (applyLifecycleTransition rq
          \<lparr>tDocumentId = i, tTo = ARCHIVED, tWorkflowInstanceId = None, tReason = Some stated,
           tAuditAction = Some ''ARCHIVED'', tAuditFacts = [(''via'', JStr ''EXPLICIT'')],
           tAttestReason = True, tDecisionComment = None\<rparr>) (\<lambda>archived.
        whenT archived (publishT [Event ''document.archived'' i
          [(''documentId'', JStr i), (''reason'', JStr stated)]]))))))"

definition currentRevisionOf :: "document_row \<Rightarrow> doc_state \<Rightarrow> revision_row option" where
  "currentRevisionOf d s =
     (case dCurrentRevisionId d of
        None \<Rightarrow> None
      | Some c \<Rightarrow> List.find (\<lambda>r. rId r = c) (revs s))"

definition effectiveWindowOf :: "ident \<Rightarrow> doc_state \<Rightarrow> (string option \<times> string option) option" where
  "effectiveWindowOf i s =
     (case findById i False s of
        None \<Rightarrow> None
      | Some d \<Rightarrow>
          map_option (\<lambda>r. (rEffectiveFrom r, rEffectiveTo r)) (currentRevisionOf d s))"

definition windowClosed :: "string \<Rightarrow> (string option \<times> string option) option \<Rightarrow> bool" where
  "windowClosed day window =
     (case window of
        Some (_, Some effectiveTo) \<Rightarrow> effectiveTo < day
      | _ \<Rightarrow> False)"

definition reinstateDocument ::
  "ports \<Rightarrow> request \<Rightarrow> ident \<Rightarrow> int option \<Rightarrow> string \<Rightarrow> unit dtx" where
  "reinstateDocument p rq i expectedVersion why =
     bindT (requireReason why) (\<lambda>stated.
     readT (bindT (requireDocument i False) (\<lambda>current.
       thenT (requireVersion expectedVersion (dVersion current))
       (thenT (if dStatus current = ARCHIVED
               then bindT (getsT (effectiveWindowOf i)) (\<lambda>window.
                    requireT (\<not> windowClosed (today p) window)
                      (ValidationError ''This document's effective window closed.''
                         [(''effectiveTo'', ''closed'')]))
               else returnT ())
       (bindT (applyLifecycleTransition rq
          \<lparr>tDocumentId = i, tTo = PUBLISHED, tWorkflowInstanceId = None, tReason = Some stated,
           tAuditAction = Some ''REINSTATED'', tAuditFacts = [], tAttestReason = True,
           tDecisionComment = None\<rparr>) (\<lambda>reinstated.
        whenT reinstated (publishT [Event ''document.reinstated'' i
          [(''documentId'', JStr i), (''reason'', JStr stated)]])))))))"

definition listExpiredEffective :: "string \<Rightarrow> nat \<Rightarrow> doc_state \<Rightarrow> (ident \<times> ident \<times> string) list" where
  "listExpiredEffective day limit s =
     take limit (sort_key (\<lambda>(_, _, effectiveTo). effectiveTo)
       (concat (map (\<lambda>d.
          if dDeletedAt d = None \<and> dStatus d = PUBLISHED
          then (case currentRevisionOf d s of
                  Some r \<Rightarrow>
                    (case rEffectiveTo r of
                       Some effectiveTo \<Rightarrow>
                         if effectiveTo < day then [(dId d, rId r, effectiveTo)] else []
                     | None \<Rightarrow> [])
                | None \<Rightarrow> [])
          else []) (docs s))))"

definition expireOne :: "ports \<Rightarrow> request \<Rightarrow> string \<Rightarrow> (ident \<times> ident \<times> string) \<Rightarrow> bool dtx" where
  "expireOne p rq timezone c =
     (case c of (i, revisionId, effectiveTo) \<Rightarrow>
      readT (bindT (applyLifecycleTransition rq
        \<lparr>tDocumentId = i, tTo = EXPIRED, tWorkflowInstanceId = None, tReason = None,
         tAuditAction = Some ''EXPIRED'',
         tAuditFacts = [(''effectiveTo'', JStr effectiveTo), (''evaluatedOn'', JStr (today p)),
                        (''timezone'', JStr timezone)],
         tAttestReason = False, tDecisionComment = None\<rparr>) (\<lambda>moved.
       thenT (whenT moved (publishT [Event ''document.expired'' i
         [(''documentId'', JStr i), (''revisionId'', JStr revisionId),
          (''effectiveTo'', JStr effectiveTo)]]))
       (returnT moved))))"

text \<open>
  One transaction per candidate: a version conflict or an illegal transition is skipped, any other
  error ends the pass with what has been committed so far.
\<close>

fun expireLoop ::
  "ports \<Rightarrow> request \<Rightarrow> string \<Rightarrow> (ident \<times> ident \<times> string) list \<Rightarrow> nat \<Rightarrow> doc_state
   \<Rightarrow> nat result \<times> doc_state" where
  "expireLoop p rq timezone [] expired s = (Inr expired, s)"
| "expireLoop p rq timezone (c # due) expired s =
     (case runTx (expireOne p rq timezone c) s of
        (Inr settled, s') \<Rightarrow>
          expireLoop p rq timezone due (if settled then Suc expired else expired) s'
      | (Inl e, s') \<Rightarrow>
          (case e of
             VersionConflictError _ _ \<Rightarrow> expireLoop p rq timezone due expired s'
           | InvalidTransitionError _ _ \<Rightarrow> expireLoop p rq timezone due expired s'
           | _ \<Rightarrow> (Inl e, s')))"

definition expireEffective ::
  "ports \<Rightarrow> request \<Rightarrow> string \<Rightarrow> nat \<Rightarrow> doc_state \<Rightarrow> (nat \<times> nat) result \<times> doc_state" where
  "expireEffective p rq timezone limit s =
     (let due = listExpiredEffective (today p) limit s in
      case expireLoop p rq timezone due 0 s of
        (Inr expired, s') \<Rightarrow> (Inr (length due, expired), s')
      | (Inl e, s') \<Rightarrow> (Inl e, s'))"

end
