(* ===== verification/Revision_Control.thy ===== *)
theory Revision_Control
  imports Document_Service
begin

text \<open>
  Check-out, check-in, publication and restore:
  \<open>src/apps/api/src/modules/document/application/revision-control.service.ts\<close>. The definitions follow the
  service method by method; the lock order of the source (document row, lock row, revision rows) is the
  order of the steps.
\<close>

definition HOUR_MS :: int where
  "HOUR_MS = 3600000"

definition requireActor :: "request \<Rightarrow> ident dtx" where
  "requireActor rq = requireUser rq ''perform revision control without a signed-in user''"

definition requireLiveLock :: "ident \<Rightarrow> lock_row dtx" where
  "requireLiveLock i =
     bindT (getsT (liveFor i)) (\<lambda>live.
       case live of
         None \<Rightarrow> throwT (ValidationError ''This document is marked checked out but no lock stands.''
                   [(''documentId'', ''no live lock'')])
       | Some l \<Rightarrow> returnT l)"

definition requireEnded :: "bool \<Rightarrow> ident \<Rightarrow> document_status \<Rightarrow> unit dtx" where
  "requireEnded ended i to =
     (if ended then returnT ()
      else bindT (requireDocument i False) (\<lambda>current.
             throwT (InvalidTransitionError (statusName (dStatus current)) (statusName to))))"

definition discardWorkingDraft :: "document_row \<Rightarrow> lock_row \<Rightarrow> ident option dtx" where
  "discardWorkingDraft document lock =
     (case lDraftRevisionId lock of
        None \<Rightarrow> returnT None
      | Some draftId \<Rightarrow>
          bindT (getsT (describeRevision (dId document) draftId)) (\<lambda>draft.
            case draft of
              None \<Rightarrow> returnT None
            | Some r \<Rightarrow>
                if rStatus r \<noteq> RevDRAFT then returnT None
                else bindT (discard (dId document) (rId r)) (\<lambda>mine.
                  if \<not> mine then returnT None
                  else thenT (dereference (rFileObjectId r))
                       (thenT (case dCurrentRevisionId document of
                                 None \<Rightarrow> returnT ()
                               | Some c \<Rightarrow> attachLatestRevision (dId document) c)
                       (thenT (attachDraft (lId lock) None)
                       (returnT (Some (rId r))))))))"

subsection \<open>Check-out\<close>

text \<open>The takeover arm: a lapsed lock is swept in the same transaction, a standing one refuses.\<close>

definition takeOver :: "request \<Rightarrow> ident \<Rightarrow> ident \<Rightarrow> (ident option \<times> ident option) dtx" where
  "takeOver rq actor i =
     bindT (releaseExpired i (now rq)) (\<lambda>swept.
       case swept of
         Some l \<Rightarrow> returnT (Some (lLockedBy l), lDraftRevisionId l)
       | None \<Rightarrow>
           bindT (getsT (liveFor i)) (\<lambda>live.
             case live of
               None \<Rightarrow> returnT (None, None)
             | Some l \<Rightarrow>
                 if lLockedBy l = actor
                 then throwT (ValidationError ''You already have this document checked out.''
                        [(''documentId'', ''held by you'')])
                 else throwT (DocumentLockedError (lLockedBy l) (lExpiresAt l))))"

definition checkOut :: "ports \<Rightarrow> request \<Rightarrow> ident \<Rightarrow> document_row dtx" where
  "checkOut p rq i =
     writeT rq
      (bindT (requireDocument i False) (\<lambda>document.
       bindT (requireActor rq) (\<lambda>actor.
       bindT (if dStatus document = CHECKED_OUT then takeOver rq actor i
              else thenT (applyLifecycleTransition rq (plainTransition i CHECKED_OUT None))
                     (returnT (None, None))) (\<lambda>(sweptFrom, inheritedDraft).
       bindT (nextId rq) (\<lambda>lockId.
       bindT (acquire lockId i actor (dCurrentRevisionId document) (now rq)
                (now rq + checkoutExpiryHours p * HOUR_MS)) (\<lambda>lock.
       thenT (case inheritedDraft of None \<Rightarrow> returnT () | Some d \<Rightarrow> attachDraft (lId lock) (Some d))
       (thenT (publishT [Event ''document.checked-out'' i
          [(''documentId'', JStr i), (''lockedBy'', JStr actor), (''expiresAt'', JNum (lExpiresAt lock))]])
       (bindT (requireDocument i False) (\<lambda>row.
        returnT (row,
          \<lparr>action = ''CHECKED_OUT'', subjectType = ''DOCUMENT'', subjectId = i, operation = UPDATED,
           before = None,
           after = Some ([(''lockId'', JStr (lId lock)), (''expiresAt'', JNum (lExpiresAt lock)),
                          (''checkedOutRevisionId'', jopt (dCurrentRevisionId document))]
                         @ (case sweptFrom of None \<Rightarrow> []
                            | Some h \<Rightarrow> [(''tookOverExpiredLockOf'', JStr h)])),
           reason = None, outcome = None\<rparr>))))))))))"

subsection \<open>Check-in\<close>

record check_in =
  ciDocumentId :: ident
  ciFileObjectId :: ident
  ciFilename :: string
  ciChangeNote :: string
  ciKeepCheckedOut :: bool

definition labelStyleOf :: "ports \<Rightarrow> document_row \<Rightarrow> string" where
  "labelStyleOf p d =
     (case documentType p (dDocumentTypeId d) of None \<Rightarrow> '''' | Some policy \<Rightarrow> tpRevisionLabelStyle policy)"

definition checkIn :: "ports \<Rightarrow> request \<Rightarrow> check_in \<Rightarrow> document_row dtx" where
  "checkIn p rq inp =
     writeT rq
      (bindT (requireDocument (ciDocumentId inp) False) (\<lambda>document.
       bindT (requireActor rq) (\<lambda>actor.
       thenT (requireT (dStatus document = CHECKED_OUT)
               (InvalidTransitionError (statusName (dStatus document)) ''DRAFT''))
       (bindT (requireLiveLock (ciDocumentId inp)) (\<lambda>live.
        thenT (requireT (lLockedBy live = actor)
                (ForbiddenError ''check in a document somebody else has checked out''))
        (thenT (whenT (\<not> ciKeepCheckedOut inp)
                 (thenT (applyLifecycleTransition rq (plainTransition (ciDocumentId inp) DRAFT None))
                   (returnT ())))
        (bindT (discardWorkingDraft document live) (\<lambda>replacedDraftId.
         bindT (requireAttachable (ciFileObjectId inp)) (\<lambda>file.
         bindT (createNext rq (ciDocumentId inp) (fId file) (ciFilename inp)
                  (Some (ciChangeNote inp)) (labelStyleOf p document) None)
          (\<lambda>(revisionId, ordinal, label).
          thenT (reference (fId file))
          (thenT (attachLatestRevision (ciDocumentId inp) revisionId)
          (thenT (if ciKeepCheckedOut inp then attachDraft (lId live) (Some revisionId)
                  else bindT (release (lId live) CHECKED_IN (Some actor) None (now rq)) (\<lambda>ended.
                         requireEnded ended (ciDocumentId inp) DRAFT))
          (thenT (publishT [Event ''document.checked-in'' (ciDocumentId inp)
             [(''documentId'', JStr (ciDocumentId inp)), (''newRevisionId'', JStr revisionId),
              (''ordinal'', JNum ordinal)]])
          (bindT (requireDocument (ciDocumentId inp) False) (\<lambda>row.
           returnT (row,
             \<lparr>action = ''CHECKED_IN'', subjectType = ''REVISION'', subjectId = revisionId,
              operation = CREATED, before = None,
              after = Some ([(''documentId'', JStr (ciDocumentId inp)), (''ordinal'', JNum ordinal),
                             (''label'', JStr label), (''fileObjectId'', JStr (fId file)),
                             (''checksumSha256'', JStr (fChecksumSha256 file)),
                             (''changeNote'', JStr (ciChangeNote inp)),
                             (''keptCheckedOut'', JBool (ciKeepCheckedOut inp))]
                            @ (case replacedDraftId of None \<Rightarrow> []
                               | Some r \<Rightarrow> [(''replacedDraftRevisionId'', JStr r)])),
              reason = None, outcome = None\<rparr>))))))))))))))))"

text \<open>A batch: one transaction per document, each outcome reported, none rolled back by another.\<close>

fun checkInMany ::
  "ports \<Rightarrow> request \<Rightarrow> check_in list \<Rightarrow> doc_state \<Rightarrow> (ident \<times> bool) list \<times> doc_state" where
  "checkInMany p rq [] s = ([], s)"
| "checkInMany p rq (item # items) s =
     (case runTx (checkIn p rq (item\<lparr>ciKeepCheckedOut := False\<rparr>)) s of
        (r, s') \<Rightarrow>
          (case checkInMany p rq items s' of
             (outcomes, s'') \<Rightarrow>
               ((ciDocumentId item, case r of Inl _ \<Rightarrow> False | Inr _ \<Rightarrow> True) # outcomes, s'')))"

subsection \<open>Giving the claim back\<close>

definition endCheckOut ::
  "request \<Rightarrow> ident \<Rightarrow> ident option \<Rightarrow> release_reason \<Rightarrow> string option \<Rightarrow> bool \<Rightarrow> string
   \<Rightarrow> document_row dtx" where
  "endCheckOut rq i requireHolder why releaseNote preserveDraft auditAction =
     writeT rq
      (bindT (requireDocument i False) (\<lambda>document.
       thenT (requireT (dStatus document = CHECKED_OUT)
               (InvalidTransitionError (statusName (dStatus document)) ''PUBLISHED''))
       (bindT (requireLiveLock i) (\<lambda>live.
        thenT (requireT (requireHolder = None \<or> requireHolder = Some (lLockedBy live))
                (ForbiddenError ''cancel a check-out somebody else holds''))
        (let draftPreserved = preserveDraft \<and> lDraftRevisionId live \<noteq> None in
         thenT (applyLifecycleTransition rq
                 (plainTransition i (if draftPreserved then DRAFT else PUBLISHED) releaseNote))
         (bindT (if draftPreserved then returnT None else discardWorkingDraft document live)
          (\<lambda>discardedDraftId.
          bindT (requireActor rq) (\<lambda>actor.
          bindT (release (lId live) why (Some actor) releaseNote (now rq)) (\<lambda>ended.
          thenT (requireEnded ended i PUBLISHED)
          (bindT (requireDocument i False) (\<lambda>row.
           returnT (row,
             \<lparr>action = auditAction, subjectType = ''DOCUMENT'', subjectId = i, operation = UPDATED,
              before = None,
              after = Some ([(''lockId'', JStr (lId live)), (''holder'', JStr (lLockedBy live))]
                @ (case releaseNote of None \<Rightarrow> [] | Some n \<Rightarrow> [(''note'', JStr n)])
                @ (case discardedDraftId of None \<Rightarrow> []
                   | Some r \<Rightarrow> [(''discardedDraftRevisionId'', JStr r)])
                @ (if draftPreserved
                   then [(''draftPreservedAsLatest'', jopt (lDraftRevisionId live))] else [])),
              reason = None, outcome = None\<rparr>))))))))))))"

definition cancelCheckOut :: "request \<Rightarrow> ident \<Rightarrow> document_row dtx" where
  "cancelCheckOut rq i =
     bindT (requireActor rq) (\<lambda>actor.
       endCheckOut rq i (Some actor) CANCELLED None False ''CHECKOUT_CANCELLED'')"

definition forceCheckIn :: "request \<Rightarrow> ident \<Rightarrow> string \<Rightarrow> bool \<Rightarrow> document_row dtx" where
  "forceCheckIn rq i rawNote discardDraft =
     thenT (requireT (trimStr rawNote \<noteq> [])
             (ValidationError ''A reason is required to force a check-in.'' [(''note'', ''required'')]))
     (endCheckOut rq i None FORCED (Some (trimStr rawNote)) (\<not> discardDraft) ''CHECKOUT_FORCED'')"

subsection \<open>Publication\<close>

definition publish :: "ports \<Rightarrow> request \<Rightarrow> ident \<Rightarrow> string option \<Rightarrow> string option \<Rightarrow> document_row dtx" where
  "publish p rq i effectiveFromInput effectiveTo =
     writeT rq
      (bindT (requireDocument i False) (\<lambda>document.
       thenT (requireT (dStatus document = APPROVED)
               (InvalidTransitionError (statusName (dStatus document)) ''PUBLISHED''))
       (thenT (requireT (dDocumentNumber document \<noteq> None)
               (ValidationError ''This document has no number.''
                  [(''documentNumber'', ''required before publication'')]))
       (case dLatestRevisionId document of
          None \<Rightarrow> throwT (NotFoundError ''A revision to publish'')
        | Some latest \<Rightarrow>
          (let effectiveFrom = (case effectiveFromInput of None \<Rightarrow> today p | Some d \<Rightarrow> d) in
           thenT (requireT (\<not> effectiveFrom > today p)
                   (ValidationError ''Publication takes effect immediately; the effective date cannot be in the future.''
                      [(''effectiveFrom'', ''future'')]))
           (thenT (requireT (\<not> (case effectiveTo of None \<Rightarrow> False | Some d \<Rightarrow> d < effectiveFrom))
                   (ValidationError ''The effective window ends before it starts.''
                      [(''effectiveTo'', ''before effectiveFrom'')]))
           (thenT (applyLifecycleTransition rq (plainTransition i PUBLISHED None))
           (bindT (publishRevision i latest (now rq) effectiveFrom effectiveTo (dMetadata document))
            (\<lambda>superseded.
            thenT (setCurrentRevision i latest)
            (thenT (onTrigger document ''ON_PUBLISH'' (now rq))
            (thenT (publishT [Event ''document.published'' i
               [(''documentId'', JStr i), (''revisionId'', JStr latest),
                (''supersededRevisionId'', jopt superseded), (''effectiveFrom'', JStr effectiveFrom)]])
            (thenT (case superseded of
                 None \<Rightarrow> returnT ()
               | Some priorId \<Rightarrow> writeT rq (returnT ((),
                   \<lparr>action = ''SUPERSEDED'', subjectType = ''REVISION'', subjectId = priorId,
                    operation = UPDATED, before = None,
                    after = Some [(''documentId'', JStr i), (''supersededByRevisionId'', JStr latest)],
                    reason = None, outcome = None\<rparr>)))
            (bindT (requireDocument i False) (\<lambda>row.
             returnT (row,
               \<lparr>action = ''PUBLISHED'', subjectType = ''REVISION'', subjectId = latest,
                operation = UPDATED, before = None,
                after = Some ([(''documentId'', JStr i),
                               (''documentNumber'', jopt (dDocumentNumber document)),
                               (''effectiveFrom'', JStr effectiveFrom),
                               (''effectiveTo'', jopt effectiveTo)]
                              @ (case superseded of None \<Rightarrow> []
                                 | Some priorId \<Rightarrow> [(''supersededRevisionId'', JStr priorId)])),
                reason = None, outcome = None\<rparr>)))))))))))))))"

subsection \<open>Restoring an older revision's content\<close>

definition restoreRevision ::
  "ports \<Rightarrow> request \<Rightarrow> ident \<Rightarrow> ident \<Rightarrow> string option \<Rightarrow> document_row dtx" where
  "restoreRevision p rq i sourceId changeNote =
     writeT rq
      (bindT (requireDocument i False) (\<lambda>document.
       bindT (requireActor rq) (\<lambda>actor.
       thenT (requireT (dStatus document = PUBLISHED)
               (InvalidTransitionError (statusName (dStatus document)) ''CHECKED_OUT''))
       (bindT (getsT (describeRevision i sourceId)) (\<lambda>found.
        case found of
          None \<Rightarrow> throwT (NotFoundError ''The revision to restore'')
        | Some source \<Rightarrow>
          thenT (requireT (rStatus source \<noteq> RevPUBLISHED)
                  (ValidationError ''That revision is already the published one.''
                     [(''revisionId'', ''current'')]))
          (bindT (requireAttachable (rFileObjectId source)) (\<lambda>file.
           thenT (applyLifecycleTransition rq (plainTransition i CHECKED_OUT None))
           (bindT (nextId rq) (\<lambda>lockId.
            bindT (acquire lockId i actor (dCurrentRevisionId document) (now rq)
                     (now rq + checkoutExpiryHours p * HOUR_MS)) (\<lambda>lock.
            bindT (createNext rq i (rFileObjectId source) (rFilename source)
                     (Some (case changeNote of None \<Rightarrow> ''Restored from '' @ rLabel source | Some n \<Rightarrow> n))
                     (labelStyleOf p document) (Some (rId source)))
             (\<lambda>(revisionId, ordinal, label).
             thenT (reference (fId file))
             (thenT (attachLatestRevision i revisionId)
             (bindT (release (lId lock) CHECKED_IN (Some actor) None (now rq)) (\<lambda>ended.
              thenT (requireEnded ended i DRAFT)
              (thenT (applyLifecycleTransition rq (plainTransition i DRAFT None))
              (thenT (publishT [Event ''document.checked-in'' i
                 [(''documentId'', JStr i), (''newRevisionId'', JStr revisionId),
                  (''ordinal'', JNum ordinal)]])
              (bindT (requireDocument i False) (\<lambda>row.
               returnT (row,
                 \<lparr>action = ''RESTORED_FROM'', subjectType = ''REVISION'', subjectId = revisionId,
                  operation = CREATED, before = None,
                  after = Some [(''documentId'', JStr i), (''restoredFromRevisionId'', JStr (rId source)),
                                (''restoredFromLabel'', JStr (rLabel source)),
                                (''ordinal'', JNum ordinal), (''label'', JStr label),
                                (''fileObjectId'', JStr (rFileObjectId source))],
                  reason = None, outcome = None\<rparr>)))))))))))))))))))"

end
