(* ===== verification/Folder_Contents.thy ===== *)
theory Folder_Contents
  imports Document_Service Tree_Path
begin

text \<open>
  The document half of a folder's delete cascade:
  \<open>src/apps/api/src/modules/document/infrastructure/folder-contents.participant.ts\<close> with the cascade
  statements of \<open>prisma-document.repository.ts\<close>. The path of a document's folder is the join the
  statement makes, a parameter here; \<open>heldAmong\<close> names the held documents in the order they were taken.
\<close>

definition cascadeDeleteUnderFolder ::
  "request \<Rightarrow> (ident \<Rightarrow> string) \<Rightarrow> string \<Rightarrow> ident \<Rightarrow> document_row list dtx" where
  "cascadeDeleteUnderFolder rq folderPath path cascadeId =
     bindT (getsT docs) (\<lambda>rows.
       let hit = (\<lambda>d. dDeletedAt d = None \<and> isAtOrBelow (folderPath (dFolderId d)) path);
           stamp = (\<lambda>d. d\<lparr>dDeletedAt := Some (now rq), dDeleteCascadeId := Some cascadeId\<rparr>)
       in thenT (modifyT (\<lambda>s. s\<lparr>docs := updateWhere hit stamp (docs s)\<rparr>))
          (returnT (map stamp (filter hit rows))))"

definition heldAmong :: "ports \<Rightarrow> ident list \<Rightarrow> ident list" where
  "heldAmong p ids = filter (\<lambda>i. liveHolds p i > 0) ids"

definition deleteUnder ::
  "ports \<Rightarrow> request \<Rightarrow> (ident \<Rightarrow> string) \<Rightarrow> string \<Rightarrow> ident \<Rightarrow> nat dtx" where
  "deleteUnder p rq folderPath path cascadeId =
     bindT (cascadeDeleteUnderFolder rq folderPath path cascadeId) (\<lambda>taken.
       if taken = [] then returnT 0
       else (case heldAmong p (map dId taken) of
         held # others \<Rightarrow> throwT (LegalHoldError held (length (held # others)))
       | [] \<Rightarrow>
           thenT (forEachT (\<lambda>d.
               bindT (cascadeDelete rq (dId d) cascadeId) (\<lambda>revisions.
               thenT (dereferenceCascaded revisions)
               (onTrigger d ''ON_DELETE'' (now rq)))) taken)
           (bindT (requireUser rq ''delete a folder without a signed-in user'') (\<lambda>actor.
            thenT (publishT (map (\<lambda>d. Event ''document.deleted'' (dId d)
                [(''documentId'', JStr (dId d)), (''deletedBy'', JStr actor),
                 (''cascadeId'', JStr cascadeId), (''previousStatus'', JStr (statusName (dStatus d)))]) taken))
            (returnT (length taken))))))"

definition listCascade :: "ident \<Rightarrow> doc_state \<Rightarrow> document_row list" where
  "listCascade cascadeId s =
     filter (\<lambda>d. dDeleteCascadeId d = Some cascadeId \<and> dDeletedAt d \<noteq> None) (docs s)"

definition restoreDocuments :: "ident \<Rightarrow> nat dtx" where
  "restoreDocuments cascadeId =
     bindT (getsT docs) (\<lambda>rows.
       let hit = (\<lambda>d. dDeleteCascadeId d = Some cascadeId \<and> dDeletedAt d \<noteq> None)
       in thenT (modifyT (\<lambda>s. s\<lparr>docs := updateWhere hit
              (\<lambda>d. d\<lparr>dDeletedAt := None, dDeleteReason := None, dDeleteCascadeId := None\<rparr>) (docs s)\<rparr>))
          (returnT (countWhere hit rows)))"

definition restoreUnder :: "ident \<Rightarrow> nat dtx" where
  "restoreUnder cascadeId =
     bindT (getsT (listCascade cascadeId)) (\<lambda>taken.
       if taken = [] then returnT 0
       else
         thenT (restoreDocuments cascadeId)
         (thenT (forEachT (\<lambda>d.
             thenT (bindT (restoreCascade (dId d) cascadeId) referenceCascaded)
             (onRestored (dId d))) taken)
         (thenT (publishT (map (\<lambda>d. Event ''document.restored'' (dId d)
             [(''documentId'', JStr (dId d)), (''restoredTo'', JStr (statusName (dStatus d))),
              (''renamedTo'', JNull)]) taken))
         (returnT (length taken)))))"

end
