(* ===== verification/Document_Frames.thy ===== *)
theory Document_Frames
  imports Revision_Control Folder_Contents
begin

text \<open>
  Which table each repository operation touches. The frame rules feed the preservation proofs of the
  invariants: an invariant that reads one table is kept by every operation that leaves that table alone.
\<close>

lemma leaves_write:
  fixes m :: "('a \<times> change) dtx"
  shows "leaves docs m \<Longrightarrow> leaves docs (writeT rq m)" and "leaves revs m \<Longrightarrow> leaves revs (writeT rq m)"
    and "leaves locks m \<Longrightarrow> leaves locks (writeT rq m)"
    and "leaves files m \<Longrightarrow> leaves files (writeT rq m)"
  by (fastforce simp: leaves_def writeT_Inr)+

declare leaves_write [leaves_intros]

lemma leaves_core [leaves_intros]:
  "leaves docs (nextId rq :: ident dtx)" "leaves revs (nextId rq :: ident dtx)"
  "leaves locks (nextId rq :: ident dtx)" "leaves files (nextId rq :: ident dtx)"
  "leaves docs (publishT es :: unit dtx)" "leaves revs (publishT es :: unit dtx)"
  "leaves locks (publishT es :: unit dtx)" "leaves files (publishT es :: unit dtx)"
  "leaves docs (onTrigger d t at)" "leaves revs (onTrigger d t at)"
  "leaves locks (onTrigger d t at)" "leaves files (onTrigger d t at)"
  "leaves docs (onRestored i)" "leaves revs (onRestored i)"
  "leaves locks (onRestored i)" "leaves files (onRestored i)"
  by (auto intro!: leavesI simp: onTrigger_def onRestored_def)

lemma leaves_document_ops [leaves_intros]:
  "leaves revs (insertDocument d)" "leaves locks (insertDocument d)" "leaves files (insertDocument d)"
  "leaves revs (setStatus i v st)" "leaves locks (setStatus i v st)" "leaves files (setStatus i v st)"
  "leaves revs (versioned i v f b)" "leaves locks (versioned i v f b)" "leaves files (versioned i v f b)"
  "leaves revs (attachLatestRevision i r)" "leaves locks (attachLatestRevision i r)"
  "leaves files (attachLatestRevision i r)"
  "leaves revs (setCurrentRevision i r)" "leaves locks (setCurrentRevision i r)"
  "leaves files (setCurrentRevision i r)"
  by (auto intro!: leavesI simp: insertDocument_def setStatus_def versioned_def
      attachLatestRevision_def setCurrentRevision_def tx_Inr_simps Let_def)

lemma leaves_setDeleted [leaves_intros]:
  "leaves revs (setDeleted rq i v b w c)" "leaves locks (setDeleted rq i v b w c)"
  "leaves files (setDeleted rq i v b w c)"
  by (auto simp: setDeleted_def intro: leaves_intros)

lemma leaves_edits [leaves_intros]:
  "leaves revs (patchDocument i v pt)" "leaves locks (patchDocument i v pt)" "leaves files (patchDocument i v pt)"
  "leaves revs (moveTo i v t)" "leaves locks (moveTo i v t)" "leaves files (moveTo i v t)"
  "leaves revs (replaceMetadata i m)" "leaves locks (replaceMetadata i m)" "leaves files (replaceMetadata i m)"
  "leaves docs (invalidateTenant :: unit dtx)" "leaves revs (invalidateTenant :: unit dtx)"
  "leaves locks (invalidateTenant :: unit dtx)" "leaves files (invalidateTenant :: unit dtx)"
  by (auto simp: patchDocument_def moveTo_def replaceMetadata_def intro!: leavesI intro: leaves_intros
      dest: leavesD [OF leaves_document_ops(7)] leavesD [OF leaves_document_ops(8)]
        leavesD [OF leaves_document_ops(9)])

lemma leaves_folder_cascade [leaves_intros]:
  "leaves revs (cascadeDeleteUnderFolder rq fp pa c)" "leaves locks (cascadeDeleteUnderFolder rq fp pa c)"
  "leaves files (cascadeDeleteUnderFolder rq fp pa c)"
  "leaves revs (restoreDocuments c)" "leaves locks (restoreDocuments c)" "leaves files (restoreDocuments c)"
  by (auto simp: cascadeDeleteUnderFolder_def restoreDocuments_def tx_Inr_simps Let_def intro!: leavesI)

lemma leaves_revision_ops [leaves_intros]:
  "leaves docs (setWorkingStatus r f t)" "leaves locks (setWorkingStatus r f t)"
  "leaves files (setWorkingStatus r f t)"
  "leaves docs (supersede r)" "leaves locks (supersede r)" "leaves files (supersede r)"
  "leaves docs (discard i r)" "leaves locks (discard i r)" "leaves files (discard i r)"
  "leaves docs (cascadeDelete rq i c)" "leaves locks (cascadeDelete rq i c)"
  "leaves files (cascadeDelete rq i c)"
  "leaves docs (restoreCascade i c)" "leaves locks (restoreCascade i c)"
  "leaves files (restoreCascade i c)"
  by (auto intro!: leavesI simp: setWorkingStatus_def supersede_def discard_def cascadeDelete_def
      restoreCascade_def tx_Inr_simps Let_def)

lemma leaves_create [leaves_intros]:
  "leaves docs (createInitial rq i f n c l)" "leaves locks (createInitial rq i f n c l)"
  "leaves files (createInitial rq i f n c l)"
  "leaves docs (createNext rq i f n c l r)" "leaves locks (createNext rq i f n c l r)"
  "leaves files (createNext rq i f n c l r)"
  unfolding createInitial_def createNext_def
  by (intro leaves_intros; simp)+

lemma leaves_publishRevision [leaves_intros]:
  "leaves docs (publishRevision i r at ef et sn)" "leaves locks (publishRevision i r at ef et sn)"
  "leaves files (publishRevision i r at ef et sn)"
  unfolding publishRevision_def
  by (intro leaves_intros; simp)+

lemma leaves_lock_ops [leaves_intros]:
  "leaves docs (acquire l i u c a e)" "leaves revs (acquire l i u c a e)"
  "leaves files (acquire l i u c a e)"
  "leaves docs (release l w w' n a)" "leaves revs (release l w w' n a)" "leaves files (release l w w' n a)"
  "leaves docs (attachDraft l d)" "leaves revs (attachDraft l d)" "leaves files (attachDraft l d)"
  by (auto intro!: leavesI simp: acquire_def release_def attachDraft_def tx_Inr_simps Let_def
      split: if_splits)

lemma leaves_releaseExpired [leaves_intros]:
  "leaves docs (releaseExpired i a)" "leaves revs (releaseExpired i a)" "leaves files (releaseExpired i a)"
  by (auto intro!: leavesI simp: releaseExpired_def tx_Inr_simps Let_def
      split: if_splits option.splits)

lemma leaves_file_ops [leaves_intros]:
  "leaves docs (reference f)" "leaves revs (reference f)" "leaves locks (reference f)"
  "leaves docs (dereference f)" "leaves revs (dereference f)" "leaves locks (dereference f)"
  by (auto intro!: leavesI simp: reference_def dereference_def adjustRefCount_def tx_Inr_simps Let_def)

text \<open>The shared guards read and never write.\<close>

lemma leaves_guards [leaves_intros]:
  "leaves t (requireDocument i b)" "leaves t (requireTitle r)" "leaves t (requireReason r)"
  "leaves t (requireAttachable f)" "leaves t (requireType p i)"
  "leaves t (resolveConfidentiality p q c)" "leaves t (resolveCategory p d)"
  "leaves t (refuseWhenFrozen e)" "leaves t (resolveConfidentialityChange p e ch)"
  "leaves t (refuseWhenFrozenForDelete e)" "leaves t (requireActor rq)" "leaves t (requireLiveLock i)"
  "leaves t (requireEnded b' i st)" "leaves t (refuseDuplicate f)"
  unfolding requireDocument_def requireTitle_def requireReason_def requireAttachable_def requireType_def
    resolveConfidentiality_def resolveCategory_def refuseWhenFrozen_def resolveConfidentialityChange_def
    refuseWhenFrozenForDelete_def requireActor_def
    requireLiveLock_def requireEnded_def refuseDuplicate_def
  by (intro leaves_intros)+

lemma leaves_guard_preserves:
  "(\<And>t :: doc_state \<Rightarrow> doc_state. leaves t m) \<Longrightarrow> preserves I m"
  using leaves_preserves [of "\<lambda>s. s" m I] by simp

lemma preserves_guards [preserves_intros]:
  "preserves I (requireDocument i b)" "preserves I (requireTitle r)" "preserves I (requireReason r)"
  "preserves I (requireAttachable f)" "preserves I (requireType p i)"
  "preserves I (resolveConfidentiality p q c)" "preserves I (resolveCategory p d)"
  "preserves I (refuseWhenFrozen e)" "preserves I (resolveConfidentialityChange p e ch)"
  "preserves I (refuseWhenFrozenForDelete e)" "preserves I (requireActor rq)"
  "preserves I (requireLiveLock i)" "preserves I (requireEnded b' i st)" "preserves I (refuseDuplicate f)"
  by (rule leaves_guard_preserves, rule leaves_guards)+

lemma preserves_whenPresent [preserves_intros]:
  "(\<And>x. preserves I (f x)) \<Longrightarrow> preserves I (whenPresent v f)"
  unfolding whenPresent_def by (intro preserves_intros)

lemma leaves_announce [leaves_intros]:
  "leaves docs (announce rq d inp)" "leaves revs (announce rq d inp)"
  "leaves locks (announce rq d inp)" "leaves files (announce rq d inp)"
  unfolding announce_def by (cases "tTo inp"; simp; intro leaves_intros)+

lemma leaves_syncRevision [leaves_intros]:
  "leaves docs (syncRevision d to)" "leaves locks (syncRevision d to)" "leaves files (syncRevision d to)"
  unfolding syncRevision_def by (intro leaves_intros)+

lemma leaves_transition [leaves_intros]:
  "leaves locks (applyLifecycleTransition rq inp)" "leaves files (applyLifecycleTransition rq inp)"
  unfolding applyLifecycleTransition_def by (intro leaves_intros)+

text \<open>What a committed guard tells about the state.\<close>

lemma findById_Some:
  "findById i b s = Some d \<Longrightarrow> d \<in> set (docs s) \<and> dId d = i \<and> (b \<or> dDeletedAt d = None)"
  by (auto simp: findById_def dest!: find_Some_mem)

lemma liveFor_Some:
  "liveFor i s = Some l \<Longrightarrow> l \<in> set (locks s) \<and> lDocumentId l = i \<and> lReleasedAt l = None"
  by (auto simp: liveFor_def dest!: find_Some_mem)

lemma describeRevision_Some:
  "describeRevision i r s = Some q \<Longrightarrow>
   q \<in> set (revs s) \<and> rId q = r \<and> rDocumentId q = i \<and> rDeletedAt q = None"
  by (auto simp: describeRevision_def dest!: find_Some_mem)

lemma requireDocument_Inr:
  "requireDocument i b s = Inr (d, s') \<longleftrightarrow> findById i b s = Some d \<and> s' = s"
  by (auto simp: requireDocument_def tx_Inr_simps split: option.splits)

lemma requireLiveLock_Inr:
  "requireLiveLock i s = Inr (l, s') \<longleftrightarrow> liveFor i s = Some l \<and> s' = s"
  by (auto simp: requireLiveLock_def tx_Inr_simps split: option.splits)

lemma requireAttachable_Inr:
  "requireAttachable f s = Inr (x, s') \<longleftrightarrow>
   describeFile f s = Some x \<and> fScanStatus x = ''CLEAN'' \<and> s' = s"
  by (auto simp: requireAttachable_def tx_Inr_simps split: option.splits)

lemma requireEnded_Inr: "requireEnded b i st s = Inr (u, s') \<longleftrightarrow> b \<and> s' = s"
  by (auto simp: requireEnded_def tx_Inr_simps)

end
