(* ===== verification/Document_Invariants.thy ===== *)
theory Document_Invariants
  imports Document_Frames
begin

text \<open>
  The invariants of the document tables and the proof that every use case of \<open>Document_Service\<close> and
  \<open>Revision_Control\<close> keeps them:

  \<^item> identifiers are unique, and a published document has a number;
  \<^item> the ordinals of a document's revisions are \<open>0, 1, ...\<close> without gap or repetition, at most one
    revision of a document is published, and a revision records a publication instant exactly when it is
    or was published;
  \<^item> at most one lock of a document is live, and a lock is released exactly when it says why;
  \<^item> the reference count of a stored file is the number of revisions that hold it;
  \<^item> a document is checked out exactly when a live lock stands on it.
\<close>

subsection \<open>Invariants of single tables\<close>

definition docs_ok :: "document_row list \<Rightarrow> bool" where
  "docs_ok ds \<longleftrightarrow> distinct (map dId ds) \<and> (\<forall>d \<in> set ds. numberedWhenPublished d)"

definition ordinalsOf :: "ident \<Rightarrow> revision_row list \<Rightarrow> int set" where
  "ordinalsOf i rs = rOrdinal ` {r \<in> set rs. rDocumentId r = i}"

definition contiguous :: "revision_row list \<Rightarrow> bool" where
  "contiguous rs \<longleftrightarrow>
     distinct (map (\<lambda>r. (rDocumentId r, rOrdinal r)) rs) \<and> (\<forall>i. \<exists>n. ordinalsOf i rs = {0 ..< n})"

definition onePublished :: "revision_row list \<Rightarrow> bool" where
  "onePublished = uniqueWhere (\<lambda>r. rStatus r = RevPUBLISHED) rDocumentId rId"

definition publishedState :: "revision_row list \<Rightarrow> bool" where
  "publishedState rs \<longleftrightarrow>
     (\<forall>r \<in> set rs. rPublishedAt r \<noteq> None \<longleftrightarrow> rStatus r \<in> {RevPUBLISHED, RevSUPERSEDED})"

definition revs_ok :: "revision_row list \<Rightarrow> bool" where
  "revs_ok rs \<longleftrightarrow> distinct (map rId rs) \<and> contiguous rs \<and> onePublished rs \<and> publishedState rs"

definition isLive :: "lock_row \<Rightarrow> bool" where
  "isLive l \<longleftrightarrow> lReleasedAt l = None"

definition releasedState :: "lock_row list \<Rightarrow> bool" where
  "releasedState ls \<longleftrightarrow> (\<forall>l \<in> set ls. isLive l \<longleftrightarrow> lReleaseReason l = None)"

definition locks_ok :: "lock_row list \<Rightarrow> bool" where
  "locks_ok ls \<longleftrightarrow> distinct (map lId ls) \<and> uniqueWhere isLive lDocumentId lId ls \<and> releasedState ls"

subsubsection \<open>Documents\<close>

lemma docs_ok_update:
  assumes "docs_ok ds" and "\<And>d. P d \<Longrightarrow> dId (f d) = dId d"
    and "\<And>d. d \<in> set ds \<Longrightarrow> P d \<Longrightarrow> numberedWhenPublished d \<Longrightarrow> numberedWhenPublished (f d)"
  shows "docs_ok (updateWhere P f ds)"
  using assms by (auto simp: docs_ok_def map_updateWhere set_updateWhere)

lemma docs_ok_ops:
  shows "preserves (\<lambda>s. docs_ok (docs s)) (setStatus i v st)"
    and "preserves (\<lambda>s. docs_ok (docs s)) (setDeleted rq i v b w c)"
    and "preserves (\<lambda>s. docs_ok (docs s)) (attachLatestRevision i r)"
    and "preserves (\<lambda>s. docs_ok (docs s)) (setCurrentRevision i r)"
  by (auto intro!: preservesI docs_ok_update simp: setStatus_def setDeleted_def versioned_def
      attachLatestRevision_def setCurrentRevision_def tx_Inr_simps Let_def numberedWhenPublished_def
      split: if_splits)

declare docs_ok_ops [preserves_intros]

text \<open>An edit keeps the identity, the status, the number and the bin state of every row.\<close>

lemma docs_ok_edits [preserves_intros]:
  shows "preserves (\<lambda>s. docs_ok (docs s)) (patchDocument i v pt)"
    and "preserves (\<lambda>s. docs_ok (docs s)) (moveTo i v t)"
    and "preserves (\<lambda>s. docs_ok (docs s)) (replaceMetadata i m)"
  by (auto intro!: preservesI docs_ok_update simp: patchDocument_def patchRow_def moveTo_def versioned_def
      replaceMetadata_def tx_Inr_simps Let_def numberedWhenPublished_def)

lemma docs_ok_folder_cascade [preserves_intros]:
  shows "preserves (\<lambda>s. docs_ok (docs s)) (cascadeDeleteUnderFolder rq fp pa c)"
    and "preserves (\<lambda>s. docs_ok (docs s)) (restoreDocuments c)"
  by (auto intro!: preservesI docs_ok_update simp: cascadeDeleteUnderFolder_def restoreDocuments_def
      tx_Inr_simps Let_def numberedWhenPublished_def)

lemma docs_ok_insert [preserves_intros]:
  "numberedWhenPublished d \<Longrightarrow> preserves (\<lambda>s. docs_ok (docs s)) (insertDocument d)"
  by (auto intro!: preservesI simp: insertDocument_def tx_Inr_simps docs_ok_def)

subsubsection \<open>Locks\<close>

lemma locks_ok_update:
  assumes "locks_ok ls"
    and "\<And>l. P l \<Longrightarrow> lId (f l) = lId l \<and> lDocumentId (f l) = lDocumentId l"
    and "\<And>l. P l \<Longrightarrow> isLive (f l) \<Longrightarrow> isLive l"
    and "\<And>l. P l \<Longrightarrow> (isLive l \<longleftrightarrow> lReleaseReason l = None) \<Longrightarrow> (isLive (f l) \<longleftrightarrow> lReleaseReason (f l) = None)"
  shows "locks_ok (updateWhere P f ls)"
  using assms unfolding locks_ok_def
  by (auto intro!: uniqueWhere_update simp: map_updateWhere releasedState_def ball_updateWhere)

lemma locks_ok_release:
  "preserves (\<lambda>s. locks_ok (locks s)) (release l w w' n a)"
  by (rule preservesI) (auto intro!: locks_ok_update simp: release_def tx_Inr_simps Let_def isLive_def)

lemma locks_ok_attachDraft:
  "preserves (\<lambda>s. locks_ok (locks s)) (attachDraft l d)"
  by (rule preservesI) (auto intro!: locks_ok_update simp: attachDraft_def isLive_def)

lemma locks_ok_releaseExpired:
  "preserves (\<lambda>s. locks_ok (locks s)) (releaseExpired i a)"
  by (rule preservesI) (auto intro!: locks_ok_update
      simp: releaseExpired_def tx_Inr_simps Let_def isLive_def split: if_splits option.splits)

lemma locks_ok_acquire:
  "preserves (\<lambda>s. locks_ok (locks s)) (acquire l i u c a e)"
proof (rule preservesI)
  fix s x s'
  assume ok: "locks_ok (locks s)" and run: "acquire l i u c a e s = Inr (x, s')"
  have new: "l \<notin> lId ` set (locks s)" and free: "liveFor i s = None"
    and s': "locks s' = locks s @ [x]"
    and x: "lId x = l" "lDocumentId x = i" "isLive x" "lReleaseReason x = None"
    using run by (auto simp: acquire_def tx_Inr_simps Let_def isLive_def split: if_splits)
  have "lDocumentId k \<noteq> lDocumentId x" if "k \<in> set (locks s)" "isLive k" for k
    using free that x by (auto simp: liveFor_def find_None_iff_all isLive_def)
  then have "uniqueWhere isLive lDocumentId lId (locks s')"
    using ok unfolding s' by (intro uniqueWhere_append) (simp_all add: locks_ok_def)
  with ok new x show "locks_ok (locks s')"
    by (simp add: locks_ok_def s' releasedState_def)
qed

lemmas locks_ok_ops [preserves_intros] =
  locks_ok_release locks_ok_attachDraft locks_ok_releaseExpired locks_ok_acquire

subsubsection \<open>Revisions\<close>

lemma contiguous_update:
  assumes "contiguous rs"
    and "\<And>r. P r \<Longrightarrow> rDocumentId (f r) = rDocumentId r \<and> rOrdinal (f r) = rOrdinal r"
  shows "contiguous (updateWhere P f rs)"
proof -
  have pairs: "map (\<lambda>r. (rDocumentId r, rOrdinal r)) (updateWhere P f rs) = map (\<lambda>r. (rDocumentId r, rOrdinal r)) rs"
    using assms(2) by (intro map_updateWhere) auto
  have "ordinalsOf i xs = snd ` {p \<in> set (map (\<lambda>r. (rDocumentId r, rOrdinal r)) xs). fst p = i}" for i xs
    by (force simp: ordinalsOf_def)
  then have "ordinalsOf i (updateWhere P f rs) = ordinalsOf i rs" for i
    by (simp only: pairs)
  then show ?thesis using assms(1) by (simp add: contiguous_def pairs)
qed

lemma revs_ok_update:
  assumes "revs_ok rs"
    and "\<And>r. P r \<Longrightarrow> rId (f r) = rId r \<and> rDocumentId (f r) = rDocumentId r \<and> rOrdinal (f r) = rOrdinal r"
    and "\<And>r. P r \<Longrightarrow> rStatus (f r) = RevPUBLISHED \<Longrightarrow> rStatus r = RevPUBLISHED"
    and "\<And>r. r \<in> set rs \<Longrightarrow> P r \<Longrightarrow> (rPublishedAt r \<noteq> None \<longleftrightarrow> rStatus r \<in> {RevPUBLISHED, RevSUPERSEDED}) \<Longrightarrow>
       (rPublishedAt (f r) \<noteq> None \<longleftrightarrow> rStatus (f r) \<in> {RevPUBLISHED, RevSUPERSEDED})"
  shows "revs_ok (updateWhere P f rs)"
proof -
  have "distinct (map rId (updateWhere P f rs))"
    using assms(1,2) by (simp add: revs_ok_def map_updateWhere)
  moreover have "contiguous (updateWhere P f rs)"
    using assms(1,2) by (auto simp: revs_ok_def intro!: contiguous_update)
  moreover have "onePublished (updateWhere P f rs)"
    using assms(1,2,3) unfolding revs_ok_def onePublished_def by (auto intro!: uniqueWhere_update)
  moreover have "publishedState (updateWhere P f rs)"
    using assms(1,4) by (auto simp: revs_ok_def publishedState_def ball_updateWhere)
  ultimately show ?thesis by (simp add: revs_ok_def)
qed

lemma revs_ok_ops [preserves_intros]:
  "preserves (\<lambda>s. revs_ok (revs s)) (supersede r)"
  "preserves (\<lambda>s. revs_ok (revs s)) (discard i r)"
  "preserves (\<lambda>s. revs_ok (revs s)) (cascadeDelete rq i c)"
  "preserves (\<lambda>s. revs_ok (revs s)) (restoreCascade i c)"
  by (rule preservesI, auto intro!: revs_ok_update simp: supersede_def discard_def cascadeDelete_def
      restoreCascade_def tx_Inr_simps Let_def)+

lemma revs_ok_working [preserves_intros]:
  "preserves (\<lambda>s. revs_ok (revs s)) (setWorkingStatus r [RevDRAFT] RevIN_APPROVAL)"
  "preserves (\<lambda>s. revs_ok (revs s)) (setWorkingStatus r [RevIN_APPROVAL] RevDRAFT)"
  by (rule preservesI, auto intro!: revs_ok_update simp: setWorkingStatus_def)+

lemma ordinalsOf_snoc:
  "ordinalsOf j (rs @ [r]) = (if rDocumentId r = j then insert (rOrdinal r) (ordinalsOf j rs) else ordinalsOf j rs)"
  by (auto simp: ordinalsOf_def)

lemma revs_ok_append:
  assumes "revs_ok rs" and "rId r \<notin> rId ` set rs"
    and "ordinalsOf (rDocumentId r) rs = {0 ..< rOrdinal r}" and "rOrdinal r \<ge> 0"
    and "rStatus r \<notin> {RevPUBLISHED, RevSUPERSEDED}" and "rPublishedAt r = None"
  shows "revs_ok (rs @ [r])"
proof -
  have ords: "\<exists>n. ordinalsOf j (rs @ [r]) = {0 ..< n}" for j
  proof (cases "rDocumentId r = j")
    case True
    then have "ordinalsOf j (rs @ [r]) = {0 ..< rOrdinal r + 1}"
      using assms(3,4) by (auto simp: ordinalsOf_snoc)
    then show ?thesis by blast
  next
    case False
    then show ?thesis using assms(1) by (auto simp: ordinalsOf_snoc revs_ok_def contiguous_def)
  qed
  have "(rDocumentId r, rOrdinal r) \<notin> (\<lambda>r. (rDocumentId r, rOrdinal r)) ` set rs"
  proof
    assume "(rDocumentId r, rOrdinal r) \<in> (\<lambda>r. (rDocumentId r, rOrdinal r)) ` set rs"
    then have "rOrdinal r \<in> ordinalsOf (rDocumentId r) rs" by (auto simp: ordinalsOf_def)
    with assms(3) show False by simp
  qed
  then have "contiguous (rs @ [r])"
    using assms(1) ords by (simp add: revs_ok_def contiguous_def)
  moreover have "onePublished (rs @ [r])"
    using assms(1,5) by (auto simp: revs_ok_def onePublished_def intro!: uniqueWhere_append)
  ultimately show ?thesis
    using assms(1,2,5,6) by (simp add: revs_ok_def publishedState_def)
qed

lemma lineageOf_newest:
  assumes "lineageOf i s = newest # rest"
  shows "newest \<in> set (revs s)" and "rDocumentId newest = i"
    and "\<And>r. r \<in> set (revs s) \<Longrightarrow> rDocumentId r = i \<Longrightarrow> rOrdinal r \<le> rOrdinal newest"
proof -
  let ?xs = "filter (\<lambda>r. rDocumentId r = i) (revs s)"
  have srt: "sort_key rOrdinal ?xs = rev rest @ [newest]"
    using assms by (simp add: lineageOf_def rev_eq_Cons_iff)
  have mem: "set (rev rest @ [newest]) = set ?xs"
    using srt by (metis set_sort)
  show "newest \<in> set (revs s)" and "rDocumentId newest = i"
    using mem by auto
  have "sorted (map rOrdinal (rev rest @ [newest]))"
    using srt by (metis sorted_sort_key)
  then have top: "\<forall>r \<in> set (rev rest). rOrdinal r \<le> rOrdinal newest"
    by (auto simp: sorted_append)
  show "\<And>r. r \<in> set (revs s) \<Longrightarrow> rDocumentId r = i \<Longrightarrow> rOrdinal r \<le> rOrdinal newest"
  proof -
    fix r
    assume "r \<in> set (revs s)" and "rDocumentId r = i"
    then have "r \<in> set (rev rest @ [newest])" unfolding mem by simp
    then show "rOrdinal r \<le> rOrdinal newest" using top by auto
  qed
qed

lemma revs_ok_createInitial [preserves_intros]:
  "preserves (\<lambda>s. revs_ok (revs s)) (createInitial rq i f n c l)"
proof (rule preservesI)
  fix s x s'
  assume ok: "revs_ok (revs s)" and run: "createInitial rq i f n c l s = Inr (x, s')"
  obtain r where s': "revs s' = revs s @ [r]" and r: "rId r \<notin> rId ` set (revs s)" "rDocumentId r = i"
      "rOrdinal r = 0" "rStatus r = RevDRAFT" "rPublishedAt r = None"
    and none: "\<forall>q \<in> set (revs s). rDocumentId q = i \<longrightarrow> rOrdinal q \<noteq> 0"
    using run by (auto simp: createInitial_def tx_Inr_simps)
  obtain m where m: "ordinalsOf i (revs s) = {0 ..< m}"
    using ok by (auto simp: revs_ok_def contiguous_def)
  have "0 \<notin> ordinalsOf i (revs s)" using none by (auto simp: ordinalsOf_def)
  with m have "ordinalsOf i (revs s) = {}" by auto
  with ok r show "revs_ok (revs s')" unfolding s' by (intro revs_ok_append) auto
qed

lemma createNext_row:
  assumes "createNext rq i f n c l src s = Inr ((rid, ord, lab), s')"
  obtains newest rest r where "lineageOf i s = newest # rest" and "revs s' = revs s @ [r]"
    and "rId r = rid" and "rid \<notin> rId ` set (revs s)" and "rDocumentId r = i" and "rOrdinal r = ord"
    and "ord = rOrdinal newest + 1" and "rStatus r = RevDRAFT" and "rFileObjectId r = f"
    and "rPublishedAt r = None" and "rDeletedAt r = None"
  using assms by (auto simp: createNext_def tx_Inr_simps Let_def split: list.splits)

lemma revs_ok_createNext [preserves_intros]:
  "preserves (\<lambda>s. revs_ok (revs s)) (createNext rq i f n c l src)"
proof (rule preservesI)
  fix s x s'
  assume ok: "revs_ok (revs s)" and run: "createNext rq i f n c l src s = Inr (x, s')"
  obtain newest rest r where lin: "lineageOf i s = newest # rest" and s': "revs s' = revs s @ [r]"
    and r: "rId r \<notin> rId ` set (revs s)" "rDocumentId r = i" "rOrdinal r = rOrdinal newest + 1"
      "rStatus r = RevDRAFT" "rPublishedAt r = None"
    using run by (cases x) (auto elim!: createNext_row)
  note newest = lineageOf_newest [OF lin]
  obtain m where m: "ordinalsOf i (revs s) = {0 ..< m}"
    using ok by (auto simp: revs_ok_def contiguous_def)
  have mem: "rOrdinal newest \<in> ordinalsOf i (revs s)"
    using newest(1,2) by (auto simp: ordinalsOf_def)
  have "m - 1 \<in> ordinalsOf i (revs s)" using m mem by auto
  then have "m - 1 \<le> rOrdinal newest" using newest(3) by (auto simp: ordinalsOf_def)
  with m mem have "m = rOrdinal newest + 1" by auto
  with m mem ok r show "revs_ok (revs s')" unfolding s' by (intro revs_ok_append) auto
qed

lemma describePublished_None:
  "describePublished i s = None \<longleftrightarrow> (\<forall>r \<in> set (revs s). rDocumentId r = i \<longrightarrow> rStatus r \<noteq> RevPUBLISHED)"
  by (auto simp: describePublished_def find_None_iff_all)

lemma revs_ok_publishStep:
  assumes ok: "revs_ok rs"
    and free: "\<forall>r \<in> set rs. \<not> (rDocumentId r = i \<and> rStatus r = RevPUBLISHED)"
    and f: "\<And>r. rId (f r) = rId r \<and> rDocumentId (f r) = rDocumentId r \<and> rOrdinal (f r) = rOrdinal r"
      "\<And>r. rStatus (f r) = RevPUBLISHED \<and> rPublishedAt (f r) \<noteq> None"
    and P: "\<And>r. P r \<Longrightarrow> rId r = target \<and> rDocumentId r = i"
  shows "revs_ok (updateWhere P f rs)"
proof -
  have "distinct (map rId (updateWhere P f rs))" and "contiguous (updateWhere P f rs)"
    using ok f by (simp_all add: revs_ok_def map_updateWhere contiguous_update)
  moreover have "publishedState (updateWhere P f rs)"
    using ok f(2) by (auto simp: revs_ok_def publishedState_def ball_updateWhere)
  moreover have "onePublished (updateWhere P f rs)"
    unfolding onePublished_def
  proof (rule uniqueWhereI)
    fix x y
    assume x: "x \<in> set (updateWhere P f rs)" and y: "y \<in> set (updateWhere P f rs)"
      and pub: "rStatus x = RevPUBLISHED" "rStatus y = RevPUBLISHED"
      and eq: "rDocumentId x = rDocumentId y"
    obtain a where a: "a \<in> set rs" "x = (if P a then f a else a)" using x by (rule mem_updateWhereE)
    obtain b where b: "b \<in> set rs" "y = (if P b then f b else b)" using y by (rule mem_updateWhereE)
    show "rId x = rId y"
    proof (cases "P a \<or> P b")
      case True
      then have "rDocumentId x = i" "rDocumentId y = i" using a b P f(1) eq by (auto split: if_splits)
      then have "P a" "P b" using a b pub free by (auto split: if_splits)
      then show ?thesis using a b P f(1) by simp
    next
      case False
      then show ?thesis
        using a b pub eq ok uniqueWhereD [of "\<lambda>r. rStatus r = RevPUBLISHED" rDocumentId rId rs a b]
        by (simp add: revs_ok_def onePublished_def)
    qed
  qed
  ultimately show ?thesis by (simp add: revs_ok_def)
qed

lemma revs_ok_publishRevision [preserves_intros]:
  "preserves (\<lambda>s. revs_ok (revs s)) (publishRevision i r at ef et sn)"
proof (rule preservesI)
  fix s x s'
  assume ok: "revs_ok (revs s)" and run: "publishRevision i r at ef et sn s = Inr (x, s')"
  let ?prior = "case describePublished i s of None \<Rightarrow> returnT () | Some p \<Rightarrow> supersede (rId p)"
  have "preserves (\<lambda>s. revs_ok (revs s)) ?prior" by (intro preserves_intros)
  then have mid: "?prior s = Inr (u, m) \<Longrightarrow> revs_ok (revs m)" for u m
    using ok by (rule preservesD)
  obtain u m where m: "?prior s = Inr (u, m)"
    and free: "\<forall>q \<in> set (revs m). \<not> (rDocumentId q = i \<and> rStatus q = RevPUBLISHED)"
    and s': "revs s' = updateWhere (\<lambda>q. rId q = r \<and> rDocumentId q = i \<and> rStatus q \<in> {RevIN_APPROVAL, RevDRAFT})
       (\<lambda>q. q\<lparr>rStatus := RevPUBLISHED, rPublishedAt := Some at, rEffectiveFrom := Some ef,
             rEffectiveTo := et, rMetadataSnapshot := Some sn, rVersion := rVersion q + 1\<rparr>) (revs m)"
    using run unfolding publishRevision_def
    by (auto simp: tx_Inr_simps Let_def split: option.splits)
  show "revs_ok (revs s')"
    unfolding s' by (rule revs_ok_publishStep [OF mid [OF m] free]) auto
qed

subsubsection \<open>The single-table invariants of every use case\<close>

definition tables_ok :: "doc_state \<Rightarrow> bool" where
  "tables_ok s \<longleftrightarrow> docs_ok (docs s) \<and> revs_ok (revs s) \<and> locks_ok (locks s)"

lemma preserves_conj3:
  "\<lbrakk>preserves A m; preserves B m; preserves C m\<rbrakk> \<Longrightarrow> preserves (\<lambda>s. A s \<and> B s \<and> C s) m"
  by (auto simp: preserves_def hoare_def)

lemma tables_okI:
  "\<lbrakk>preserves (\<lambda>s. docs_ok (docs s)) m; preserves (\<lambda>s. revs_ok (revs s)) m;
    preserves (\<lambda>s. locks_ok (locks s)) m\<rbrakk> \<Longrightarrow> preserves tables_ok m"
  unfolding tables_ok_def [abs_def] by (rule preserves_conj3)

lemma tables_ok_leaves:
  "\<lbrakk>leaves docs m; leaves revs m; leaves locks m\<rbrakk> \<Longrightarrow> preserves tables_ok m"
  by (intro tables_okI) (auto intro: leaves_preserves)

lemma tables_ok_write [preserves_intros]:
  "preserves tables_ok m \<Longrightarrow> preserves tables_ok (writeT rq m)"
  by (rule preserves_write) (simp_all add: tables_ok_def)

lemma tables_ok_ops [preserves_intros]:
  "preserves tables_ok (nextId rq)" "preserves tables_ok (publishT es)"
  "preserves tables_ok (setStatus i v st)" "preserves tables_ok (setDeleted rq i v b w c)"
  "preserves tables_ok (attachLatestRevision i r)" "preserves tables_ok (setCurrentRevision i r)"
  "preserves tables_ok (createInitial rq i f n c' l)" "preserves tables_ok (createNext rq i f n c' l src)"
  "preserves tables_ok (discard i r)" "preserves tables_ok (cascadeDelete rq i c'')"
  "preserves tables_ok (restoreCascade i c'')" "preserves tables_ok (publishRevision i r at ef et sn)"
  "preserves tables_ok (acquire lk i u cr a e)" "preserves tables_ok (release lk rs w' nt a)"
  "preserves tables_ok (releaseExpired i a)" "preserves tables_ok (attachDraft lk dr)"
  "preserves tables_ok (reference f)" "preserves tables_ok (dereference f)"
  "preserves tables_ok (onTrigger d tr a)" "preserves tables_ok (onRestored i)"
  "preserves tables_ok (announce rq d inp)"
  "preserves tables_ok (cascadeDeleteUnderFolder rq fp pa ca)" "preserves tables_ok (restoreDocuments ca)"
  "preserves tables_ok (patchDocument i v pt)" "preserves tables_ok (moveTo i v tf)"
  "preserves tables_ok (replaceMetadata i md)" "preserves tables_ok invalidateTenant"
  by (rule tables_okI; (intro preserves_intros | rule leaves_preserves, intro leaves_intros); simp)+

lemma tables_ok_sync [preserves_intros]: "preserves tables_ok (syncRevision d to)"
  unfolding syncRevision_def
  by (rule tables_okI)
    (intro preserves_intros | rule leaves_preserves, intro leaves_intros)+

lemma tables_ok_transition [preserves_intros]: "preserves tables_ok (applyLifecycleTransition rq inp)"
  unfolding applyLifecycleTransition_def by (intro preserves_intros)

lemma tables_ok_insert [preserves_intros]:
  "numberedWhenPublished d \<Longrightarrow> preserves tables_ok (insertDocument d)"
  by (rule tables_okI) (auto intro: preserves_intros leaves_preserves leaves_intros)

lemma tables_ok_discardWorkingDraft [preserves_intros]: "preserves tables_ok (discardWorkingDraft d l)"
  unfolding discardWorkingDraft_def by (intro preserves_intros)

lemma tables_ok_takeOver [preserves_intros]: "preserves tables_ok (takeOver rq u i)"
  unfolding takeOver_def by (intro preserves_intros)

lemma tables_ok_cascaded [preserves_intros]:
  "preserves tables_ok (dereferenceCascaded xs)" "preserves tables_ok (referenceCascaded xs)"
  unfolding dereferenceCascaded_def referenceCascaded_def by (intro preserves_intros)+

lemma tables_ok_createDocument: "preserves tables_ok (createDocument p rq inp)"
  unfolding createDocument_def by (intro preserves_intros; simp add: numberedWhenPublished_def)

lemma tables_ok_edits:
  "preserves tables_ok (updateDocument p rq i pt md v)" "preserves tables_ok (moveDocument p rq i t v)"
  unfolding updateDocument_def moveDocument_def by (intro preserves_intros)+

lemma tables_ok_removeDocument: "preserves tables_ok (removeDocument p rq i v w)"
  unfolding removeDocument_def by (intro preserves_intros)

lemma tables_ok_restoreDocument: "preserves tables_ok (restoreDocument p rq i v)"
  unfolding restoreDocument_def by (intro preserves_intros)

lemma tables_ok_folder_cascade:
  "preserves tables_ok (deleteUnder p rq fp pa c)" "preserves tables_ok (restoreUnder c)"
  unfolding deleteUnder_def restoreUnder_def by (intro preserves_intros)+

lemma tables_ok_archiveDocument: "preserves tables_ok (archiveDocument rq i v w)"
  unfolding archiveDocument_def by (intro preserves_intros)

lemma tables_ok_reinstateDocument: "preserves tables_ok (reinstateDocument p rq i v w)"
  unfolding reinstateDocument_def by (intro preserves_intros)

lemma tables_ok_expireOne: "preserves tables_ok (expireOne p rq tz c)"
  unfolding expireOne_def by (intro preserves_intros)

lemma tables_ok_checkOut: "preserves tables_ok (checkOut p rq i)"
  unfolding checkOut_def by (intro preserves_intros)

lemma tables_ok_checkIn: "preserves tables_ok (checkIn p rq ci)"
  unfolding checkIn_def by (intro preserves_intros)

lemma tables_ok_endCheckOut [preserves_intros]: "preserves tables_ok (endCheckOut rq i h w n pd a)"
  unfolding endCheckOut_def by (intro preserves_intros)

lemma tables_ok_cancelCheckOut: "preserves tables_ok (cancelCheckOut rq i)"
  unfolding cancelCheckOut_def by (intro preserves_intros)

lemma tables_ok_forceCheckIn: "preserves tables_ok (forceCheckIn rq i n d)"
  unfolding forceCheckIn_def by (intro preserves_intros)

lemma tables_ok_publish: "preserves tables_ok (publish p rq i ef et)"
  unfolding publish_def by (intro preserves_intros)

lemma tables_ok_restoreRevision: "preserves tables_ok (restoreRevision p rq i r n)"
  unfolding restoreRevision_def by (intro preserves_intros)

end
