(* ===== verification/Document_References.thy ===== *)
theory Document_References
  imports Document_Invariants
begin

text \<open>
  Conservation of references. A stored file's reference count decides when the reaper may delete its
  bytes, so it has to equal the number of revisions that hold the file: the revisions that are neither
  deleted nor discarded. Between the step that adds or discards a revision and the step that moves the
  count the two differ; the invariant carries that difference as an offset per file.
\<close>

definition holdsRef :: "revision_row \<Rightarrow> bool" where
  "holdsRef r \<longleftrightarrow> rDeletedAt r = None \<and> rStatus r \<noteq> RevDISCARDED"

definition refsTo :: "ident \<Rightarrow> revision_row list \<Rightarrow> nat" where
  "refsTo f rs = countWhere (\<lambda>r. rFileObjectId r = f \<and> holdsRef r) rs"

definition counted_off :: "(ident \<Rightarrow> int) \<Rightarrow> doc_state \<Rightarrow> bool" where
  "counted_off off s \<longleftrightarrow>
     distinct (map fId (files s)) \<and> distinct (map rId (revs s)) \<and>
     (\<forall>f \<in> set (files s). fDeletedAt f = None \<longrightarrow>
        fRefCount f = int (refsTo (fId f) (revs s)) + off (fId f))"

definition counted :: "doc_state \<Rightarrow> bool" where
  "counted s \<longleftrightarrow> counted_off (\<lambda>_. 0) s"

lemma refsTo_simps [simp]:
  "refsTo f [] = 0"
  "refsTo f (r # rs) = (if rFileObjectId r = f \<and> holdsRef r then Suc (refsTo f rs) else refsTo f rs)"
  "refsTo f (rs @ qs) = refsTo f rs + refsTo f qs"
  by (simp_all add: refsTo_def countWhere_def)

lemma refsTo_update:
  assumes "\<And>r. r \<in> set rs \<Longrightarrow> P r \<Longrightarrow> rFileObjectId (g r) = rFileObjectId r \<and> (holdsRef (g r) \<longleftrightarrow> holdsRef r)"
  shows "refsTo f (updateWhere P g rs) = refsTo f rs"
  using assms by (induction rs) auto

lemma counted_off_revs:
  assumes "counted_off off s" and "files s' = files s" and "distinct (map rId (revs s'))"
    and "\<And>f. int (refsTo f (revs s')) = int (refsTo f (revs s)) + d f"
  shows "counted_off (\<lambda>f. off f - d f) s'"
  using assms by (auto simp: counted_off_def)

lemma counted_off_same_refs:
  assumes "counted_off off s" and "files s' = files s" and "distinct (map rId (revs s'))"
    and "\<And>f. refsTo f (revs s') = refsTo f (revs s)"
  shows "counted_off off s'"
  using assms by (auto simp: counted_off_def)

lemma counted_off_leaves: "\<lbrakk>leaves revs m; leaves files m\<rbrakk> \<Longrightarrow> preserves (counted_off off) m"
  by (rule preservesI, drule (1) leavesD, drule (1) leavesD) (simp add: counted_off_def)

lemma counted_off_write [preserves_intros]:
  "preserves (counted_off off) m \<Longrightarrow> preserves (counted_off off) (writeT rq m)"
  by (rule preserves_write) (simp_all add: counted_off_def)

lemma counted_off_frames [preserves_intros]:
  "preserves (counted_off off) (nextId rq)" "preserves (counted_off off) (publishT es)"
  "preserves (counted_off off) (insertDocument dd)"
  "preserves (counted_off off) (setStatus i v st)" "preserves (counted_off off) (setDeleted rq i v b w c)"
  "preserves (counted_off off) (cascadeDeleteUnderFolder rq fp pa ca)"
  "preserves (counted_off off) (restoreDocuments ca)"
  "preserves (counted_off off) (patchDocument i v pt)" "preserves (counted_off off) (moveTo i v tf)"
  "preserves (counted_off off) (replaceMetadata i md)" "preserves (counted_off off) invalidateTenant"
  "preserves (counted_off off) (attachLatestRevision i r)"
  "preserves (counted_off off) (setCurrentRevision i r)"
  "preserves (counted_off off) (acquire lk i u cr a e)" "preserves (counted_off off) (release lk rs w' nt a)"
  "preserves (counted_off off) (releaseExpired i a)" "preserves (counted_off off) (attachDraft lk dr)"
  "preserves (counted_off off) (onTrigger d tr a)" "preserves (counted_off off) (onRestored i)"
  "preserves (counted_off off) (announce rq d inp)"
  by (rule counted_off_leaves; intro leaves_intros)+

lemma counted_off_status:
  assumes "counted_off off s" and "files s' = files s" and "revs s' = updateWhere P g (revs s)"
    and "\<And>r. P r \<Longrightarrow> rId (g r) = rId r \<and> rFileObjectId (g r) = rFileObjectId r \<and> (holdsRef (g r) \<longleftrightarrow> holdsRef r)"
  shows "counted_off off s'"
proof (rule counted_off_same_refs [OF assms(1,2)])
  show "distinct (map rId (revs s'))"
    using assms(1,4) by (simp add: assms(3) map_updateWhere counted_off_def)
  show "refsTo f (revs s') = refsTo f (revs s)" for f
    using assms(4) by (simp add: assms(3) refsTo_update)
qed

lemma counted_off_modify:
  assumes "\<And>r. P r \<Longrightarrow> rId (g r) = rId r \<and> rFileObjectId (g r) = rFileObjectId r \<and> (holdsRef (g r) \<longleftrightarrow> holdsRef r)"
  shows "preserves (counted_off off) (modifyT (\<lambda>s. s\<lparr>revs := updateWhere P g (revs s)\<rparr>))"
  by (rule preservesI) (auto intro: counted_off_status [OF _ _ _ assms])

lemma counted_off_working [preserves_intros]:
  "preserves (counted_off off) (setWorkingStatus r [RevDRAFT] RevIN_APPROVAL)"
  "preserves (counted_off off) (setWorkingStatus r [RevIN_APPROVAL] RevDRAFT)"
  "preserves (counted_off off) (supersede r)"
  unfolding setWorkingStatus_def supersede_def
  by (rule counted_off_modify; auto simp: holdsRef_def)+

lemma counted_off_publishRevision [preserves_intros]:
  "preserves (counted_off off) (publishRevision i r at ef et sn)"
proof (rule preservesI)
  fix s x s'
  assume ok: "counted_off off s" and run: "publishRevision i r at ef et sn s = Inr (x, s')"
  let ?prior = "case describePublished i s of None \<Rightarrow> returnT () | Some p \<Rightarrow> supersede (rId p)"
  have "preserves (counted_off off) ?prior" by (intro preserves_intros)
  then have mid: "?prior s = Inr (u, m) \<Longrightarrow> counted_off off m" for u m
    using ok by (rule preservesD)
  obtain u m where m: "?prior s = Inr (u, m)" and f: "files s' = files m"
    and s': "revs s' = updateWhere (\<lambda>q. rId q = r \<and> rDocumentId q = i \<and> rStatus q \<in> {RevIN_APPROVAL, RevDRAFT})
       (\<lambda>q. q\<lparr>rStatus := RevPUBLISHED, rPublishedAt := Some at, rEffectiveFrom := Some ef,
             rEffectiveTo := et, rMetadataSnapshot := Some sn, rVersion := rVersion q + 1\<rparr>) (revs m)"
    using run unfolding publishRevision_def
    by (auto simp: tx_Inr_simps Let_def split: option.splits)
  show "counted_off off s'"
    by (rule counted_off_status [OF mid [OF m] f s']) (auto simp: holdsRef_def)
qed

lemma counted_off_transition [preserves_intros]:
  "preserves (counted_off off) (applyLifecycleTransition rq inp)"
  unfolding applyLifecycleTransition_def syncRevision_def by (intro preserves_intros)

lemma counted_off_takeOver [preserves_intros]: "preserves (counted_off off) (takeOver rq u i)"
  unfolding takeOver_def by (intro preserves_intros)

subsection \<open>Steps that move a count\<close>

lemma hoare_adjust:
  "hoare (counted_off off) (adjustRefCount i k) (\<lambda>_. counted_off (off(i := off i + k)))"
  by (rule hoareI)
    (auto simp: adjustRefCount_def tx_Inr_simps Let_def counted_off_def map_updateWhere ball_updateWhere)

lemma hoare_reference:
  "hoare (counted_off off) (reference i) (\<lambda>_. counted_off (off(i := off i + 1)))"
  unfolding reference_def by (rule hoare_adjust)

lemma hoare_dereference:
  "hoare (counted_off off) (dereference i) (\<lambda>_. counted_off (off(i := off i - 1)))"
  unfolding dereference_def using hoare_adjust [of off i "-1"] by simp

lemma counted_off_append:
  assumes "counted_off off s" and "files s' = files s" and "revs s' = revs s @ [r]"
    and "rId r \<notin> rId ` set (revs s)" and "holdsRef r"
  shows "counted_off (off(rFileObjectId r := off (rFileObjectId r) - 1)) s'"
  using assms by (auto simp: counted_off_def)

lemma hoare_createInitial:
  "hoare (counted_off off) (createInitial rq i f n c l) (\<lambda>_. counted_off (off(f := off f - 1)))"
proof (rule hoareI)
  fix s x s'
  assume ok: "counted_off off s" and run: "createInitial rq i f n c l s = Inr (x, s')"
  obtain r where "revs s' = revs s @ [r]" "rId r \<notin> rId ` set (revs s)" "rFileObjectId r = f" "holdsRef r"
    using run by (auto simp: createInitial_def tx_Inr_simps holdsRef_def)
  moreover have "files s' = files s"
    using run leavesD [OF leaves_create(3)] by blast
  ultimately show "counted_off (off(f := off f - 1)) s'"
    using counted_off_append [OF ok] by blast
qed

lemma hoare_createNext:
  "hoare (counted_off off) (createNext rq i f n c l src) (\<lambda>_. counted_off (off(f := off f - 1)))"
proof (rule hoareI)
  fix s x s'
  assume ok: "counted_off off s" and run: "createNext rq i f n c l src s = Inr (x, s')"
  obtain r where "revs s' = revs s @ [r]" "rId r \<notin> rId ` set (revs s)" "rFileObjectId r = f" "holdsRef r"
    using run by (cases x) (auto elim!: createNext_row simp: holdsRef_def)
  moreover have "files s' = files s"
    using run leavesD [OF leaves_create(6)] by blast
  ultimately show "counted_off (off(f := off f - 1)) s'"
    using counted_off_append [OF ok] by blast
qed

lemma refsTo_discard_one:
  assumes "distinct (map rId rs)" and "q \<in> set rs" and "holdsRef q" and "P q"
    and "\<And>r. P r \<Longrightarrow> rId r = rId q" and "\<And>r. rFileObjectId (g r) = rFileObjectId r \<and> \<not> holdsRef (g r)"
  shows "int (refsTo f (updateWhere P g rs)) = int (refsTo f rs) + (if f = rFileObjectId q then -1 else 0)"
proof -
  obtain us vs where rs: "rs = us @ q # vs" using assms(2) by (meson split_list)
  have "\<forall>r \<in> set us \<union> set vs. rId r \<noteq> rId q"
    using assms(1) by (metis (no_types, lifting) UnE distinct_append distinct.simps(2) image_eqI
        list.set_map list.simps(9) map_append not_distinct_conv_prefix rs disjoint_iff list.set_intros(1))
  then have "\<forall>r \<in> set us \<union> set vs. \<not> P r" using assms(5) by blast
  then have "updateWhere P g us = us" "updateWhere P g vs = vs" by (auto intro: updateWhere_none)
  then have "updateWhere P g rs = us @ g q # vs"
    using assms(4) by (simp add: rs updateWhere_def)
  with assms(3,6) show ?thesis by (auto simp: rs)
qed

lemma hoare_discard:
  "hoare (\<lambda>s. counted_off off s \<and> Some r = describeRevision i rid s)
     (if rStatus r \<noteq> RevDRAFT then throwT e else discard i (rId r))
     (\<lambda>mine s. mine \<and> counted_off (off(rFileObjectId r := off (rFileObjectId r) + 1)) s)"
proof (rule hoareI)
  fix s mine s'
  assume pre: "counted_off off s \<and> Some r = describeRevision i rid s"
    and run: "(if rStatus r \<noteq> RevDRAFT then throwT e else discard i (rId r)) s = Inr (mine, s')"
  then have draft: "rStatus r = RevDRAFT" and run': "discard i (rId r) s = Inr (mine, s')"
    by (auto split: if_splits)
  let ?hit = "\<lambda>q. rId q = rId r \<and> rDocumentId q = i \<and> rStatus q = RevDRAFT"
  let ?set = "\<lambda>q. q\<lparr>rStatus := RevDISCARDED, rVersion := rVersion q + 1\<rparr>"
  have r: "r \<in> set (revs s)" "rDocumentId r = i" "holdsRef r"
    using describeRevision_Some [OF pre [THEN conjunct2, symmetric]] draft by (auto simp: holdsRef_def)
  have m: "files s' = files s" "revs s' = updateWhere ?hit ?set (revs s)"
    and mine: "mine \<longleftrightarrow> countWhere ?hit (revs s) > 0"
    using run' by (auto simp: discard_def tx_Inr_simps Let_def)
  have "mine" using r draft by (auto simp: mine countWhere_def filter_empty_conv)
  moreover have "counted_off (\<lambda>f. off f - (if f = rFileObjectId r then -1 else 0)) s'"
  proof (rule counted_off_revs)
    show "counted_off off s" using pre by simp
    show "files s' = files s" by (rule m(1))
    show "distinct (map rId (revs s'))"
      using pre by (simp add: m map_updateWhere counted_off_def)
    show "int (refsTo f (revs s')) = int (refsTo f (revs s)) + (if f = rFileObjectId r then -1 else 0)" for f
      unfolding m
      by (rule refsTo_discard_one) (use pre r draft in \<open>auto simp: counted_off_def holdsRef_def\<close>)
  qed
  moreover have "(\<lambda>f. off f - (if f = rFileObjectId r then -1 else 0))
      = off(rFileObjectId r := off (rFileObjectId r) + 1)"
    by auto
  ultimately show "mine \<and> counted_off (off(rFileObjectId r := off (rFileObjectId r) + 1)) s'" by simp
qed

lemma discardWorkingDraft_counted [preserves_intros]:
  "preserves (counted_off off) (discardWorkingDraft d l)"
proof -
  let ?off = "\<lambda>r. off(rFileObjectId r := off (rFileObjectId r) + 1)"
  have tail: "hoare (\<lambda>s. mine \<and> counted_off (?off r) s)
      (if \<not> mine then returnT None
       else thenT (dereference (rFileObjectId r))
         (thenT (case dCurrentRevisionId d of None \<Rightarrow> returnT () | Some c \<Rightarrow> attachLatestRevision (dId d) c)
         (thenT (attachDraft (lId l) None) (returnT (Some (rId r))))))
      (\<lambda>_. counted_off off)" for mine r
  proof (cases mine)
    case True
    have "hoare (counted_off (?off r)) (dereference (rFileObjectId r)) (\<lambda>_. counted_off off)"
      using hoare_dereference [of "?off r" "rFileObjectId r"] by simp
    then show ?thesis
      using True by (simp, intro hoare_then [OF _ hoare_preserves]) (auto intro!: preserves_intros)
  qed (simp add: hoare_def)
  have some: "hoare (\<lambda>s. counted_off off s \<and> Some r = describeRevision (dId d) rid s)
      (if rStatus r \<noteq> RevDRAFT then returnT None
       else bindT (discard (dId d) (rId r)) (\<lambda>mine.
         if \<not> mine then returnT None
         else thenT (dereference (rFileObjectId r))
           (thenT (case dCurrentRevisionId d of None \<Rightarrow> returnT () | Some c \<Rightarrow> attachLatestRevision (dId d) c)
           (thenT (attachDraft (lId l) None) (returnT (Some (rId r)))))))
      (\<lambda>_. counted_off off)" for r rid
  proof (cases "rStatus r = RevDRAFT")
    case True
    then show ?thesis
      using hoare_bind [OF hoare_discard [of off r "dId d" rid] tail] by simp
  qed (simp add: hoare_def)
  show ?thesis
    unfolding discardWorkingDraft_def
    apply (intro preserves_option preserves_basic, unfold preserves_def, rule hoare_bind, rule hoare_gets)
    subgoal for draftId draft
      by (cases draft) (simp_all only: option.case some, auto intro!: hoare_return)
    done
qed

subsection \<open>Cascades\<close>

definition cascadedTo :: "(ident \<times> bool) list \<Rightarrow> ident \<Rightarrow> int" where
  "cascadedTo xs f = int (countWhere (\<lambda>x. x = (f, True)) xs)"

lemma cascadedTo_simps [simp]:
  "cascadedTo [] f = 0"
  "cascadedTo (x # xs) f = (if x = (f, True) then 1 else 0) + cascadedTo xs f"
  by (simp_all add: cascadedTo_def countWhere_def)

lemma hoare_dereferenceCascaded:
  "hoare (counted_off off) (dereferenceCascaded xs) (\<lambda>_. counted_off (\<lambda>f. off f - cascadedTo xs f))"
  unfolding dereferenceCascaded_def
proof (induction xs arbitrary: off)
  case Nil
  then show ?case by (auto intro!: hoare_return)
next
  case (Cons x xs)
  obtain f b where x: "x = (f, b)" by (cases x)
  have step: "hoare (counted_off off) (whenT b (dereference f))
      (\<lambda>_. counted_off (\<lambda>g. off g - (if x = (g, True) then 1 else 0)))"
  proof (cases b)
    case True
    have "(\<lambda>g. off g - (if f = g then 1 else 0)) = off(f := off f - 1)" by auto
    then show ?thesis using True hoare_dereference [of off f] by (simp add: x whenT_def)
  qed (auto simp: x whenT_def intro!: hoare_return)
  show ?case
    using hoare_then [OF step Cons.IH] by (simp add: x algebra_simps)
qed

lemma hoare_referenceCascaded:
  "hoare (counted_off off) (referenceCascaded xs) (\<lambda>_. counted_off (\<lambda>f. off f + cascadedTo xs f))"
  unfolding referenceCascaded_def
proof (induction xs arbitrary: off)
  case Nil
  then show ?case by (auto intro!: hoare_return)
next
  case (Cons x xs)
  obtain f b where x: "x = (f, b)" by (cases x)
  have step: "hoare (counted_off off) (whenT b (reference f))
      (\<lambda>_. counted_off (\<lambda>g. off g + (if x = (g, True) then 1 else 0)))"
  proof (cases b)
    case True
    have "(\<lambda>g. off g + (if f = g then 1 else 0)) = off(f := off f + 1)" by auto
    then show ?thesis using True hoare_reference [of off f] by (simp add: x whenT_def)
  qed (auto simp: x whenT_def intro!: hoare_return)
  show ?case
    using hoare_then [OF step Cons.IH] by (simp add: x algebra_simps)
qed

lemma mem_ids_filter:
  "distinct (map rId rs) \<Longrightarrow> r \<in> set rs \<Longrightarrow> rId r \<in> rId ` set (filter P rs) \<longleftrightarrow> P r"
  by (auto dest: distinct_map_eq)

lemma updateWhere_by_ids:
  assumes "distinct (map rId rs)"
  shows "updateWhere (\<lambda>r. rId r \<in> rId ` set (filter P rs)) g rs = updateWhere P g rs"
  using mem_ids_filter [OF assms, of _ P] unfolding updateWhere_def by (intro map_cong) auto

lemma refsTo_cascade:
  assumes "\<And>r. rFileObjectId (g r) = rFileObjectId r"
    and "\<And>r. P r \<Longrightarrow> rDeletedAt r = None" and "\<And>r. P r \<Longrightarrow> \<not> holdsRef (g r)"
  shows "int (refsTo f (updateWhere P g rs)) = int (refsTo f rs) - cascadedTo (map toCascaded (filter P rs)) f"
  using assms by (induction rs) (auto simp: toCascaded_def holdsRef_def)

lemma refsTo_uncascade:
  assumes "\<And>r. rFileObjectId (g r) = rFileObjectId r"
    and "\<And>r. P r \<Longrightarrow> rDeletedAt r \<noteq> None" and "\<And>r. P r \<Longrightarrow> holdsRef (g r) \<longleftrightarrow> rStatus r \<noteq> RevDISCARDED"
  shows "int (refsTo f (updateWhere P g rs)) = int (refsTo f rs) + cascadedTo (map toCascaded (filter P rs)) f"
  using assms by (induction rs) (auto simp: toCascaded_def holdsRef_def)

lemma hoare_cascadeDelete:
  "hoare (counted_off off) (cascadeDelete rq i c) (\<lambda>xs. counted_off (\<lambda>f. off f + cascadedTo xs f))"
proof (rule hoareI)
  fix s xs s'
  assume ok: "counted_off off s" and run: "cascadeDelete rq i c s = Inr (xs, s')"
  let ?P = "\<lambda>r. rDocumentId r = i \<and> rDeletedAt r = None"
  let ?g = "\<lambda>r. r\<lparr>rDeletedAt := Some (now rq), rDeleteCascadeId := Some c\<rparr>"
  have ids: "distinct (map rId (revs s))" using ok by (simp add: counted_off_def)
  have xs: "xs = map toCascaded (filter ?P (revs s))" and f: "files s' = files s"
    and "revs s' = updateWhere (\<lambda>r. rId r \<in> rId ` set (filter ?P (revs s))) ?g (revs s)"
    using run by (auto simp: cascadeDelete_def tx_Inr_simps)
  then have s': "revs s' = updateWhere ?P ?g (revs s)"
    by (simp only: updateWhere_by_ids [OF ids])
  have "counted_off (\<lambda>g. off g - (- cascadedTo xs g)) s'"
    by (rule counted_off_revs [OF ok f])
      (use ids refsTo_cascade [where P = ?P and g = ?g] in
        \<open>auto simp: s' xs map_updateWhere holdsRef_def\<close>)
  then show "counted_off (\<lambda>g. off g + cascadedTo xs g) s'" by simp
qed

lemma hoare_restoreCascade:
  "hoare (counted_off off) (restoreCascade i c) (\<lambda>xs. counted_off (\<lambda>f. off f - cascadedTo xs f))"
proof (rule hoareI)
  fix s xs s'
  assume ok: "counted_off off s" and run: "restoreCascade i c s = Inr (xs, s')"
  let ?P = "\<lambda>r. rDocumentId r = i \<and> rDeleteCascadeId r = Some c \<and> rDeletedAt r \<noteq> None"
  let ?g = "\<lambda>r. r\<lparr>rDeletedAt := None, rDeleteCascadeId := None\<rparr>"
  have ids: "distinct (map rId (revs s))" using ok by (simp add: counted_off_def)
  have xs: "xs = map toCascaded (filter ?P (revs s))" and f: "files s' = files s"
    and "revs s' = updateWhere (\<lambda>r. rId r \<in> rId ` set (filter ?P (revs s))) ?g (revs s)"
    using run by (auto simp: restoreCascade_def tx_Inr_simps)
  then have s': "revs s' = updateWhere ?P ?g (revs s)"
    by (simp only: updateWhere_by_ids [OF ids])
  show "counted_off (\<lambda>g. off g - cascadedTo xs g) s'"
    by (rule counted_off_revs [OF ok f])
      (use ids refsTo_uncascade [where P = ?P and g = ?g] in
        \<open>auto simp: s' xs map_updateWhere holdsRef_def\<close>)
qed

subsection \<open>Every use case conserves references\<close>

lemma hoare_frame_bind:
  "\<lbrakk>preserves I m; \<And>x. hoare I (f x) Q\<rbrakk> \<Longrightarrow> hoare I (bindT m f) Q"
  unfolding preserves_def by (rule hoare_bind)

lemma hoare_frame_then: "\<lbrakk>preserves I m; hoare I n Q\<rbrakk> \<Longrightarrow> hoare I (thenT m n) Q"
  unfolding preserves_def by (rule hoare_then)

lemma preserves_then_back:
  "\<lbrakk>hoare I m (\<lambda>_. J); hoare J n (\<lambda>_. I)\<rbrakk> \<Longrightarrow> preserves I (thenT m n)"
  unfolding preserves_def by (rule hoare_then)

lemma preserves_bind_back:
  "\<lbrakk>hoare I m J; \<And>x. hoare (J x) (f x) (\<lambda>_. I)\<rbrakk> \<Longrightarrow> preserves I (bindT m f)"
  unfolding preserves_def by (rule hoare_bind)

lemma hoare_then_preserves:
  "\<lbrakk>hoare J m (\<lambda>_. I); preserves I n\<rbrakk> \<Longrightarrow> hoare J (thenT m n) (\<lambda>_. I)"
  unfolding preserves_def by (rule hoare_then)

lemma hoare_create_reference:
  "hoare (counted_off (off(f := off f - 1))) (reference f) (\<lambda>_. counted_off off)"
  using hoare_reference [of "off(f := off f - 1)" f] by simp

lemma counted_createInitial_reference [preserves_intros]:
  "(\<And>x y. preserves (counted_off off) (k x y)) \<Longrightarrow>
   preserves (counted_off off) (bindT (createInitial rq i f n c l) (\<lambda>(x, y). thenT (reference f) (k x y)))"
  by (rule preserves_bind_back [OF hoare_createInitial])
    (auto intro!: hoare_then_preserves [OF hoare_create_reference])

lemma counted_createNext_reference [preserves_intros]:
  "f' = f \<Longrightarrow> (\<And>x y z. preserves (counted_off off) (k x y z)) \<Longrightarrow>
   preserves (counted_off off)
     (bindT (createNext rq i f n c l src) (\<lambda>(x, y, z). thenT (reference f') (k x y z)))"
  by (rule preserves_bind_back [OF hoare_createNext])
    (auto intro!: hoare_then_preserves [OF hoare_create_reference])

lemma counted_delete_cascade [preserves_intros]:
  assumes "\<And>xs. preserves (counted_off off) (k xs)"
  shows "preserves (counted_off off) (bindT (cascadeDelete rq i c) (\<lambda>xs. thenT (dereferenceCascaded xs) (k xs)))"
proof (rule preserves_bind_back [OF hoare_cascadeDelete])
  fix xs
  show "hoare (counted_off (\<lambda>f. off f + cascadedTo xs f)) (thenT (dereferenceCascaded xs) (k xs))
      (\<lambda>_. counted_off off)"
    using hoare_then_preserves [OF _ assms, of "counted_off (\<lambda>f. off f + cascadedTo xs f)"]
      hoare_dereferenceCascaded [of "\<lambda>f. off f + cascadedTo xs f" xs] by simp
qed

lemma counted_restore_cascade [preserves_intros]:
  "preserves (counted_off off) (bindT (restoreCascade i c) referenceCascaded)"
  using hoare_referenceCascaded [of "\<lambda>f. off f - cascadedTo xs f" xs for xs]
  by (intro preserves_bind_back [OF hoare_restoreCascade]) simp

lemma counted_createDocument: "preserves (counted_off off) (createDocument p rq inp)"
  unfolding createDocument_def by (intro preserves_intros)

lemma counted_removeDocument: "preserves (counted_off off) (removeDocument p rq i v w)"
  unfolding removeDocument_def by (intro preserves_intros)

lemma counted_edits:
  "preserves (counted_off off) (updateDocument p rq i pt md v)"
  "preserves (counted_off off) (moveDocument p rq i t v)"
  unfolding updateDocument_def moveDocument_def by (intro preserves_intros)+

lemma counted_folder_cascade:
  "preserves (counted_off off) (deleteUnder p rq fp pa c)" "preserves (counted_off off) (restoreUnder c)"
  unfolding deleteUnder_def restoreUnder_def by (intro preserves_intros)+

lemma counted_archiveDocument: "preserves (counted_off off) (archiveDocument rq i v w)"
  unfolding archiveDocument_def by (intro preserves_intros)

lemma counted_reinstateDocument: "preserves (counted_off off) (reinstateDocument p rq i v w)"
  unfolding reinstateDocument_def by (intro preserves_intros)

lemma counted_expireOne: "preserves (counted_off off) (expireOne p rq tz c)"
  unfolding expireOne_def by (intro preserves_intros)

lemma counted_checkOut: "preserves (counted_off off) (checkOut p rq i)"
  unfolding checkOut_def by (intro preserves_intros)

lemma counted_checkIn: "preserves (counted_off off) (checkIn p rq ci)"
  unfolding checkIn_def by (intro preserves_intros refl)

lemma counted_endCheckOut [preserves_intros]: "preserves (counted_off off) (endCheckOut rq i h w n pd a)"
  unfolding endCheckOut_def by (intro preserves_intros)

lemma counted_cancelCheckOut: "preserves (counted_off off) (cancelCheckOut rq i)"
  unfolding cancelCheckOut_def by (intro preserves_intros)

lemma counted_forceCheckIn: "preserves (counted_off off) (forceCheckIn rq i n d)"
  unfolding forceCheckIn_def by (intro preserves_intros)

lemma counted_publish: "preserves (counted_off off) (publish p rq i ef et)"
  unfolding publish_def by (intro preserves_intros)

lemma preserves_attachable:
  "(\<And>x. fId x = f \<Longrightarrow> preserves I (k x)) \<Longrightarrow> preserves I (bindT (requireAttachable f) k)"
  by (rule preservesI)
    (auto simp: bindT_Inr requireAttachable_Inr describeFile_def dest!: find_Some_mem dest: preservesD)

lemma counted_restoreRevision: "preserves (counted_off off) (restoreRevision p rq i r n)"
  unfolding restoreRevision_def by (intro preserves_attachable preserves_intros)

text \<open>
  A deleted document carries the identifier of the cascade that deleted it; the restore relies on it to
  give back exactly the references that delete took.
\<close>

definition bin_ok :: "doc_state \<Rightarrow> bool" where
  "bin_ok s \<longleftrightarrow> (\<forall>d \<in> set (docs s). dDeletedAt d \<noteq> None \<longrightarrow> dDeleteCascadeId d \<noteq> None)"

lemma bin_ok_leaves: "leaves docs m \<Longrightarrow> preserves bin_ok m"
  by (rule preservesI, drule (1) leavesD) (simp add: bin_ok_def)

lemma bin_ok_write [preserves_intros]:
  "preserves bin_ok m \<Longrightarrow> preserves bin_ok (writeT rq m)"
  by (rule preserves_write) (simp_all add: bin_ok_def)

lemma bin_ok_doc_ops [preserves_intros]:
  "preserves bin_ok (setStatus i v st)"
  "preserves bin_ok (setDeleted rq i v True w (Some c))"
  "preserves bin_ok (setDeleted rq i v False w c')"
  "preserves bin_ok (attachLatestRevision i r)"
  "preserves bin_ok (setCurrentRevision i r)"
  "preserves bin_ok (cascadeDeleteUnderFolder rq fp pa c)" "preserves bin_ok (restoreDocuments c)"
  "preserves bin_ok (patchDocument i v pt)" "preserves bin_ok (moveTo i v tf)"
  "preserves bin_ok (replaceMetadata i md)"
  by (rule preservesI, auto simp: cascadeDeleteUnderFolder_def restoreDocuments_def patchDocument_def patchRow_def moveTo_def replaceMetadata_def setStatus_def setDeleted_def versioned_def attachLatestRevision_def
      setCurrentRevision_def tx_Inr_simps Let_def bin_ok_def ball_updateWhere)+

lemma bin_ok_insert [preserves_intros]:
  "dDeletedAt d = None \<Longrightarrow> preserves bin_ok (insertDocument d)"
  by (rule preservesI) (auto simp: insertDocument_def tx_Inr_simps bin_ok_def)

lemma bin_ok_frames [preserves_intros]:
  "preserves bin_ok invalidateTenant" "preserves bin_ok (nextId rq)" "preserves bin_ok (publishT es)"
  "preserves bin_ok (createInitial rq i f n c' l)"
  "preserves bin_ok (createNext rq i f n c' l src)"
  "preserves bin_ok (discard i r)" "preserves bin_ok (cascadeDelete rq i c'')"
  "preserves bin_ok (restoreCascade i c'')"
  "preserves bin_ok (publishRevision i r at ef et sn)"
  "preserves bin_ok (acquire lk i u cr a e)"
  "preserves bin_ok (release lk rs w' nt a)"
  "preserves bin_ok (releaseExpired i a)" "preserves bin_ok (attachDraft lk dr)"
  "preserves bin_ok (reference f)" "preserves bin_ok (dereference f)"
  "preserves bin_ok (onTrigger d tr a)" "preserves bin_ok (onRestored i)"
  "preserves bin_ok (announce rq d inp)" "preserves bin_ok (syncRevision d to)"
  "preserves bin_ok (dereferenceCascaded xs)" "preserves bin_ok (referenceCascaded xs)"
  unfolding dereferenceCascaded_def referenceCascaded_def
  by (rule bin_ok_leaves, intro leaves_intros)+

lemma bin_ok_transition [preserves_intros]:
  "preserves bin_ok (applyLifecycleTransition rq inp)"
  unfolding applyLifecycleTransition_def by (intro preserves_intros)

lemma bin_ok_revision_control [preserves_intros]:
  "preserves bin_ok (checkOut p rq i)" "preserves bin_ok (checkIn p rq ci)"
  "preserves bin_ok (endCheckOut rq i h w n pd a)"
  "preserves bin_ok (publish p rq i ef et)"
  "preserves bin_ok (restoreRevision p rq i r n')"
  unfolding checkOut_def takeOver_def checkIn_def endCheckOut_def discardWorkingDraft_def publish_def
    restoreRevision_def
  by (intro preserves_intros)+

lemma bin_ok_service:
  "preserves bin_ok (createDocument p rq inp)"
  "preserves bin_ok (updateDocument p rq i pt md v)"
  "preserves bin_ok (moveDocument p rq i tf v)"
  "preserves bin_ok (removeDocument p rq i v w)"
  "preserves bin_ok (restoreDocument p rq i v)"
  "preserves bin_ok (archiveDocument rq i v w)"
  "preserves bin_ok (reinstateDocument p rq i v w)"
  "preserves bin_ok (expireOne p rq tz c)"
  "preserves bin_ok (cancelCheckOut rq i)"
  "preserves bin_ok (forceCheckIn rq i n d)"
  unfolding createDocument_def updateDocument_def moveDocument_def removeDocument_def restoreDocument_def archiveDocument_def
    reinstateDocument_def expireOne_def cancelCheckOut_def forceCheckIn_def
  by (intro preserves_intros; simp)+

lemma bin_ok_folder_cascade:
  "preserves bin_ok (deleteUnder p rq fp pa c)" "preserves bin_ok (restoreUnder c)"
  unfolding deleteUnder_def restoreUnder_def by (intro preserves_intros)+

lemma find_any_by_id: "findById i True s = Some d \<Longrightarrow> List.find (\<lambda>d. dId d = i) (docs s) = Some d"
  by (simp add: findById_def)

lemma counted_restoreDocument:
  "hoare (\<lambda>s. bin_ok s \<and> counted_off off s) (restoreDocument p rq i v) (\<lambda>_. counted_off off)"
proof (rule hoareI)
  fix s x s'
  assume pre: "bin_ok s \<and> counted_off off s" and run: "restoreDocument p rq i v s = Inr (x, s')"
  obtain d where d: "findById i True s = Some d"
    using run by (auto simp: restoreDocument_def writeT_Inr bindT_Inr requireDocument_Inr)
  show "counted_off off s'"
  proof (cases "dDeletedAt d = None")
    case True
    then show ?thesis
      using run pre d
      by (auto simp: restoreDocument_def writeT_Inr tx_Inr_simps requireDocument_Inr counted_off_def)
  next
    case False
    then obtain c where c: "cascadeIdOf i s = Some c"
      using pre d findById_Some [OF d] by (auto simp: bin_ok_def cascadeIdOf_def find_any_by_id)
    let ?tail = "\<lambda>es u. thenT (setDeleted rq i (dVersion d) False None None)
         (thenT (bindT (restoreCascade i c) referenceCascaded)
         (thenT (onRestored i) (thenT (publishT es) (returnT u))))"
    have "preserves (counted_off off) (?tail es u)" for es and u :: "unit \<times> change"
      by (intro preserves_intros)
    moreover obtain es s1 tr and u w :: "unit \<times> change" where "?tail es u s = Inr (w, s1)" and s': "s' = s1\<lparr>trail := tr\<rparr>"
      using run d c False
      by (auto simp: restoreDocument_def writeT_Inr bindT_Inr [of "requireDocument i True"]
          bindT_Inr [of "getsT f" for f] thenT_Inr [of "checkVersion u w" for u w]
          thenT_Inr [of "requireT u w" for u w] requireDocument_Inr)
    ultimately have "counted_off off s1" using pre by (blast dest: preservesD)
    then show ?thesis by (simp add: s' counted_off_def)
  qed
qed

end
