(* ===== verification/Document_Locks.thy ===== *)
theory Document_Locks
  imports Document_References
begin

text \<open>
  A document is checked out exactly when a live lock stands on it. Inside a use case the two sides move
  one after the other, document row first; the assertion \<open>claim lk i X Y\<close> carries the set \<open>X\<close> of locked
  documents and the set \<open>Y\<close> of checked-out ones through the steps, with the document \<open>i\<close> the lock \<open>lk\<close>
  belongs to.
\<close>

definition lockedDocs :: "doc_state \<Rightarrow> ident set" where
  "lockedDocs s = lDocumentId ` {l \<in> set (locks s). isLive l}"

definition checkedOutDocs :: "doc_state \<Rightarrow> ident set" where
  "checkedOutDocs s = dId ` {d \<in> set (docs s). dStatus d = CHECKED_OUT}"

definition claim :: "ident option \<Rightarrow> ident \<Rightarrow> ident set \<Rightarrow> ident set \<Rightarrow> doc_state \<Rightarrow> bool" where
  "claim lk i X Y s \<longleftrightarrow>
     tables_ok s \<and> lockedDocs s = X \<and> checkedOutDocs s = Y \<and>
     (\<forall>l \<in> set (locks s). lk = Some (lId l) \<longrightarrow> lDocumentId l = i)"

definition in_step :: "doc_state \<Rightarrow> bool" where
  "in_step s \<longleftrightarrow> tables_ok s \<and> lockedDocs s = checkedOutDocs s"

lemma checkedOut_iff:
  "i \<in> checkedOutDocs s \<longleftrightarrow> (\<exists>d \<in> set (docs s). dId d = i \<and> dStatus d = CHECKED_OUT)"
  by (auto simp: checkedOutDocs_def)

lemma locked_iff: "i \<in> lockedDocs s \<longleftrightarrow> (\<exists>l \<in> set (locks s). lDocumentId l = i \<and> isLive l)"
  by (auto simp: lockedDocs_def)

lemma claim_leaves:
  assumes "leaves docs m" and "leaves locks m" and "preserves tables_ok m"
  shows "preserves (claim lk i X Y) m"
proof (rule preservesI)
  fix s x s'
  assume pre: "claim lk i X Y s" and run: "m s = Inr (x, s')"
  have "docs s' = docs s" "locks s' = locks s"
    using leavesD [OF assms(1) run] leavesD [OF assms(2) run] by auto
  with pre preservesD [OF assms(3) _ run] show "claim lk i X Y s'"
    by (simp add: claim_def lockedDocs_def checkedOutDocs_def)
qed

lemma claim_write [preserves_intros]:
  "preserves (claim lk i X Y) m \<Longrightarrow> preserves (claim lk i X Y) (writeT rq m)"
  by (rule preserves_write) (simp_all add: claim_def lockedDocs_def checkedOutDocs_def tables_ok_def)

lemma claim_frames [preserves_intros]:
  "preserves (claim lk i X Y) invalidateTenant" "preserves (claim lk i X Y) (nextId rq)" "preserves (claim lk i X Y) (publishT es)"
  "preserves (claim lk i X Y) (createInitial rq j f n c' l)"
  "preserves (claim lk i X Y) (createNext rq j f n c' l src)"
  "preserves (claim lk i X Y) (discard j r)" "preserves (claim lk i X Y) (cascadeDelete rq j c'')"
  "preserves (claim lk i X Y) (restoreCascade j c'')"
  "preserves (claim lk i X Y) (publishRevision j r at ef et sn)"
  "preserves (claim lk i X Y) (reference f)" "preserves (claim lk i X Y) (dereference f)"
  "preserves (claim lk i X Y) (onTrigger d tr a)" "preserves (claim lk i X Y) (onRestored j)"
  "preserves (claim lk i X Y) (announce rq d inp)" "preserves (claim lk i X Y) (syncRevision d to)"
  by (rule claim_leaves; intro leaves_intros preserves_intros)+

lemma claim_cascaded [preserves_intros]:
  "preserves (claim lk i X Y) (dereferenceCascaded xs)" "preserves (claim lk i X Y) (referenceCascaded xs)"
  unfolding dereferenceCascaded_def referenceCascaded_def by (intro preserves_intros)+

lemma checkedOut_by_map:
  assumes "map (\<lambda>d. (dId d, dStatus d)) (docs s') = map (\<lambda>d. (dId d, dStatus d)) (docs s)"
  shows "checkedOutDocs s' = checkedOutDocs s"
proof -
  have "checkedOutDocs t = fst ` {p \<in> set (map (\<lambda>d. (dId d, dStatus d)) (docs t)). snd p = CHECKED_OUT}" for t
    by (force simp: checkedOutDocs_def)
  from this [of s'] this [of s] show ?thesis unfolding assms by (rule trans [OF _ sym])
qed

lemma claim_doc_update:
  assumes "preserves tables_ok m" and "leaves locks m"
    and "\<And>s x s'. m s = Inr (x, s') \<Longrightarrow>
       map (\<lambda>d. (dId d, dStatus d)) (docs s') = map (\<lambda>d. (dId d, dStatus d)) (docs s)"
  shows "preserves (claim lk i X Y) m"
proof (rule preservesI)
  fix s x s'
  assume pre: "claim lk i X Y s" and run: "m s = Inr (x, s')"
  have "checkedOutDocs s' = checkedOutDocs s" by (rule checkedOut_by_map [OF assms(3) [OF run]])
  moreover have "locks s' = locks s" by (rule leavesD [OF assms(2) run])
  ultimately show "claim lk i X Y s'"
    using pre preservesD [OF assms(1) _ run] by (simp add: claim_def lockedDocs_def)
qed

lemma claim_attachLatest [preserves_intros]: "preserves (claim lk i X Y) (attachLatestRevision j r)"
  by (rule claim_doc_update, intro preserves_intros, intro leaves_intros)
    (auto simp: attachLatestRevision_def tx_Inr_simps Let_def intro!: map_updateWhere split: if_splits)

lemma claim_setCurrent [preserves_intros]: "preserves (claim lk i X Y) (setCurrentRevision j r)"
  by (rule claim_doc_update, intro preserves_intros, intro leaves_intros)
    (auto simp: setCurrentRevision_def tx_Inr_simps Let_def intro!: map_updateWhere split: if_splits)

lemma claim_patch [preserves_intros]: "preserves (claim lk i X Y) (patchDocument j v pt)"
  by (rule claim_doc_update, intro preserves_intros, intro leaves_intros)
    (auto simp: patchDocument_def patchRow_def versioned_def tx_Inr_simps Let_def intro!: map_updateWhere)

lemma claim_moveTo [preserves_intros]: "preserves (claim lk i X Y) (moveTo j v t)"
  by (rule claim_doc_update, intro preserves_intros, intro leaves_intros)
    (auto simp: moveTo_def versioned_def tx_Inr_simps Let_def intro!: map_updateWhere)

lemma claim_replaceMetadata [preserves_intros]: "preserves (claim lk i X Y) (replaceMetadata j md)"
  by (rule claim_doc_update, intro preserves_intros, intro leaves_intros)
    (auto simp: replaceMetadata_def intro!: map_updateWhere)

lemma claim_deleteUnderFolder [preserves_intros]:
  "preserves (claim lk i X Y) (cascadeDeleteUnderFolder rq fp pa c)"
  by (rule claim_doc_update, intro preserves_intros, intro leaves_intros)
    (auto simp: cascadeDeleteUnderFolder_def tx_Inr_simps Let_def intro!: map_updateWhere)

lemma claim_restoreDocuments [preserves_intros]: "preserves (claim lk i X Y) (restoreDocuments c)"
  by (rule claim_doc_update, intro preserves_intros, intro leaves_intros)
    (auto simp: restoreDocuments_def tx_Inr_simps Let_def intro!: map_updateWhere)

lemma claim_setDeleted [preserves_intros]: "preserves (claim lk i X Y) (setDeleted rq j v b w c)"
  by (rule claim_doc_update, intro preserves_intros, intro leaves_intros)
    (auto simp: setDeleted_def versioned_def tx_Inr_simps Let_def intro!: map_updateWhere split: if_splits)

lemma claim_insert [preserves_intros]:
  assumes "dStatus d = DRAFT"
  shows "preserves (claim lk i X Y) (insertDocument d)"
proof (rule preservesI)
  fix s x s'
  assume pre: "claim lk i X Y s" and run: "insertDocument d s = Inr (x, s')"
  have "docs s' = docs s @ [d]" "locks s' = locks s"
    using run by (auto simp: insertDocument_def tx_Inr_simps)
  moreover have "tables_ok s'"
    using pre run tables_ok_insert [of d] assms
    by (auto simp: numberedWhenPublished_def claim_def dest: preservesD)
  ultimately show "claim lk i X Y s'"
    using pre assms by (auto simp: claim_def checkedOutDocs_def lockedDocs_def)
qed

subsection \<open>Steps that move a side\<close>

lemma hoare_setStatus_claim:
  "hoare (claim lk j X Y) (setStatus i v st)
     (\<lambda>_. claim lk j X (if st = CHECKED_OUT then insert i Y else Y - {i}))"
proof (rule hoareI)
  fix s x s'
  assume pre: "claim lk j X Y s" and run: "setStatus i v st s = Inr (x, s')"
  let ?hit = "\<lambda>d. dId d = i \<and> dVersion d = v \<and> dDeletedAt d = None"
  let ?f = "\<lambda>d. d\<lparr>dStatus := st, dVersion := v + 1\<rparr>"
  have docs': "docs s' = updateWhere ?hit ?f (docs s)" and lk: "locks s' = locks s"
    and ex: "filter ?hit (docs s) \<noteq> []"
    using run by (auto simp: setStatus_def tx_Inr_simps Let_def countWhere_def)
  obtain d where d: "d \<in> set (docs s)" "?hit d"
    using ex by (auto simp: filter_empty_conv)
  have ids: "distinct (map dId (docs s))" using pre by (simp add: claim_def tables_ok_def docs_ok_def)
  have only: "e = d" if "e \<in> set (docs s)" "dId e = i" for e
    using distinct_map_eq [OF ids that(1) d(1)] that(2) d(2) by simp
  have Y: "k \<in> Y \<longleftrightarrow> (\<exists>e \<in> set (docs s). dId e = k \<and> dStatus e = CHECKED_OUT)" for k
    using pre by (simp add: claim_def checkedOut_iff [symmetric])
  have "k \<in> checkedOutDocs s' \<longleftrightarrow> k \<in> (if st = CHECKED_OUT then insert i Y else Y - {i})" for k
  proof (cases "k = i")
    case True
    have "k \<in> checkedOutDocs s' \<longleftrightarrow> (\<exists>e \<in> set (docs s). dId e = i \<and> (if ?hit e then st else dStatus e) = CHECKED_OUT)"
      unfolding checkedOut_iff docs' bex_updateWhere True by (intro bex_cong refl) auto
    also have "\<dots> \<longleftrightarrow> st = CHECKED_OUT"
      using d only by (metis (full_types))
    finally show ?thesis using True by simp
  next
    case False
    have "k \<in> checkedOutDocs s' \<longleftrightarrow> (\<exists>e \<in> set (docs s). dId e = k \<and> (if ?hit e then st else dStatus e) = CHECKED_OUT)"
      unfolding checkedOut_iff docs' bex_updateWhere by (intro bex_cong refl) auto
    also have "\<dots> \<longleftrightarrow> k \<in> Y" using False unfolding Y by (intro bex_cong refl) auto
    finally show ?thesis using False by simp
  qed
  then have "checkedOutDocs s' = (if st = CHECKED_OUT then insert i Y else Y - {i})" by blast
  moreover have "tables_ok s'"
    using pre preservesD [OF tables_ok_ops(3) _ run] by (simp add: claim_def)
  ultimately show "claim lk j X (if st = CHECKED_OUT then insert i Y else Y - {i}) s'"
    using pre lk by (simp add: claim_def lockedDocs_def)
qed

lemma hoare_transition_claim:
  "hoare (claim lk j X Y) (applyLifecycleTransition rq inp)
     (\<lambda>_. claim lk j X (if tTo inp = CHECKED_OUT then insert (tDocumentId inp) Y else Y - {tDocumentId inp}))"
  (is "hoare _ _ (\<lambda>_. ?post)")
proof -
  have same: "hoare (\<lambda>s. claim lk j X Y s \<and> findById (tDocumentId inp) False s = Some d) (returnT r) (\<lambda>_. ?post)"
    if "dStatus d = tTo inp" for d and r :: "bool \<times> change"
  proof (rule hoare_return)
    fix s
    assume pre: "claim lk j X Y s \<and> findById (tDocumentId inp) False s = Some d"
    have d: "d \<in> set (docs s)" "dId d = tDocumentId inp" using pre findById_Some by blast+
    have ids: "distinct (map dId (docs s))" using pre by (simp add: claim_def tables_ok_def docs_ok_def)
    have "e = d" if "e \<in> set (docs s)" "dId e = tDocumentId inp" for e
      using distinct_map_eq [OF ids that(1) d(1)] that(2) d(2) by simp
    moreover have "tDocumentId inp \<in> Y \<longleftrightarrow>
        (\<exists>e \<in> set (docs s). dId e = tDocumentId inp \<and> dStatus e = CHECKED_OUT)"
      using pre by (simp add: claim_def checkedOut_iff [symmetric])
    ultimately have "tDocumentId inp \<in> Y \<longleftrightarrow> tTo inp = CHECKED_OUT"
      using d that by metis
    then show "?post s" using pre by (auto simp: insert_absorb)
  qed
  have moved: "hoare (claim lk j X Y)
      (thenT (setStatus (tDocumentId inp) v (tTo inp)) (thenT (syncRevision d (tTo inp))
        (thenT (announce rq d inp) (returnT r)))) (\<lambda>_. ?post)" for d v and r :: "bool \<times> change"
    by (rule hoare_then [OF hoare_setStatus_claim], rule hoare_preserves, intro preserves_intros)
  have "hoare (claim lk j X Y) (bindT (requireDocument (tDocumentId inp) False) (\<lambda>current.
       if dStatus current = tTo inp
       then returnT (False, transitioned inp (dStatus current) True)
       else thenT (requireT (isLegalTransition (dStatus current) (tTo inp))
                    (InvalidTransitionError (statusName (dStatus current)) (statusName (tTo inp))))
            (thenT (setStatus (tDocumentId inp) (dVersion current) (tTo inp))
            (thenT (syncRevision current (tTo inp))
            (thenT (announce rq current inp)
            (returnT (True, transitioned inp (dStatus current) False)))))) ) (\<lambda>_. ?post)"
  proof (rule hoare_bind)
    show "hoare (claim lk j X Y) (requireDocument (tDocumentId inp) False)
        (\<lambda>d s. claim lk j X Y s \<and> findById (tDocumentId inp) False s = Some d)"
      by (rule hoareI) (auto simp: requireDocument_Inr)
  next
    fix d
    show "hoare (\<lambda>s. claim lk j X Y s \<and> findById (tDocumentId inp) False s = Some d)
      (if dStatus d = tTo inp
       then returnT (False, transitioned inp (dStatus d) True)
       else thenT (requireT (isLegalTransition (dStatus d) (tTo inp))
                    (InvalidTransitionError (statusName (dStatus d)) (statusName (tTo inp))))
            (thenT (setStatus (tDocumentId inp) (dVersion d) (tTo inp))
            (thenT (syncRevision d (tTo inp))
            (thenT (announce rq d inp)
            (returnT (True, transitioned inp (dStatus d) False)))))) (\<lambda>_. ?post)"
      by (rule hoare_if, rule same, assumption, rule hoare_require, rule hoare_strengthen [OF moved]) auto
  qed
  then show ?thesis
    unfolding applyLifecycleTransition_def
    by (intro hoare_write)
      (simp_all add: case_prod_unfold claim_def lockedDocs_def checkedOutDocs_def tables_ok_def)
qed

lemma lockedDocs_release:
  assumes ok: "locks_ok (locks s)" and l: "l \<in> set (locks s)" "isLive l"
    and upd: "locks s' = updateWhere (\<lambda>k. lId k = lId l \<and> lReleasedAt k = None) f (locks s)"
    and f: "\<And>k. lDocumentId (f k) = lDocumentId k \<and> \<not> isLive (f k)"
  shows "lockedDocs s' = lockedDocs s - {lDocumentId l}"
proof -
  have ids: "distinct (map lId (locks s))" and uniq: "uniqueWhere isLive lDocumentId lId (locks s)"
    using ok by (auto simp: locks_ok_def)
  have "j \<in> lockedDocs s' \<longleftrightarrow> (\<exists>k \<in> set (locks s). lDocumentId k = j \<and> isLive k \<and> lId k \<noteq> lId l)" for j
    unfolding locked_iff upd bex_updateWhere
    using f by (intro bex_cong refl) (auto simp: isLive_def)
  moreover have "lId k \<noteq> lId l \<longleftrightarrow> lDocumentId k \<noteq> lDocumentId l" if "k \<in> set (locks s)" "isLive k" for k
    using uniqueWhereD [OF uniq that(1) l(1) that(2) l(2)] distinct_map_eq [OF ids that(1) l(1)] by blast
  ultimately have "j \<in> lockedDocs s' \<longleftrightarrow> j \<in> lockedDocs s \<and> j \<noteq> lDocumentId l" for j
    unfolding locked_iff by (metis (no_types, lifting))
  then show ?thesis by blast
qed

lemma hoare_release_claim:
  "hoare (claim (Some lk) i X Y) (release lk w w' n a) (\<lambda>ended s. ended \<longrightarrow> claim (Some lk) i (X - {i}) Y s)"
proof (rule hoareI, rule impI)
  fix s ended s'
  assume pre: "claim (Some lk) i X Y s" and run: "release lk w w' n a s = Inr (ended, s')" and ended
  let ?hit = "\<lambda>l. lId l = lk \<and> lReleasedAt l = None"
  let ?f = "\<lambda>l. l\<lparr>lReleasedAt := Some a, lReleasedBy := w', lReleaseReason := Some w,
      lReleaseNote := n, lVersion := lVersion l + 1\<rparr>"
  have upd: "locks s' = updateWhere ?hit ?f (locks s)" and d: "docs s' = docs s"
    and one: "countWhere ?hit (locks s) = 1"
    using run \<open>ended\<close> by (auto simp: release_def tx_Inr_simps Let_def)
  then have "filter ?hit (locks s) \<noteq> []" by (auto simp: countWhere_def)
  then obtain l where l: "l \<in> set (locks s)" "lId l = lk" "isLive l"
    by (auto simp: filter_empty_conv isLive_def)
  have doc: "lDocumentId l = i" using pre l by (auto simp: claim_def)
  have "lockedDocs s' = X - {i}"
    using lockedDocs_release [of s l s' ?f] upd l pre doc
    by (simp add: claim_def tables_ok_def isLive_def)
  moreover have "tables_ok s'"
    using pre preservesD [OF tables_ok_ops(14) _ run] by (simp add: claim_def)
  moreover have "\<forall>l \<in> set (locks s'). Some lk = Some (lId l) \<longrightarrow> lDocumentId l = i"
    using pre by (auto simp: upd ball_updateWhere claim_def)
  ultimately show "claim (Some lk) i (X - {i}) Y s'"
    using pre d by (simp add: claim_def checkedOutDocs_def)
qed

lemma claim_attachDraft [preserves_intros]: "preserves (claim lk i X Y) (attachDraft lk' r)"
proof (rule preservesI)
  fix s x s'
  assume pre: "claim lk i X Y s" and run: "attachDraft lk' r s = Inr (x, s')"
  have upd: "locks s' = updateWhere (\<lambda>l. lId l = lk' \<and> lReleasedAt l = None)
       (\<lambda>l. l\<lparr>lDraftRevisionId := r, lVersion := lVersion l + 1\<rparr>) (locks s)" and d: "docs s' = docs s"
    using run by (auto simp: attachDraft_def)
  have "j \<in> lockedDocs s' \<longleftrightarrow> j \<in> lockedDocs s" for j
    unfolding locked_iff upd bex_updateWhere by (intro bex_cong refl) (auto simp: isLive_def)
  then have "lockedDocs s' = X" using pre by (auto simp: claim_def)
  moreover have "tables_ok s'"
    using pre preservesD [OF tables_ok_ops(16) _ run] by (simp add: claim_def)
  ultimately show "claim lk i X Y s'"
    using pre d by (auto simp: claim_def checkedOutDocs_def upd ball_updateWhere)
qed

lemma hoare_acquire_claim:
  "hoare (claim lk j X Y) (acquire lockId i u c a e) (\<lambda>lock s. claim (Some (lId lock)) i (insert i X) Y s)"
proof (rule hoareI)
  fix s lock s'
  assume pre: "claim lk j X Y s" and run: "acquire lockId i u c a e s = Inr (lock, s')"
  have new: "lockId \<notin> lId ` set (locks s)" and s': "locks s' = locks s @ [lock]" "docs s' = docs s"
    and lock: "lId lock = lockId" "lDocumentId lock = i" "isLive lock"
    using run by (auto simp: acquire_def tx_Inr_simps Let_def isLive_def split: if_splits)
  have "lockedDocs s' = insert i X" using pre lock by (auto simp: claim_def lockedDocs_def s')
  moreover have "tables_ok s'"
    using pre preservesD [OF tables_ok_ops(13) _ run] by (simp add: claim_def)
  moreover have "\<forall>l \<in> set (locks s'). Some (lId lock) = Some (lId l) \<longrightarrow> lDocumentId l = i"
    using new lock by (auto simp: s' image_iff)
  ultimately show "claim (Some (lId lock)) i (insert i X) Y s'"
    using pre s' by (simp add: claim_def checkedOutDocs_def)
qed

lemma hoare_takeOver_claim:
  "hoare (claim lk j X Y) (takeOver rq actor i) (\<lambda>_ s. claim lk j (X - {i}) Y s)"
proof (rule hoareI)
  fix s r s'
  assume pre: "claim lk j X Y s" and run: "takeOver rq actor i s = Inr (r, s')"
  show "claim lk j (X - {i}) Y s'"
  proof (cases "liveFor i s")
    case None
    then have "releaseExpired i (now rq) s = Inr (None, s)"
      by (simp add: releaseExpired_def tx_defs)
    then have "s' = s" using run None by (auto simp: takeOver_def bindT_Inr)
    moreover have "i \<notin> lockedDocs s"
      using None by (auto simp: locked_iff liveFor_def find_None_iff_all isLive_def)
    ultimately show ?thesis using pre by (auto simp: claim_def)
  next
    case (Some l)
    let ?hit = "\<lambda>k. lId k = lId l \<and> lReleasedAt k = None"
    let ?f = "\<lambda>k. k\<lparr>lReleasedAt := Some (now rq), lReleasedBy := None,
        lReleaseReason := Some LOCK_EXPIRED, lVersion := lVersion k + 1\<rparr>"
    note l = liveFor_Some [OF Some]
    have hit: "countWhere ?hit (locks s) \<noteq> 0"
      using l by (auto simp: countWhere_def filter_empty_conv)
    have expired: "\<not> lExpiresAt l > now rq"
      using run Some by (auto simp: takeOver_def releaseExpired_def tx_Inr_simps split: if_splits)
    have sweep: "releaseExpired i (now rq) s = Inr (Some l, s\<lparr>locks := updateWhere ?hit ?f (locks s)\<rparr>)"
      using Some expired hit by (simp add: releaseExpired_def tx_defs Let_def)
    then have s': "s' = s\<lparr>locks := updateWhere ?hit ?f (locks s)\<rparr>"
      using run by (auto simp: takeOver_def bindT_Inr)
    have "lockedDocs s' = X - {i}"
      using lockedDocs_release [of s l s' ?f] l pre
      by (simp add: s' claim_def tables_ok_def isLive_def)
    moreover have "tables_ok s'"
      using pre preservesD [OF tables_ok_ops(15) _ sweep] by (simp add: s' claim_def)
    ultimately show ?thesis
      using pre by (auto simp: s' claim_def checkedOutDocs_def ball_updateWhere)
  qed
qed

subsection \<open>Every use case keeps status and lock in step\<close>

lemma in_step_claim: "in_step s \<longleftrightarrow> (\<exists>Y. claim None i Y Y s)"
  by (auto simp: in_step_def claim_def)

lemma claim_in_step: "claim lk i Y Y s \<Longrightarrow> in_step s"
  by (auto simp: in_step_def claim_def)

lemma in_step_write: "preserves in_step m \<Longrightarrow> preserves in_step (writeT rq m)"
  by (rule preserves_write)
    (simp_all add: in_step_def lockedDocs_def checkedOutDocs_def tables_ok_def)

lemma preserves_in_step:
  assumes "\<And>Y. hoare (claim None i Y Y) m (\<lambda>_. in_step)"
  shows "preserves in_step m"
  using assms unfolding preserves_def hoare_def in_step_claim [of _ i] by blast

lemma preserves_to_in_step:
  assumes "\<And>Y. preserves (claim lk i Y Y) m"
  shows "hoare (claim lk i Z Z) m (\<lambda>_. in_step)"
  by (rule hoare_strengthen [OF hoare_preserves [OF assms [of Z]]]) (auto intro: claim_in_step)

lemma claim_preserves_in_step:
  assumes "\<And>Y. preserves (claim None i Y Y) m"
  shows "preserves in_step m"
  by (rule preserves_in_step [of i], rule preserves_to_in_step, rule assms)

lemma hoare_to_in_step: "preserves (claim lk i Y Y) m \<Longrightarrow> hoare (claim lk i Y Y) m (\<lambda>_. in_step)"
  by (auto simp: preserves_def hoare_def intro: claim_in_step)

lemma hoare_requireDocument:
  "(\<And>d. hoare (\<lambda>s. P s \<and> findById i b s = Some d) (f d) Q) \<Longrightarrow> hoare P (bindT (requireDocument i b) f) Q"
  by (auto simp: hoare_def bindT_Inr requireDocument_Inr)

lemma hoare_requireLiveLock:
  "(\<And>l. hoare (\<lambda>s. P s \<and> liveFor i s = Some l) (f l) Q) \<Longrightarrow> hoare P (bindT (requireLiveLock i) f) Q"
  by (auto simp: hoare_def bindT_Inr requireLiveLock_Inr)

lemma hoare_requireActor:
  "(\<And>u. hoare P (f u) Q) \<Longrightarrow> hoare P (bindT (requireActor rq) f) Q"
  by (auto simp: hoare_def bindT_Inr requireActor_def)

lemma hoare_pure: "(P \<Longrightarrow> hoare R m Q) \<Longrightarrow> hoare (\<lambda>s. R s \<and> P) m Q"
  by (auto simp: hoare_def)

lemma claim_status:
  assumes "claim lk j X Y s" and "findById i False s = Some d"
  shows "i \<in> Y \<longleftrightarrow> dStatus d = CHECKED_OUT"
proof -
  have d: "d \<in> set (docs s)" "dId d = i" using findById_Some [OF assms(2)] by auto
  have ids: "distinct (map dId (docs s))" using assms(1) by (simp add: claim_def tables_ok_def docs_ok_def)
  have "e = d" if "e \<in> set (docs s)" "dId e = i" for e
    using distinct_map_eq [OF ids that(1) d(1)] that(2) d(2) by simp
  moreover have "i \<in> Y \<longleftrightarrow> (\<exists>e \<in> set (docs s). dId e = i \<and> dStatus e = CHECKED_OUT)"
    using assms(1) by (simp add: claim_def checkedOut_iff [symmetric])
  ultimately show ?thesis using d by metis
qed

lemma claim_live:
  assumes "claim lk j X Y s" and "liveFor i s = Some l"
  shows "claim (Some (lId l)) i X Y s"
proof -
  have "distinct (map lId (locks s))" using assms(1) by (simp add: claim_def tables_ok_def locks_ok_def)
  then have "lDocumentId k = i" if "k \<in> set (locks s)" "lId k = lId l" for k
    using distinct_map_eq that liveFor_Some [OF assms(2)] by metis
  then show ?thesis using assms(1) by (auto simp: claim_def)
qed

lemma hoare_checkOut_first:
  fixes Y :: "ident set"
  shows "hoare (\<lambda>s. claim None i Y Y s \<and> findById i False s = Some d)
     (if dStatus d = CHECKED_OUT then takeOver rq actor i
      else thenT (applyLifecycleTransition rq (plainTransition i CHECKED_OUT None)) (returnT (None, None)))
     (\<lambda>_. claim None i (Y - {i}) (insert i Y))"
  (is "hoare ?pre _ _")
proof (cases "dStatus d = CHECKED_OUT")
  case True
  have "hoare ?pre (takeOver rq actor i) (\<lambda>_ s. claim None i (Y - {i}) (insert i Y) s)"
    by (rule hoareI) (use hoareD [OF hoare_takeOver_claim] claim_status True insert_absorb in metis)
  then show ?thesis using True by simp
next
  case False
  have "hoare ?pre (applyLifecycleTransition rq (plainTransition i CHECKED_OUT None))
      (\<lambda>_ s. claim None i (Y - {i}) (insert i Y) s)"
  proof (rule hoareI)
    fix s x s'
    assume pre: "?pre s" and run: "applyLifecycleTransition rq (plainTransition i CHECKED_OUT None) s = Inr (x, s')"
    have "Y - {i} = Y" using pre claim_status [of None i Y Y s i d] False by auto
    then show "claim None i (Y - {i}) (insert i Y) s'"
      using hoareD [OF hoare_transition_claim _ run, of None i Y Y] pre by simp
  qed
  then show ?thesis using False by (simp, intro hoare_then [OF _ hoare_return]) auto
qed

lemma in_step_checkOut: "preserves in_step (checkOut p rq i)"
  unfolding checkOut_def
  apply (rule in_step_write, rule preserves_in_step [of i], rule hoare_requireDocument, rule hoare_requireActor)
  apply (rule hoare_bind [OF hoare_checkOut_first], simp only: case_prod_unfold)
  apply (rule hoare_bind [OF hoare_preserves], intro preserves_intros)
  apply (rule hoare_bind [OF hoare_acquire_claim], simp only: insert_Diff_single)
  apply (rule hoare_to_in_step, intro preserves_intros)
  done

lemma hoare_transition_from_checked_out:
  assumes "to \<noteq> CHECKED_OUT"
  shows "hoare (claim lk j X Y) (applyLifecycleTransition rq (plainTransition i to why)) (\<lambda>_. claim lk j X (Y - {i}))"
  using hoare_transition_claim [of lk j X Y rq "plainTransition i to why"] assms by simp

lemma hoare_with_live:
  "hoare (claim (Some (lId l)) i Y Y) m Q \<Longrightarrow>
   hoare (\<lambda>s. (claim None i Y Y s \<and> findById i False s = Some d) \<and> liveFor i s = Some l) m Q"
  by (erule hoare_strengthen) (auto intro: claim_live)

lemma hoare_release_step:
  "hoare (claim (Some lk) i Y (Y - {i}))
     (bindT (release lk w w' n a) (\<lambda>ended. requireEnded ended i st)) (\<lambda>_. claim (Some lk) i (Y - {i}) (Y - {i}))"
  by (rule hoare_bind [OF hoare_release_claim]) (auto simp: hoare_def requireEnded_Inr)

lemma hoare_release_ended:
  assumes "\<And>Z. preserves (claim (Some lk) i Z Z) k"
  shows "hoare (claim (Some lk) i Y (Y - {i}))
     (thenT (bindT (release lk w w' n a) (\<lambda>ended. requireEnded ended i st)) k) (\<lambda>_. in_step)"
  by (rule hoare_then [OF hoare_release_step preserves_to_in_step], rule assms)

lemma bind_then_assoc: "bindT m (\<lambda>x. thenT (f x) k) = thenT (bindT m f) k"
  by (auto simp: bindT_def thenT_def bind_result_def fun_eq_iff split: sum.splits)

lemma claim_discardWorkingDraft [preserves_intros]: "preserves (claim lk i X Y) (discardWorkingDraft d l)"
  unfolding discardWorkingDraft_def by (intro preserves_intros)

lemma in_step_checkIn: "preserves in_step (checkIn p rq ci)"
proof (cases "ciKeepCheckedOut ci")
  case True
  then show ?thesis
    unfolding checkIn_def
    by (intro in_step_write claim_preserves_in_step [of "ciDocumentId ci"])
      (simp add: whenT_def, intro preserves_intros)
next
  case False
  then show ?thesis
    unfolding checkIn_def
    apply (simp add: whenT_def)
    apply (rule in_step_write, rule preserves_in_step [of "ciDocumentId ci"], rule hoare_requireDocument,
        rule hoare_requireActor, rule hoare_require, rule hoare_requireLiveLock, rule hoare_with_live,
        rule hoare_require)
    apply (rule hoare_then, rule hoare_then [OF hoare_transition_from_checked_out], simp)
     apply (rule hoare_preserves, intro preserves_intros)
    apply (rule hoare_bind [OF hoare_preserves], intro preserves_intros)+
    apply (simp only: case_prod_unfold)
    apply (rule hoare_then [OF hoare_preserves], intro preserves_intros,
        rule hoare_then [OF hoare_preserves], intro preserves_intros)
    apply (rule hoare_release_ended, intro preserves_intros)
    done
qed

lemma in_step_endCheckOut: "preserves in_step (endCheckOut rq i h w n pd a)"
  unfolding endCheckOut_def Let_def
  apply (rule in_step_write, rule preserves_in_step [of i], rule hoare_requireDocument, rule hoare_require,
      rule hoare_requireLiveLock, rule hoare_with_live, rule hoare_require)
  apply (rule hoare_then [OF hoare_transition_from_checked_out], simp)
  apply (rule hoare_bind [OF hoare_preserves], intro preserves_intros)+
  apply (simp only: bind_then_assoc)
  apply (rule hoare_release_ended, intro preserves_intros)
  done

lemma in_step_cancelCheckOut: "preserves in_step (cancelCheckOut rq i)"
  unfolding cancelCheckOut_def by (intro preserves_bind preserves_guards in_step_endCheckOut)

lemma in_step_forceCheckIn: "preserves in_step (forceCheckIn rq i n d)"
  unfolding forceCheckIn_def by (intro preserves_then preserves_basic in_step_endCheckOut)

text \<open>
  A transition whose target the check-out is not part of, made on a document that is not checked out,
  moves neither side.
\<close>

lemma in_step_transition:
  assumes pre: "in_step s" and run: "applyLifecycleTransition rq inp s = Inr (x, s')"
    and free: "\<And>d. findById (tDocumentId inp) False s = Some d \<Longrightarrow> dStatus d \<noteq> CHECKED_OUT"
    and to: "tTo inp \<noteq> CHECKED_OUT"
  shows "in_step s'"
proof -
  obtain Y where Y: "claim None (tDocumentId inp) Y Y s" using pre in_step_claim by blast
  obtain d where d: "findById (tDocumentId inp) False s = Some d"
    using run by (auto simp: applyLifecycleTransition_def writeT_Inr bindT_Inr requireDocument_Inr)
  have "tDocumentId inp \<notin> Y" using claim_status [OF Y d] free [OF d] by simp
  then have "claim None (tDocumentId inp) Y Y s'"
    using hoareD [OF hoare_transition_claim Y run] to by simp
  then show ?thesis by (rule claim_in_step)
qed

lemma transition_needs_legal:
  assumes "applyLifecycleTransition rq inp s = Inr (x, s')"
  obtains d where "findById (tDocumentId inp) False s = Some d"
    and "dStatus d = tTo inp \<or> isLegalTransition (dStatus d) (tTo inp)"
  using assms
  by (auto simp: applyLifecycleTransition_def writeT_Inr bindT_Inr thenT_Inr requireDocument_Inr split: if_splits)

lemma in_step_transition_not_published:
  assumes "in_step s" and run: "applyLifecycleTransition rq inp s = Inr (x, s')"
    and to: "tTo inp \<notin> {CHECKED_OUT, PUBLISHED, DRAFT}"
  shows "in_step s'"
proof (rule in_step_transition [OF assms(1) run])
  fix d
  assume d: "findById (tDocumentId inp) False s = Some d"
  show "dStatus d \<noteq> CHECKED_OUT"
    using transition_needs_legal [OF run] d to by force
qed (use to in simp)

lemma hoare_transition_free:
  assumes "dStatus d \<noteq> CHECKED_OUT" and "to \<noteq> CHECKED_OUT"
  shows "hoare (\<lambda>s. claim lk i Y Y s \<and> findById i False s = Some d)
     (applyLifecycleTransition rq (plainTransition i to why)) (\<lambda>_. claim lk i Y Y)"
proof (rule hoareI)
  fix s x s'
  assume pre: "claim lk i Y Y s \<and> findById i False s = Some d"
    and run: "applyLifecycleTransition rq (plainTransition i to why) s = Inr (x, s')"
  have "Y - {i} = Y" using claim_status [of lk i Y Y s i d] pre assms(1) by auto
  then show "claim lk i Y Y s'"
    using hoareD [OF hoare_transition_from_checked_out [OF assms(2)] _ run, of lk i Y Y] pre by simp
qed

lemma in_step_publish: "preserves in_step (publish p rq i ef et)"
  unfolding publish_def Let_def
  apply (rule in_step_write, rule preserves_in_step [of i], rule hoare_requireDocument, rule hoare_require,
      rule hoare_require, rule hoare_option, rule hoare_throw, rule hoare_require, rule hoare_require)
  apply (rule hoare_then [OF hoare_transition_free], simp, simp)
  apply (rule hoare_to_in_step, intro preserves_intros)
  done

lemma hoare_transition_checks_out:
  assumes "dStatus d \<noteq> CHECKED_OUT"
  shows "hoare (\<lambda>s. claim lk i Y Y s \<and> findById i False s = Some d)
     (applyLifecycleTransition rq (plainTransition i CHECKED_OUT why)) (\<lambda>_. claim lk i (Y - {i}) (insert i Y))"
proof (rule hoareI)
  fix s x s'
  assume pre: "claim lk i Y Y s \<and> findById i False s = Some d"
    and run: "applyLifecycleTransition rq (plainTransition i CHECKED_OUT why) s = Inr (x, s')"
  have "Y - {i} = Y" using claim_status [of lk i Y Y s i d] pre assms by auto
  then show "claim lk i (Y - {i}) (insert i Y) s'"
    using hoareD [OF hoare_transition_claim _ run, of lk i Y Y] pre by simp
qed

lemma hoare_attachable:
  "(\<And>f. hoare P (k f) Q) \<Longrightarrow> hoare P (bindT (requireAttachable file) k) Q"
  by (auto simp: hoare_def bindT_Inr requireAttachable_Inr)

lemma hoare_gets_option:
  "\<lbrakk>hoare P m Q; \<And>x. hoare P (f x) Q\<rbrakk> \<Longrightarrow>
   hoare P (bindT (getsT g) (\<lambda>v. case v of None \<Rightarrow> m | Some x \<Rightarrow> f x)) Q"
  by (rule hoareI) (auto simp: bindT_Inr split: option.splits dest: hoareD)

lemma hoare_release_then_draft:
  assumes "\<And>Z. preserves (claim (Some lk) i Z Z) k"
  shows "hoare (claim (Some lk) i (insert i Y) (insert i Y))
     (bindT (release lk w w' n a) (\<lambda>ended. thenT (requireEnded ended i st)
       (thenT (applyLifecycleTransition rq (plainTransition i DRAFT why)) k))) (\<lambda>_. in_step)"
proof -
  have rel: "hoare (claim (Some lk) i (insert i Y) (insert i Y))
      (bindT (release lk w w' n a) (\<lambda>ended. requireEnded ended i st))
      (\<lambda>_. claim (Some lk) i (Y - {i}) (insert i Y))"
    by (rule hoare_bind [OF hoare_release_claim]) (auto simp: hoare_def requireEnded_Inr)
  have tr: "hoare (claim (Some lk) i (Y - {i}) (insert i Y))
      (applyLifecycleTransition rq (plainTransition i DRAFT why)) (\<lambda>_. claim (Some lk) i (Y - {i}) (Y - {i}))"
    using hoare_transition_from_checked_out [of DRAFT "Some lk" i "Y - {i}" "insert i Y" rq i why] by simp
  show ?thesis
    unfolding bind_then_assoc
    by (rule hoare_then [OF rel hoare_then [OF tr preserves_to_in_step]], rule assms)
qed

lemma in_step_restoreRevision: "preserves in_step (restoreRevision p rq i r n)"
  unfolding restoreRevision_def
  apply (rule in_step_write, rule preserves_in_step [of i], rule hoare_requireDocument, rule hoare_requireActor,
      rule hoare_require, rule hoare_gets_option, rule hoare_throw, rule hoare_require, rule hoare_attachable)
  apply (rule hoare_then [OF hoare_transition_checks_out], simp)
  apply (rule hoare_bind [OF hoare_preserves], intro preserves_intros)
  apply (rule hoare_bind [OF hoare_acquire_claim], simp only: insert_Diff_single)
  apply (rule hoare_bind [OF hoare_preserves], intro preserves_intros, simp only: case_prod_unfold)
  apply (rule hoare_then [OF hoare_preserves], intro preserves_intros,
      rule hoare_then [OF hoare_preserves], intro preserves_intros)
  apply (rule hoare_release_then_draft, intro preserves_intros)
  done

lemma in_step_createDocument: "preserves in_step (createDocument p rq inp)"
  unfolding createDocument_def
  by (rule claim_preserves_in_step) (intro preserves_intros; simp)

lemma in_step_edits:
  "preserves in_step (updateDocument p rq i pt md v)" "preserves in_step (moveDocument p rq i t v)"
  unfolding updateDocument_def moveDocument_def by (rule claim_preserves_in_step, intro preserves_intros)+

lemma in_step_removeDocument: "preserves in_step (removeDocument p rq i v w)"
  unfolding removeDocument_def by (rule claim_preserves_in_step) (intro preserves_intros)

lemma in_step_restoreDocument: "preserves in_step (restoreDocument p rq i v)"
  unfolding restoreDocument_def by (rule claim_preserves_in_step) (intro preserves_intros)

lemma in_step_folder_cascade:
  "preserves in_step (deleteUnder p rq fp pa c)" "preserves in_step (restoreUnder c)"
  unfolding deleteUnder_def restoreUnder_def by (rule claim_preserves_in_step, intro preserves_intros)+

lemma in_step_other_transition:
  "tTo inp \<notin> {CHECKED_OUT, PUBLISHED, DRAFT} \<Longrightarrow> preserves in_step (applyLifecycleTransition rq inp)"
  by (rule preservesI) (rule in_step_transition_not_published)

lemma in_step_publishT: "preserves in_step (publishT es)"
  by (rule claim_preserves_in_step) (intro preserves_intros)

lemma in_step_archiveDocument: "preserves in_step (archiveDocument rq i v w)"
  unfolding archiveDocument_def
  by (intro preserves_intros in_step_other_transition in_step_publishT) simp

lemma in_step_expireOne: "preserves in_step (expireOne p rq tz c)"
  unfolding expireOne_def
  by (intro preserves_intros in_step_other_transition in_step_publishT) simp

lemma in_step_reinstateDocument:
  "hoare (\<lambda>s. in_step s \<and> (\<forall>d. findById i False s = Some d \<longrightarrow> dStatus d \<noteq> CHECKED_OUT))
     (reinstateDocument p rq i v w) (\<lambda>_. in_step)"
proof (rule hoareI)
  fix s x s'
  assume pre: "in_step s \<and> (\<forall>d. findById i False s = Some d \<longrightarrow> dStatus d \<noteq> CHECKED_OUT)"
    and run: "reinstateDocument p rq i v w s = Inr (x, s')"
  obtain inp b s1 es where tr: "applyLifecycleTransition rq inp s = Inr (b, s1)" "tDocumentId inp = i" "tTo inp = PUBLISHED"
    and rest: "whenT b (publishT es) s1 = Inr (x, s')"
    using run
    by (auto simp: reinstateDocument_def readT_def bindT_Inr thenT_Inr requireReason_def requireDocument_Inr
        split: if_splits)
  have "in_step s1" using in_step_transition [OF _ tr(1)] pre tr(2,3) by auto
  moreover have "preserves in_step (whenT b (publishT es))" by (intro preserves_when in_step_publishT)
  ultimately show "in_step s'" using rest by (blast dest: preservesD)
qed

lemma docs_ok_assignNumber: "preserves tables_ok (assignNumber i n)"
proof (rule tables_okI)
  show "preserves (\<lambda>s. docs_ok (docs s)) (assignNumber i n)"
    by (rule preservesI)
      (auto simp: assignNumber_def tx_Inr_simps Let_def numberedWhenPublished_def intro!: docs_ok_update)
qed (auto simp: assignNumber_def tx_Inr_simps Let_def intro!: leaves_preserves leavesI)

lemma counted_assignNumber: "preserves (counted_off off) (assignNumber i n)"
  by (rule counted_off_leaves) (auto simp: assignNumber_def tx_Inr_simps Let_def intro!: leavesI)

lemma bin_ok_assignNumber: "preserves bin_ok (assignNumber i n)"
  by (rule preservesI) (auto simp: assignNumber_def tx_Inr_simps Let_def bin_ok_def ball_updateWhere)

lemma in_step_assignNumber: "preserves in_step (assignNumber i n)"
  by (rule claim_preserves_in_step, rule claim_doc_update, rule docs_ok_assignNumber)
    (auto simp: assignNumber_def tx_Inr_simps Let_def intro!: leavesI map_updateWhere)

end
