(* ===== verification/Document_History.thy ===== *)
theory Document_History
  imports Document_System
begin

text \<open>
  What the document tables never lose. The audit trail and the outbox only grow; a revision keeps its
  place in the lineage and its content, and once issued keeps its publication facts; a document keeps
  its number; a released lock never changes again. One relation between an earlier and a later state
  says so, and every use case extends it.
\<close>

subsection \<open>Rows kept in place\<close>

definition grows :: "('r \<Rightarrow> 'r \<Rightarrow> bool) \<Rightarrow> 'r list \<Rightarrow> 'r list \<Rightarrow> bool" where
  "grows K xs ys \<longleftrightarrow> length xs \<le> length ys \<and> (\<forall>n < length xs. K (xs ! n) (ys ! n))"

lemma grows_refl: "(\<And>x. K x x) \<Longrightarrow> grows K xs xs"
  by (simp add: grows_def)

lemma grows_mem: "\<lbrakk>grows K xs ys; x \<in> set xs\<rbrakk> \<Longrightarrow> \<exists>y \<in> set ys. K x y"
  by (auto simp: grows_def in_set_conv_nth) (meson less_le_trans nth_mem)

lemma grows_append: "grows K xs ys \<Longrightarrow> grows K xs (ys @ zs)"
  by (auto simp: grows_def nth_append)

lemma grows_update:
  assumes "grows K xs ys" and "\<And>x y. \<lbrakk>K x y; P y\<rbrakk> \<Longrightarrow> K x (f y)"
  shows "grows K xs (updateWhere P f ys)"
  using assms by (auto simp: grows_def updateWhere_def)

definition revKept :: "revision_row \<Rightarrow> revision_row \<Rightarrow> bool" where
  "revKept r q \<longleftrightarrow>
     rId q = rId r \<and> rDocumentId q = rDocumentId r \<and> rOrdinal q = rOrdinal r \<and> rLabel q = rLabel r \<and>
     rFileObjectId q = rFileObjectId r \<and>
     (rStatus r \<in> {RevPUBLISHED, RevSUPERSEDED} \<longrightarrow>
        rStatus q \<in> {RevPUBLISHED, RevSUPERSEDED} \<and> rPublishedAt q = rPublishedAt r \<and>
        rEffectiveFrom q = rEffectiveFrom r \<and> rEffectiveTo q = rEffectiveTo r \<and>
        rMetadataSnapshot q = rMetadataSnapshot r)"

definition docKept :: "document_row \<Rightarrow> document_row \<Rightarrow> bool" where
  "docKept d e \<longleftrightarrow>
     dId e = dId d \<and> dDocumentTypeId e = dDocumentTypeId d \<and> dOwnerUserId e = dOwnerUserId d \<and>
     (dDocumentNumber d \<noteq> None \<longrightarrow> dDocumentNumber e = dDocumentNumber d)"

definition lockKept :: "lock_row \<Rightarrow> lock_row \<Rightarrow> bool" where
  "lockKept l k \<longleftrightarrow>
     lId k = lId l \<and> lDocumentId k = lDocumentId l \<and> lLockedBy k = lLockedBy l \<and>
     lExpiresAt k = lExpiresAt l \<and> (lReleasedAt l \<noteq> None \<longrightarrow> k = l)"

definition extends :: "doc_state \<Rightarrow> doc_state \<Rightarrow> bool" where
  "extends s0 s \<longleftrightarrow>
     prefix (trail s0) (trail s) \<and> prefix (outbox s0) (outbox s) \<and>
     grows docKept (docs s0) (docs s) \<and> grows revKept (revs s0) (revs s) \<and> grows lockKept (locks s0) (locks s)"

lemmas kept_defs = revKept_def docKept_def lockKept_def

lemma extends_refl: "extends s s"
  by (simp add: extends_def grows_refl kept_defs)

subsection \<open>The repositories\<close>

lemma extends_write [preserves_intros]:
  assumes "preserves (extends h) m"
  shows "preserves (extends h) (writeT rq m)"
proof (rule preservesI)
  fix s x s'
  assume pre: "extends h s" and "writeT rq m s = Inr (x, s')"
  then obtain c s1 where "m s = Inr ((x, c), s1)" and s': "s' = s1\<lparr>trail := trail s1 @ [auditRow rq c]\<rparr>"
    by (auto simp: writeT_Inr)
  with preservesD [OF assms pre] show "extends h s'" by (simp add: extends_def)
qed

lemma extends_core [preserves_intros]:
  "preserves (extends h) (nextId rq)" "preserves (extends h) (publishT es)"
  "preserves (extends h) invalidateTenant"
  "preserves (extends h) (onTrigger d tr a)" "preserves (extends h) (onRestored i)"
  by (auto intro!: preservesI simp: extends_def onTrigger_def onRestored_def)

lemma extends_document_ops [preserves_intros]:
  "preserves (extends h) (setStatus i v st)" "preserves (extends h) (setDeleted rq i v b w c)"
  "preserves (extends h) (attachLatestRevision i r)" "preserves (extends h) (setCurrentRevision i r)"
  "preserves (extends h) (patchDocument i v pt)" "preserves (extends h) (moveTo i v tf)"
  "preserves (extends h) (replaceMetadata i md)"
  "preserves (extends h) (cascadeDeleteUnderFolder rq fp pa c')" "preserves (extends h) (restoreDocuments c')"
  "preserves (extends h) (assignNumber i n)"
  by (auto intro!: preservesI grows_update simp: extends_def setStatus_def setDeleted_def versioned_def
      attachLatestRevision_def setCurrentRevision_def patchDocument_def patchRow_def moveTo_def
      replaceMetadata_def cascadeDeleteUnderFolder_def restoreDocuments_def assignNumber_def tx_Inr_simps
      Let_def docKept_def split: if_splits)

lemma extends_insert [preserves_intros]: "preserves (extends h) (insertDocument d)"
  by (auto intro!: preservesI grows_append simp: extends_def insertDocument_def tx_Inr_simps)

lemma extends_revision_ops [preserves_intros]:
  "preserves (extends h) (supersede r)" "preserves (extends h) (discard i r)"
  "preserves (extends h) (cascadeDelete rq i c)" "preserves (extends h) (restoreCascade i c)"
  by (auto intro!: preservesI grows_update simp: extends_def supersede_def discard_def cascadeDelete_def
      restoreCascade_def tx_Inr_simps Let_def revKept_def)

lemma extends_setWorkingStatus [preserves_intros]:
  "set sources \<inter> {RevPUBLISHED, RevSUPERSEDED} = {} \<Longrightarrow> preserves (extends h) (setWorkingStatus r sources to)"
  by (auto intro!: preservesI grows_update simp: extends_def setWorkingStatus_def revKept_def)

lemma extends_revs_append [preserves_intros]: "preserves (extends h) (modifyT (\<lambda>s. s\<lparr>revs := revs s @ rs\<rparr>))"
  by (auto intro!: preservesI grows_append simp: extends_def)

lemma extends_create [preserves_intros]:
  "preserves (extends h) (createInitial rq i f n c l)" "preserves (extends h) (createNext rq i f n c l r)"
  unfolding createInitial_def createNext_def by (intro preserves_intros)+

lemma extends_publish_row [preserves_intros]:
  "preserves (extends h) (modifyT (\<lambda>s. s\<lparr>revs := updateWhere
     (\<lambda>r. rId r = a \<and> rDocumentId r = i \<and> rStatus r \<in> {RevIN_APPROVAL, RevDRAFT})
     (\<lambda>r. r\<lparr>rStatus := RevPUBLISHED, rPublishedAt := at, rEffectiveFrom := ef, rEffectiveTo := et,
           rMetadataSnapshot := sn, rVersion := rVersion r + 1\<rparr>) (revs s)\<rparr>))"
  by (auto intro!: preservesI grows_update simp: extends_def revKept_def)

lemma extends_publishRevision [preserves_intros]: "preserves (extends h) (publishRevision i r at ef et sn)"
  unfolding publishRevision_def Let_def by (intro preserves_intros)

lemma extends_lock_ops [preserves_intros]:
  "preserves (extends h) (release l w w' n a)" "preserves (extends h) (releaseExpired i a)"
  "preserves (extends h) (attachDraft l d)"
  by (auto intro!: preservesI grows_update simp: extends_def release_def releaseExpired_def attachDraft_def
      tx_Inr_simps Let_def lockKept_def split: if_splits option.splits)

lemma extends_acquire [preserves_intros]: "preserves (extends h) (acquire l i u c a e)"
  by (auto intro!: preservesI grows_append simp: extends_def acquire_def tx_Inr_simps Let_def split: if_splits)

lemma extends_file_ops [preserves_intros]:
  "preserves (extends h) (reference f)" "preserves (extends h) (dereference f)"
  by (auto intro!: preservesI simp: extends_def reference_def dereference_def adjustRefCount_def
      tx_Inr_simps Let_def)

subsection \<open>The use cases\<close>

lemma extends_shared [preserves_intros]:
  "preserves (extends h) (announce rq d inp)" "preserves (extends h) (syncRevision d to)"
  "preserves (extends h) (dereferenceCascaded xs)" "preserves (extends h) (referenceCascaded xs)"
  unfolding announce_def syncRevision_def dereferenceCascaded_def referenceCascaded_def
  by (cases "tTo inp"; simp; intro preserves_intros) (intro preserves_intros; simp)+

lemma extends_transition [preserves_intros]: "preserves (extends h) (applyLifecycleTransition rq inp)"
  unfolding applyLifecycleTransition_def by (intro preserves_intros)

lemma extends_service:
  "preserves (extends h) (createDocument p rq inp)" "preserves (extends h) (updateDocument p rq i pt md v)"
  "preserves (extends h) (moveDocument p rq i tf v)" "preserves (extends h) (removeDocument p rq i v w)"
  "preserves (extends h) (restoreDocument p rq i v)" "preserves (extends h) (archiveDocument rq i v w)"
  "preserves (extends h) (reinstateDocument p rq i v w)" "preserves (extends h) (expireOne p rq tz c)"
  "preserves (extends h) (deleteUnder p rq fp pa ca)" "preserves (extends h) (restoreUnder ca)"
  unfolding createDocument_def updateDocument_def moveDocument_def removeDocument_def restoreDocument_def
    archiveDocument_def reinstateDocument_def expireOne_def deleteUnder_def restoreUnder_def
  by (intro preserves_intros)+

lemma extends_endCheckOut [preserves_intros]: "preserves (extends h) (endCheckOut rq i ho w n pd a)"
  unfolding endCheckOut_def discardWorkingDraft_def by (intro preserves_intros)

lemma extends_revision_control:
  "preserves (extends h) (checkOut p rq i)" "preserves (extends h) (checkIn p rq ci)"
  "preserves (extends h) (cancelCheckOut rq i)" "preserves (extends h) (forceCheckIn rq i n b)"
  "preserves (extends h) (publish p rq i ef et)" "preserves (extends h) (restoreRevision p rq i r nt)"
  unfolding checkOut_def takeOver_def checkIn_def discardWorkingDraft_def cancelCheckOut_def
    forceCheckIn_def publish_def restoreRevision_def
  by (intro preserves_intros)+

lemmas extends_ops =
  extends_service [THEN preservesD] extends_revision_control [THEN preservesD]
  extends_transition [THEN preservesD] extends_document_ops(10) [THEN preservesD]

lemma step_extends: "document_step s s' \<Longrightarrow> extends h s \<Longrightarrow> extends h s'"
  by (induction rule: document_step.induct) (blast dest: extends_ops)+

lemma history_extends: "document_step\<^sup>*\<^sup>* s s' \<Longrightarrow> extends s s'"
  by (induction rule: rtranclp_induct) (auto intro: extends_refl step_extends)

end
