(* ===== verification/Document_Properties.thy ===== *)
theory Document_Properties
  imports Document_History
begin

text \<open>
  The properties of the document component: what holds in every reachable state, what each use case does
  when it commits, and what it refuses.
\<close>

subsection \<open>Effects of the shared steps\<close>

lemma transition_docs:
  assumes "applyLifecycleTransition rq inp s = Inr (b, s')"
  obtains d where "findById (tDocumentId inp) False s = Some d"
    and "docs s' = (if b then updateWhere
           (\<lambda>e. dId e = tDocumentId inp \<and> dVersion e = dVersion d \<and> dDeletedAt e = None)
           (\<lambda>e. e\<lparr>dStatus := tTo inp, dVersion := dVersion d + 1\<rparr>) (docs s) else docs s)"
    and "b \<longleftrightarrow> dStatus d \<noteq> tTo inp"
proof -
  obtain c s1 d where d: "findById (tDocumentId inp) False s = Some d" and s': "docs s' = docs s1"
    and body: "(if dStatus d = tTo inp
       then returnT (False, transitioned inp (dStatus d) True)
       else thenT (requireT (isLegalTransition (dStatus d) (tTo inp))
                    (InvalidTransitionError (statusName (dStatus d)) (statusName (tTo inp))))
            (thenT (setStatus (tDocumentId inp) (dVersion d) (tTo inp))
            (thenT (syncRevision d (tTo inp))
            (thenT (announce rq d inp)
            (returnT (True, transitioned inp (dStatus d) False)))))) s = Inr ((b, c), s1)"
    using assms by (auto simp: applyLifecycleTransition_def writeT_Inr bindT_Inr requireDocument_Inr)
  show ?thesis
  proof (cases "dStatus d = tTo inp")
    case True
    then show ?thesis using that [OF d] body s' by simp
  next
    case False
    then obtain m1 m2 x2 x3 where b: "b" and st: "setStatus (tDocumentId inp) (dVersion d) (tTo inp) s = Inr ((), m1)"
      and "syncRevision d (tTo inp) m1 = Inr (x2, m2)" and "announce rq d inp m2 = Inr (x3, s1)"
      using body by (auto simp: thenT_Inr)
    then have "docs s1 = docs m1" by (metis leavesD leaves_syncRevision(1) leaves_announce(1))
    then show ?thesis using that [OF d] b st s' False by (auto simp: setStatus_def tx_Inr_simps Let_def)
  qed
qed

lemma transition_row:
  assumes run: "applyLifecycleTransition rq inp s = Inr (b, s')" and ok: "docs_ok (docs s)"
    and e: "e \<in> set (docs s')" "dId e = tDocumentId inp"
  shows "dStatus e = tTo inp \<and> (\<exists>d. findById (tDocumentId inp) False s = Some d \<and>
     dLatestRevisionId e = dLatestRevisionId d \<and> dCurrentRevisionId e = dCurrentRevisionId d \<and>
     dDocumentNumber e = dDocumentNumber d \<and> dDeletedAt e = dDeletedAt d)"
proof -
  obtain d where d: "findById (tDocumentId inp) False s = Some d"
    and docs': "docs s' = (if b then updateWhere
           (\<lambda>e. dId e = tDocumentId inp \<and> dVersion e = dVersion d \<and> dDeletedAt e = None)
           (\<lambda>e. e\<lparr>dStatus := tTo inp, dVersion := dVersion d + 1\<rparr>) (docs s) else docs s)"
    and b: "b \<longleftrightarrow> dStatus d \<noteq> tTo inp"
    using run by (rule transition_docs)
  have ids: "distinct (map dId (docs s))" using ok by (simp add: docs_ok_def)
  note dm = findById_Some [OF d]
  have only: "x = d" if "x \<in> set (docs s)" "dId x = tDocumentId inp" for x
    using distinct_map_eq [OF ids that(1)] dm that(2) by simp
  show ?thesis
  proof (cases b)
    case False
    then show ?thesis using only e docs' b d by auto
  next
    case True
    then obtain x where x: "x \<in> set (docs s)" "e = (if dId x = tDocumentId inp \<and> dVersion x = dVersion d \<and> dDeletedAt x = None
        then x\<lparr>dStatus := tTo inp, dVersion := dVersion d + 1\<rparr> else x)"
      using e(1) docs' by (auto elim: mem_updateWhereE)
    then have "dId x = tDocumentId inp" using e(2) by (auto split: if_splits)
    then have "x = d" using only x(1) by blast
    then show ?thesis using x(2) d dm by simp
  qed
qed

text \<open>What publication establishes, step by step: the document row, the revision row, the pointer.\<close>

definition rowPublished :: "ident \<Rightarrow> ident \<Rightarrow> doc_state \<Rightarrow> bool" where
  "rowPublished i latest s \<longleftrightarrow> tables_ok s \<and>
     (\<forall>e \<in> set (docs s). dId e = i \<longrightarrow>
        dStatus e = PUBLISHED \<and> dLatestRevisionId e = Some latest \<and> dDocumentNumber e \<noteq> None)"

definition revisionPublished :: "ident \<Rightarrow> ident \<Rightarrow> doc_state \<Rightarrow> bool" where
  "revisionPublished i latest s \<longleftrightarrow> rowPublished i latest s \<and>
     (\<exists>r \<in> set (revs s). rId r = latest \<and> rDocumentId r = i \<and> rStatus r = RevPUBLISHED)"

definition publishedAs :: "ident \<Rightarrow> ident \<Rightarrow> doc_state \<Rightarrow> bool" where
  "publishedAs i latest s \<longleftrightarrow> revisionPublished i latest s \<and>
     (\<forall>e \<in> set (docs s). dId e = i \<longrightarrow> dCurrentRevisionId e = Some latest)"

lemma hoare_row_published:
  assumes "dLatestRevisionId d = Some latest" and "dDocumentNumber d \<noteq> None"
  shows "hoare (\<lambda>s. tables_ok s \<and> findById i False s = Some d)
     (applyLifecycleTransition rq (plainTransition i PUBLISHED None)) (\<lambda>_. rowPublished i latest)"
proof (rule hoareI)
  fix s b s'
  assume pre: "tables_ok s \<and> findById i False s = Some d"
    and run: "applyLifecycleTransition rq (plainTransition i PUBLISHED None) s = Inr (b, s')"
  have "tables_ok s'" using preservesD [OF tables_ok_transition _ run] pre by simp
  moreover have "dStatus e = PUBLISHED \<and> dLatestRevisionId e = Some latest \<and> dDocumentNumber e \<noteq> None"
    if "e \<in> set (docs s')" "dId e = i" for e
    using transition_row [OF run _ that(1)] that(2) pre assms by (auto simp: tables_ok_def)
  ultimately show "rowPublished i latest s'" by (simp add: rowPublished_def)
qed

lemma hoare_revision_published:
  "hoare (rowPublished i latest) (publishRevision i latest at ef et sn) (\<lambda>_. revisionPublished i latest)"
proof (rule hoareI)
  fix s x s'
  assume pre: "rowPublished i latest s" and run: "publishRevision i latest at ef et sn s = Inr (x, s')"
  let ?hit = "\<lambda>q. rId q = latest \<and> rDocumentId q = i \<and> rStatus q \<in> {RevIN_APPROVAL, RevDRAFT}"
  let ?prior = "case describePublished i s of None \<Rightarrow> returnT () | Some p \<Rightarrow> supersede (rId p)"
  obtain u m where "?prior s = Inr (u, m)" and ex: "countWhere ?hit (revs m) \<noteq> 0"
    and s': "revs s' = updateWhere ?hit
       (\<lambda>q. q\<lparr>rStatus := RevPUBLISHED, rPublishedAt := Some at, rEffectiveFrom := Some ef,
             rEffectiveTo := et, rMetadataSnapshot := Some sn, rVersion := rVersion q + 1\<rparr>) (revs m)"
    using run unfolding publishRevision_def
    by (auto simp: tx_Inr_simps Let_def split: option.splits)
  obtain q where "q \<in> set (revs m)" "?hit q"
    using ex by (auto simp: countWhere_def filter_empty_conv)
  then have "\<exists>r \<in> set (revs s'). rId r = latest \<and> rDocumentId r = i \<and> rStatus r = RevPUBLISHED"
    unfolding s' bex_updateWhere by (intro bexI [of _ q]) auto
  moreover have "docs s' = docs s" by (rule leavesD [OF leaves_publishRevision(1) run])
  moreover have "tables_ok s'"
    using preservesD [OF tables_ok_ops(12) _ run] pre by (simp add: rowPublished_def)
  ultimately show "revisionPublished i latest s'"
    using pre by (simp add: revisionPublished_def rowPublished_def)
qed

lemma hoare_pointer_published:
  "hoare (revisionPublished i latest) (setCurrentRevision i latest) (\<lambda>_. publishedAs i latest)"
proof (rule hoareI)
  fix s x s'
  assume pre: "revisionPublished i latest s" and run: "setCurrentRevision i latest s = Inr (x, s')"
  have "docs s' = updateWhere (\<lambda>d. dId d = i) (\<lambda>d. d\<lparr>dCurrentRevisionId := Some latest\<rparr>) (docs s)"
    using run by (auto simp: setCurrentRevision_def tx_Inr_simps)
  moreover have "revs s' = revs s" by (rule leavesD [OF leaves_document_ops(13) run])
  moreover have "tables_ok s'"
    using preservesD [OF tables_ok_ops(6) _ run] pre by (simp add: revisionPublished_def rowPublished_def)
  ultimately show "publishedAs i latest s'"
    using pre by (auto simp: publishedAs_def revisionPublished_def rowPublished_def ball_updateWhere)
qed

lemma publishedAs_leaves:
  assumes "leaves docs m" and "leaves revs m" and "preserves tables_ok m"
  shows "preserves (publishedAs i latest) m"
proof (rule preservesI)
  fix s x s'
  assume pre: "publishedAs i latest s" and run: "m s = Inr (x, s')"
  show "publishedAs i latest s'"
    using pre preservesD [OF assms(3) _ run] leavesD [OF assms(1) run] leavesD [OF assms(2) run]
    by (simp add: publishedAs_def revisionPublished_def rowPublished_def)
qed

lemma hoare_publish:
  "hoare tables_ok (publish p rq i ef et)
     (\<lambda>x s. \<exists>latest. dLatestRevisionId x = Some latest \<and> publishedAs i latest s \<and> findById i False s = Some x)"
  (is "hoare _ _ ?Q")
  unfolding publish_def Let_def
  apply (rule hoare_write)
   apply (rule hoare_requireDocument, rule hoare_require, rule hoare_require, rule hoare_option_eq,
      rule hoare_throw, rule hoare_require, rule hoare_require)
   apply (rule hoare_then [OF hoare_row_published], assumption, assumption)
   apply (rule hoare_bind [OF hoare_revision_published])
   apply (rule hoare_then [OF hoare_pointer_published])
   apply (rule hoare_then [OF hoare_preserves], rule publishedAs_leaves, intro leaves_intros, intro leaves_intros,
      intro preserves_intros)+
   apply (rule hoare_requireDocument, rule hoare_return)
   apply (auto simp: publishedAs_def revisionPublished_def rowPublished_def dest: findById_Some)[1]
  apply (simp add: publishedAs_def revisionPublished_def rowPublished_def tables_ok_def findById_def)
  done


subsection \<open>What holds in every reachable state\<close>

lemma reachable_parts:
  assumes "document_start s0" and "document_step\<^sup>*\<^sup>* s0 s"
  shows "docs_ok (docs s)" and "revs_ok (revs s)" and "locks_ok (locks s)"
    and "lockedDocs s = checkedOutDocs s" and "counted s" and "bin_ok s"
  using documents.reachable_keeps [OF assms]
  by (simp_all add: document_inv_def in_step_def tables_ok_def)




lemma samplePublished_files:
  "files samplePublished = [\<lparr>fId = ''f'', fChecksumSha256 = ''c'', fScanStatus = ''CLEAN'', fDerived = False,
               fRefCount = 1, fDeletedAt = None\<rparr>]"
  by code_simp


text \<open>
  C3: the revisions of a document carry the ordinals \<open>0\<close> to \<open>n - 1\<close>, each once; at most one of them is
  published; and exactly the published and the superseded ones carry a publication time.
\<close>

theorem revision_lineage:
  assumes "document_start s0" and "document_step\<^sup>*\<^sup>* s0 s"
  shows "(\<exists>n. rOrdinal ` {r \<in> set (revs s). rDocumentId r = i} = {0 ..< n}) \<and>
    distinct (map rOrdinal (filter (\<lambda>r. rDocumentId r = i) (revs s))) \<and>
    length (filter (\<lambda>r. rDocumentId r = i \<and> rStatus r = RevPUBLISHED) (revs s)) \<le> 1 \<and>
    (\<forall>r \<in> set (revs s). rPublishedAt r \<noteq> None \<longleftrightarrow> rStatus r \<in> {RevPUBLISHED, RevSUPERSEDED})"
proof -
  have ok: "distinct (map rId (revs s))" "contiguous (revs s)" "onePublished (revs s)" "publishedState (revs s)"
    using reachable_parts(2) [OF assms] by (auto simp: revs_ok_def)
  have "\<exists>n. rOrdinal ` {r \<in> set (revs s). rDocumentId r = i} = {0 ..< n}"
    using ok(2) by (simp add: contiguous_def ordinalsOf_def)
  moreover have "distinct (map rOrdinal (filter (\<lambda>r. rDocumentId r = i) (revs s)))"
    using ok(2) by (auto simp: contiguous_def distinct_map inj_on_def)
  moreover have "length (filter (\<lambda>r. rDocumentId r = i \<and> rStatus r = RevPUBLISHED) (revs s)) \<le> 1"
    using uniqueWhere_length [OF ok(3) [unfolded onePublished_def] ok(1)] .
  moreover have "\<forall>r \<in> set (revs s). rPublishedAt r \<noteq> None \<longleftrightarrow> rStatus r \<in> {RevPUBLISHED, RevSUPERSEDED}"
    using ok(4) by (simp add: publishedState_def)
  ultimately show ?thesis by blast
qed

theorem revision_lineage_witness:
  "(\<exists>n. rOrdinal ` {r \<in> set (revs samplePublished). rDocumentId r = ''k''} = {0 ..< n}) \<and>
    distinct (map rOrdinal (filter (\<lambda>r. rDocumentId r = ''k'') (revs samplePublished))) \<and>
    length (filter (\<lambda>r. rDocumentId r = ''k'' \<and> rStatus r = RevPUBLISHED) (revs samplePublished)) \<le> 1"
  using revision_lineage [OF sampleStart_start samplePublished_reachable] by blast

text \<open>no two live locks stand on one document.\<close>

theorem one_live_lock:
  assumes "document_start s0" and "document_step\<^sup>*\<^sup>* s0 s"
  shows "length (filter (\<lambda>l. lDocumentId l = i \<and> lReleasedAt l = None) (locks s)) \<le> 1"
proof -
  have "uniqueWhere isLive lDocumentId lId (locks s)" "distinct (map lId (locks s))"
    using reachable_parts(3) [OF assms] by (auto simp: locks_ok_def)
  then show ?thesis using uniqueWhere_length [of isLive lDocumentId lId "locks s" i] by (simp add: isLive_def)
qed

theorem one_live_lock_witness:
  "length (filter (\<lambda>l. lDocumentId l = ''k'' \<and> lReleasedAt l = None) (locks sampleCheckedOut)) \<le> 1"
  by (rule one_live_lock [OF sampleStart_start sampleCheckedOut_reachable])


subsection \<open>What is never lost\<close>


lemma sampleCheckedOut_after: "document_step\<^sup>*\<^sup>* samplePublished sampleCheckedOut"
  unfolding sampleCheckedOut_def by (rule exec_step) (rule document_step.check_out)

lemma samplePublished_revs:
  "map (\<lambda>r. (rId r, rStatus r, rLabel r)) (revs samplePublished) = [(''ki'', RevPUBLISHED, ''Original'')]"
  by code_simp




subsection \<open>Publication\<close>

text \<open>
  C7: when publication commits, the document is \<open>PUBLISHED\<close> with a number, its current revision is its
  latest one, and that revision is the only published revision of the document.
\<close>

theorem publish_effect:
  assumes "document_start s0" and "document_step\<^sup>*\<^sup>* s0 s" and "publish p rq i ef et s = Inr (x, s')"
  shows "findById i False s' = Some x \<and> dStatus x = PUBLISHED \<and> dDocumentNumber x \<noteq> None \<and>
    (\<exists>latest. dLatestRevisionId x = Some latest \<and> dCurrentRevisionId x = Some latest \<and>
       rId ` {r \<in> set (revs s'). rDocumentId r = i \<and> rStatus r = RevPUBLISHED} = {latest})"
proof -
  have "tables_ok s" using reachable_parts(1-3) [OF assms(1,2)] by (simp add: tables_ok_def)
  then obtain latest where l: "dLatestRevisionId x = Some latest" "publishedAs i latest s'" "findById i False s' = Some x"
    using hoareD [OF hoare_publish _ assms(3)] by blast
  have ok: "revs_ok (revs s')" using l(2)
    by (simp add: publishedAs_def revisionPublished_def rowPublished_def tables_ok_def)
  obtain q where q: "q \<in> set (revs s')" "rId q = latest" "rDocumentId q = i" "rStatus q = RevPUBLISHED"
    using l(2) by (auto simp: publishedAs_def revisionPublished_def)
  have "rId r = latest" if "r \<in> set (revs s')" "rDocumentId r = i" "rStatus r = RevPUBLISHED" for r
    using ok uniqueWhereD [of "\<lambda>r. rStatus r = RevPUBLISHED" rDocumentId rId "revs s'" r q] that q by (simp add: revs_ok_def onePublished_def)
  then have "rId ` {r \<in> set (revs s'). rDocumentId r = i \<and> rStatus r = RevPUBLISHED} = {latest}"
    using q by blast
  then show ?thesis
    using l findById_Some [OF l(3)]
    by (auto simp: publishedAs_def revisionPublished_def rowPublished_def)
qed

lemma samplePublish_run:
  "\<exists>x. publish samplePorts sampleRequest ''k'' None (Some ''2026-12-31'') sampleApproved = Inr (x, samplePublished)"
proof (cases "publish samplePorts sampleRequest ''k'' None (Some ''2026-12-31'') sampleApproved")
  case (Inl e)
  then have "docs samplePublished = docs sampleApproved" by (simp add: samplePublished_def exec_def runTx_def)
  moreover have "map dStatus (docs samplePublished) \<noteq> map dStatus (docs sampleApproved)" by code_simp
  ultimately show ?thesis by simp
next
  case (Inr r)
  then show ?thesis by (cases r) (simp add: samplePublished_def exec_def runTx_def)
qed

theorem publish_effect_witness:
  "\<exists>x. findById ''k'' False samplePublished = Some x \<and> dStatus x = PUBLISHED \<and>
     dCurrentRevisionId x = dLatestRevisionId x"
proof -
  obtain x where "publish samplePorts sampleRequest ''k'' None (Some ''2026-12-31'') sampleApproved = Inr (x, samplePublished)"
    using samplePublish_run by blast
  from publish_effect [OF sampleStart_start sampleApproved_reachable this] show ?thesis by auto
qed

end
