(* ===== verification/Check_Out_Properties.thy ===== *)
theory Check_Out_Properties
  imports Document_Properties
begin

text \<open>
  The properties of check-out, takeover, cancellation and reinstatement, of the deletion of a folder's
  documents, and of a read-only tenant.
\<close>

subsection \<open>Check-out\<close>

text \<open>
  C16: while somebody else's unexpired lock stands, a check-out is refused, the refusal names the holder
  and the time the lock lapses, and nothing is committed.
\<close>

theorem checkOut_refused_while_locked:
  assumes "tenantStatus rq = Some ACTIVE" and "userId rq = Some u"
    and "findById i False s = Some d" and "dStatus d = CHECKED_OUT"
    and "liveFor i s = Some l" and "lLockedBy l \<noteq> u" and "now rq < lExpiresAt l"
  shows "runTx (checkOut p rq i) s = (Inl (DocumentLockedError (lLockedBy l) (lExpiresAt l)), s)"
  using assms
  by (intro runTx_refused)
    (simp add: checkOut_def writeT_def refuseWhenReadOnly_def requireDocument_def requireActor_def
      requireUser_def takeOver_def releaseExpired_def tx_defs)

definition otherRequest :: request where
  "otherRequest = sampleRequest\<lparr>userId := Some ''bo'', now := 2000\<rparr>"

theorem checkOut_refused_while_locked_witness:
  "runTx (checkOut samplePorts otherRequest ''k'') sampleCheckedOut
   = (Inl (DocumentLockedError ''ana'' 28801000), sampleCheckedOut)"
proof -
  have "map_option dStatus (findById ''k'' False sampleCheckedOut) = Some CHECKED_OUT" by code_simp
  then obtain d where d: "findById ''k'' False sampleCheckedOut = Some d" "dStatus d = CHECKED_OUT" by auto
  have "map_option (\<lambda>l. (lLockedBy l, lExpiresAt l)) (liveFor ''k'' sampleCheckedOut) = Some (''ana'', 28801000)"
    by code_simp
  then obtain l where l: "liveFor ''k'' sampleCheckedOut = Some l" "lLockedBy l = ''ana''" "lExpiresAt l = 28801000"
    by auto
  have "tenantStatus otherRequest = Some ACTIVE" "userId otherRequest = Some ''bo''" "now otherRequest = 2000"
    by (simp_all add: otherRequest_def sampleRequest_def)
  then show ?thesis
    using checkOut_refused_while_locked [of otherRequest "''bo''" "''k''" sampleCheckedOut d l samplePorts] d l by simp
qed


text \<open>The run of a committed check-out: who holds what after each step.\<close>

lemma checkOut_run:
  assumes "checkOut p rq i s = Inr (x, s')" and "findById i False s = Some d"
  obtains actor swept draft s1 lock s3 where
    "userId rq = Some actor"
    and "(if dStatus d = CHECKED_OUT then takeOver rq actor i
          else thenT (applyLifecycleTransition rq (plainTransition i CHECKED_OUT None)) (returnT (None, None))) s
         = Inr ((swept, draft), s1)"
    and "acquire (mkId rq (serial s1)) i actor (dCurrentRevisionId d) (now rq)
          (now rq + checkoutExpiryHours p * HOUR_MS) (s1\<lparr>serial := Suc (serial s1)\<rparr>) = Inr (lock, s3)"
    and "locks s' = (case draft of None \<Rightarrow> locks s3 | Some r \<Rightarrow>
          updateWhere (\<lambda>l. lId l = lId lock \<and> lReleasedAt l = None)
            (\<lambda>l. l\<lparr>lDraftRevisionId := Some r, lVersion := lVersion l + 1\<rparr>) (locks s3))"
    and "docs s' = docs s3" and "findById i False s' = Some x"
proof -
  obtain actor swept draft s1 lock s3 u s4 where
    *: "userId rq = Some actor"
      "(if dStatus d = CHECKED_OUT then takeOver rq actor i
          else thenT (applyLifecycleTransition rq (plainTransition i CHECKED_OUT None)) (returnT (None, None))) s
         = Inr ((swept, draft), s1)"
      "acquire (mkId rq (serial s1)) i actor (dCurrentRevisionId d) (now rq)
          (now rq + checkoutExpiryHours p * HOUR_MS) (s1\<lparr>serial := Suc (serial s1)\<rparr>) = Inr (lock, s3)"
    and at: "(case draft of None \<Rightarrow> returnT () | Some r \<Rightarrow> attachDraft (lId lock) (Some r)) s3 = Inr (u, s4)"
    and end4: "docs s' = docs s4" "locks s' = locks s4" "findById i False s' = Some x"
    using assms
    by (auto simp: checkOut_def writeT_Inr bindT_Inr thenT_Inr requireDocument_Inr requireActor_def findById_def)
  show thesis
    by (rule that [OF *]) (use at end4 in \<open>auto simp: attachDraft_def split: option.splits\<close>)
qed

lemma acquire_run:
  assumes "acquire lk i u c a e s = Inr (lock, s')"
  shows "lId lock = lk" and "lDocumentId lock = i" and "lLockedBy lock = u" and "lExpiresAt lock = e"
    and "lReleasedAt lock = None" and "lDraftRevisionId lock = None" and "lk \<notin> lId ` set (locks s)"
    and "liveFor i s = None" and "locks s' = locks s @ [lock]" and "docs s' = docs s"
  using assms by (auto simp: acquire_def tx_Inr_simps Let_def split: if_splits)

text \<open>
  a committed check-out leaves the document \<open>CHECKED_OUT\<close> with a live lock that is the caller's and
  lapses after the configured number of hours.
\<close>

lemma checkOut_lock:
  assumes run: "checkOut p rq i s = Inr (x, s')" and d: "findById i False s = Some d"
  obtains k actor swept draft s1 where "liveFor i s' = Some k" and "userId rq = Some actor" and "lLockedBy k = actor"
    and "lExpiresAt k = now rq + checkoutExpiryHours p * HOUR_MS" and "lDraftRevisionId k = draft"
    and "(if dStatus d = CHECKED_OUT then takeOver rq actor i
          else thenT (applyLifecycleTransition rq (plainTransition i CHECKED_OUT None)) (returnT (None, None))) s
         = Inr ((swept, draft), s1)"
    and "docs s' = docs s1" and "lId k \<notin> lId ` set (locks s1)" and "set (locks s1) \<subseteq> set (locks s')"
proof -
  obtain actor swept draft s1 lock s3 where u: "userId rq = Some actor"
    and arm: "(if dStatus d = CHECKED_OUT then takeOver rq actor i
          else thenT (applyLifecycleTransition rq (plainTransition i CHECKED_OUT None)) (returnT (None, None))) s
         = Inr ((swept, draft), s1)"
    and aq: "acquire (mkId rq (serial s1)) i actor (dCurrentRevisionId d) (now rq)
          (now rq + checkoutExpiryHours p * HOUR_MS) (s1\<lparr>serial := Suc (serial s1)\<rparr>) = Inr (lock, s3)"
    and locks': "locks s' = (case draft of None \<Rightarrow> locks s3 | Some r \<Rightarrow>
          updateWhere (\<lambda>l. lId l = lId lock \<and> lReleasedAt l = None)
            (\<lambda>l. l\<lparr>lDraftRevisionId := Some r, lVersion := lVersion l + 1\<rparr>) (locks s3))"
    and docs': "docs s' = docs s3"
    by (rule checkOut_run [OF run d])
  note a = acquire_run [OF aq]
  have live3: "liveFor i s3 = Some lock"
    using a(2,5,8) by (simp add: liveFor_def a(9) find_append)
  let ?k = "case draft of None \<Rightarrow> lock | Some r \<Rightarrow> lock\<lparr>lDraftRevisionId := Some r, lVersion := lVersion lock + 1\<rparr>"
  have "liveFor i s' = Some ?k"
    using live3 a(5) unfolding liveFor_def locks'
    by (cases draft) (simp_all add: find_updateWhere)
  moreover have "set (locks s1) \<subseteq> set (locks s')"
    using a(1,7) unfolding locks' a(9)
    by (cases draft) (auto simp: set_updateWhere image_iff)
  ultimately show thesis
    using that [of ?k actor draft swept s1] u arm a docs' by (cases draft) auto
qed

theorem checkOut_claims:
  assumes "document_start s0" and "document_step\<^sup>*\<^sup>* s0 s" and "checkOut p rq i s = Inr (x, s')"
  shows "dStatus x = CHECKED_OUT \<and> findById i False s' = Some x \<and>
    (\<exists>k. liveFor i s' = Some k \<and> userId rq = Some (lLockedBy k) \<and>
         lExpiresAt k = now rq + checkoutExpiryHours p * HOUR_MS)"
proof -
  obtain d where d: "findById i False s = Some d"
    using assms(3) by (auto simp: checkOut_def writeT_Inr bindT_Inr requireDocument_Inr)
  have x: "findById i False s' = Some x" by (rule checkOut_run [OF assms(3) d])
  have step: "document_step\<^sup>*\<^sup>* s0 s'" using assms(2) document_step.check_out [OF assms(3)] by (rule rtranclp.rtrancl_into_rtrancl)
  obtain k where k: "liveFor i s' = Some k" "userId rq = Some (lLockedBy k)"
     "lExpiresAt k = now rq + checkoutExpiryHours p * HOUR_MS"
    by (rule checkOut_lock [OF assms(3) d]) blast
  have "i \<in> lockedDocs s'" using liveFor_Some [OF k(1)] by (auto simp: locked_iff isLive_def)
  then obtain e where e: "e \<in> set (docs s')" "dId e = i" "dStatus e = CHECKED_OUT"
    using reachable_parts(4) [OF assms(1) step] by (auto simp: checkedOut_iff)
  have "distinct (map dId (docs s'))" using reachable_parts(1) [OF assms(1) step] by (simp add: docs_ok_def)
  then have "e = x" using distinct_map_eq e findById_Some [OF x] by metis
  then show ?thesis using e k x by blast
qed

theorem checkOut_claims_witness:
  "\<exists>k. liveFor ''k'' sampleCheckedOut = Some k \<and> userId sampleRequest = Some (lLockedBy k)"
proof -
  have "\<not> (\<exists>e. checkOut samplePorts sampleRequest ''k'' samplePublished = Inl e)"
    using sampleCheckedOut_docs samplePublished_docs
    by (auto simp: sampleCheckedOut_def exec_def runTx_def map_eq_Cons_conv)
  then obtain x where "checkOut samplePorts sampleRequest ''k'' samplePublished = Inr (x, sampleCheckedOut)"
    by (cases "checkOut samplePorts sampleRequest ''k'' samplePublished")
      (auto simp: sampleCheckedOut_def exec_def runTx_def split: prod.splits)
  from checkOut_claims [OF sampleStart_start samplePublished_reachable this] show ?thesis by blast
qed


lemma exec_run: "\<not> isl (m s) \<Longrightarrow> \<exists>x. m s = Inr (x, exec m s)"
  by (cases "m s") (auto simp: exec_def runTx_def)

lemma takeOver_run:
  assumes "takeOver rq u i s = Inr ((swept, draft), s1)" and "liveFor i s = Some l"
  shows "lExpiresAt l \<le> now rq" and "swept = Some (lLockedBy l)" and "draft = lDraftRevisionId l"
    and "\<exists>k \<in> set (locks s1). lId k = lId l \<and> lReleaseReason k = Some LOCK_EXPIRED"
proof -
  have mem: "l \<in> set (locks s)" "lReleasedAt l = None" using liveFor_Some [OF assms(2)] by auto
  then have hit: "countWhere (\<lambda>k. lId k = lId l \<and> lReleasedAt k = None) (locks s) \<noteq> 0"
    by (auto simp: countWhere_def filter_empty_conv)
  have run: "lExpiresAt l \<le> now rq \<and> swept = Some (lLockedBy l) \<and> draft = lDraftRevisionId l \<and>
    locks s1 = updateWhere (\<lambda>k. lId k = lId l \<and> lReleasedAt k = None)
      (\<lambda>k. k\<lparr>lReleasedAt := Some (now rq), lReleasedBy := None, lReleaseReason := Some LOCK_EXPIRED,
            lVersion := lVersion k + 1\<rparr>) (locks s)"
    using assms hit
    by (auto simp: takeOver_def releaseExpired_def tx_Inr_simps Let_def split: if_splits option.splits)
  then show "lExpiresAt l \<le> now rq" "swept = Some (lLockedBy l)" "draft = lDraftRevisionId l" by auto
  show "\<exists>k \<in> set (locks s1). lId k = lId l \<and> lReleaseReason k = Some LOCK_EXPIRED"
    using run mem by (auto simp: bex_updateWhere intro!: bexI [of _ l])
qed

text \<open>
  a check-out of a document that is already checked out commits only when the standing lock has
  lapsed; the new lock carries the draft of the old one, and the old one is marked expired.
\<close>

theorem takeover_inherits_draft:
  assumes "checkOut p rq i s = Inr (x, s')" and "findById i False s = Some d" and "dStatus d = CHECKED_OUT"
    and "liveFor i s = Some l"
  shows "lExpiresAt l \<le> now rq \<and>
    (\<exists>k. liveFor i s' = Some k \<and> lId k \<noteq> lId l \<and> lDraftRevisionId k = lDraftRevisionId l) \<and>
    (\<exists>k \<in> set (locks s'). lId k = lId l \<and> lReleaseReason k = Some LOCK_EXPIRED)"
proof -
  obtain k actor swept draft s1 where k: "liveFor i s' = Some k" "lDraftRevisionId k = draft"
    and first: "(if dStatus d = CHECKED_OUT then takeOver rq actor i
          else thenT (applyLifecycleTransition rq (plainTransition i CHECKED_OUT None)) (returnT (None, None))) s
         = Inr ((swept, draft), s1)"
    and new: "lId k \<notin> lId ` set (locks s1)" "set (locks s1) \<subseteq> set (locks s')"
    by (rule checkOut_lock [OF assms(1,2)])
  have arm: "takeOver rq actor i s = Inr ((swept, draft), s1)" using first assms(3) by simp
  note t = takeOver_run [OF arm assms(4)]
  obtain q where q: "q \<in> set (locks s1)" "lId q = lId l" "lReleaseReason q = Some LOCK_EXPIRED" using t(4) by blast
  then have "lId k \<noteq> lId l" using new(1) by (metis imageI)
  moreover have "q \<in> set (locks s')" using q(1) new(2) by blast
  ultimately show ?thesis using t(1,3) k q by auto
qed

definition lateRequest :: request where
  "lateRequest = sampleRequest\<lparr>userId := Some ''bo'', now := 99000000\<rparr>"

definition sampleTakenOver :: doc_state where
  "sampleTakenOver = exec (checkOut samplePorts lateRequest ''k'') sampleCheckedOut"

theorem takeover_inherits_draft_witness:
  "\<exists>l k. liveFor ''k'' sampleCheckedOut = Some l \<and> liveFor ''k'' sampleTakenOver = Some k \<and> lId k \<noteq> lId l"
proof -
  have "\<not> isl (checkOut samplePorts lateRequest ''k'' sampleCheckedOut)" by code_simp
  then obtain x where run: "checkOut samplePorts lateRequest ''k'' sampleCheckedOut = Inr (x, sampleTakenOver)"
    unfolding sampleTakenOver_def by (blast dest: exec_run)
  have "map_option dStatus (findById ''k'' False sampleCheckedOut) = Some CHECKED_OUT" by code_simp
  then obtain d where d: "findById ''k'' False sampleCheckedOut = Some d" "dStatus d = CHECKED_OUT" by auto
  have "liveFor ''k'' sampleCheckedOut \<noteq> None" by code_simp
  then obtain l where l: "liveFor ''k'' sampleCheckedOut = Some l" by auto
  show ?thesis using takeover_inherits_draft [OF run d l] l by auto
qed

subsection \<open>Giving the claim back\<close>

definition statusIs :: "ident \<Rightarrow> document_status \<Rightarrow> doc_state \<Rightarrow> bool" where
  "statusIs i st s \<longleftrightarrow> (\<forall>e \<in> set (docs s). dId e = i \<longrightarrow> dStatus e = st)"

lemma statusIs_leaves: "leaves docs m \<Longrightarrow> preserves (statusIs i st) m"
  by (rule preservesI, drule (1) leavesD) (simp add: statusIs_def)

lemma statusIs_ops [preserves_intros]:
  "preserves (statusIs i st) (attachDraft lk dr)" "preserves (statusIs i st) (dereference f)"
  "preserves (statusIs i st) (discard j r)" "preserves (statusIs i st) (release lk w w' n a)"
  by (rule statusIs_leaves, intro leaves_intros)+

lemma statusIs_attach [preserves_intros]: "preserves (statusIs i st) (attachLatestRevision j r)"
  by (rule preservesI) (auto simp: attachLatestRevision_def tx_Inr_simps statusIs_def ball_updateWhere)

lemma statusIs_discardWorkingDraft [preserves_intros]:
  "preserves (statusIs i st) (discardWorkingDraft d l)"
  unfolding discardWorkingDraft_def by (intro preserves_intros)

lemma hoare_transition_status:
  "hoare (\<lambda>s. docs_ok (docs s)) (applyLifecycleTransition rq (plainTransition i to why)) (\<lambda>_. statusIs i to)"
proof (rule hoareI)
  fix s b s'
  assume "docs_ok (docs s)" and run: "applyLifecycleTransition rq (plainTransition i to why) s = Inr (b, s')"
  then show "statusIs i to s'" using transition_row [OF run] by (auto simp: statusIs_def)
qed

lemma hoare_endCheckOut_status:
  "hoare (\<lambda>s. docs_ok (docs s)) (endCheckOut rq i h why note False a)
     (\<lambda>x s. statusIs i PUBLISHED s \<and> findById i False s = Some x)"
  unfolding endCheckOut_def Let_def
  apply (rule hoare_write, rule hoare_requireDocument, rule hoare_require, rule hoare_requireLiveLock,
      rule hoare_require, simp only: simp_thms if_False)
   apply (rule hoare_then [where R = "statusIs i PUBLISHED"],
      rule hoare_strengthen [OF hoare_transition_status], simp, simp)
   apply (rule hoare_bind [OF hoare_preserves], intro preserves_intros)
   apply (rule hoare_requireActor)
   apply (rule hoare_bind [OF hoare_preserves], intro preserves_intros)
   apply (rule hoare_then [OF hoare_preserves], intro preserves_intros)
   apply (rule hoare_requireDocument, rule hoare_return, simp)
  apply (simp add: statusIs_def findById_def)
  done

text \<open>
  a committed cancellation leaves the document \<open>PUBLISHED\<close> with no live lock.
\<close>

theorem cancel_ends_checkout:
  assumes "document_start s0" and "document_step\<^sup>*\<^sup>* s0 s" and "cancelCheckOut rq i s = Inr (x, s')"
  shows "findById i False s' = Some x \<and> dStatus x = PUBLISHED \<and> liveFor i s' = None"
proof -
  have step: "document_step\<^sup>*\<^sup>* s0 s'"
    using assms(2) document_step.cancel [OF assms(3)] by (rule rtranclp.rtrancl_into_rtrancl)
  obtain u where run: "endCheckOut rq i (Some u) CANCELLED None False ''CHECKOUT_CANCELLED'' s = Inr (x, s')"
    using assms(3) by (auto simp: cancelCheckOut_def bindT_Inr requireActor_def)
  have st: "statusIs i PUBLISHED s'" and x: "findById i False s' = Some x"
    using hoareD [OF hoare_endCheckOut_status _ run] reachable_parts(1) [OF assms(1,2)] by auto
  have "i \<notin> checkedOutDocs s'" using st by (auto simp: statusIs_def checkedOut_iff)
  then have "i \<notin> lockedDocs s'" using reachable_parts(4) [OF assms(1) step] by simp
  then have "liveFor i s' = None" by (cases "liveFor i s'") (auto dest!: liveFor_Some simp: locked_iff isLive_def)
  then show ?thesis using st x findById_Some [OF x] by (auto simp: statusIs_def)
qed

definition sampleCancelled :: doc_state where
  "sampleCancelled = exec (cancelCheckOut sampleRequest ''k'') sampleCheckedOut"

theorem cancel_ends_checkout_witness:
  "liveFor ''k'' sampleCancelled = None \<and> (\<exists>x. findById ''k'' False sampleCancelled = Some x \<and> dStatus x = PUBLISHED)"
proof -
  have "\<not> isl (cancelCheckOut sampleRequest ''k'' sampleCheckedOut)" by code_simp
  then obtain x where "cancelCheckOut sampleRequest ''k'' sampleCheckedOut = Inr (x, sampleCancelled)"
    unfolding sampleCancelled_def by (blast dest: exec_run)
  from cancel_ends_checkout [OF sampleStart_start sampleCheckedOut_reachable this] show ?thesis by blast
qed


subsection \<open>Two gaps of the lifecycle\<close>

text \<open>
  \<open>reinstate\<close> does not ask that the document is archived. From a reachable state in which the
  document is checked out it commits, publishes the document, and leaves the lock standing: afterwards
  the document is \<open>PUBLISHED\<close> and locked, and every further check-out is refused as long as the lock
  stands, although the status says nobody has claimed it.
\<close>

definition sampleReinstated :: doc_state where
  "sampleReinstated = exec (reinstateDocument samplePorts sampleRequest ''k'' (Some 7) ''again'') sampleCheckedOut"

theorem reinstate_strands_lock:
  "document_step\<^sup>*\<^sup>* sampleStart sampleCheckedOut \<and>
   reinstateDocument samplePorts sampleRequest ''k'' (Some 7) ''again'' sampleCheckedOut = Inr ((), sampleReinstated) \<and>
   map (\<lambda>d. (dId d, dStatus d)) (docs sampleReinstated) = [(''k'', PUBLISHED)] \<and>
   map (\<lambda>l. (lDocumentId l, lReleasedAt l)) (locks sampleReinstated) = [(''k'', None)] \<and>
   fst (runTx (checkOut samplePorts otherRequest ''k'') sampleReinstated) = Inl (DocumentLockedError ''ana'' 28801000)"
proof -
  have "\<not> isl (reinstateDocument samplePorts sampleRequest ''k'' (Some 7) ''again'' sampleCheckedOut)" by code_simp
  then obtain x where "reinstateDocument samplePorts sampleRequest ''k'' (Some 7) ''again'' sampleCheckedOut
      = Inr (x, sampleReinstated)"
    unfolding sampleReinstated_def by (blast dest: exec_run)
  moreover have "map (\<lambda>d. (dId d, dStatus d)) (docs sampleReinstated) = [(''k'', PUBLISHED)]" by code_simp
  moreover have "map (\<lambda>l. (lDocumentId l, lReleasedAt l)) (locks sampleReinstated) = [(''k'', None)]" by code_simp
  moreover have "fst (runTx (checkOut samplePorts otherRequest ''k'') sampleReinstated)
      = Inl (DocumentLockedError ''ana'' 28801000)" by code_simp
  ultimately show ?thesis using sampleCheckedOut_reachable by simp
qed

text \<open>
  a check-out taken from \<open>EXPIRED\<close> and cancelled leaves the document \<open>PUBLISHED\<close>: the expiry of
  its effective window is undone by a check-out that changed nothing.
\<close>

definition sampleExpired :: doc_state where
  "sampleExpired = exec (expireOne samplePorts sampleRequest ''UTC'' (''k'', ''ki'', ''2026-12-31'')) samplePublished"

definition sampleExpiredOut :: doc_state where
  "sampleExpiredOut = exec (checkOut samplePorts sampleRequest ''k'') sampleExpired"

definition sampleExpiredBack :: doc_state where
  "sampleExpiredBack = exec (cancelCheckOut sampleRequest ''k'') sampleExpiredOut"

theorem cancel_undoes_expiry:
  "document_step\<^sup>*\<^sup>* sampleStart sampleExpired \<and> document_step\<^sup>*\<^sup>* sampleExpired sampleExpiredBack \<and>
   map (\<lambda>d. (dId d, dStatus d)) (docs sampleExpired) = [(''k'', EXPIRED)] \<and>
   map (\<lambda>d. (dId d, dStatus d)) (docs sampleExpiredBack) = [(''k'', PUBLISHED)]"
proof -
  have "document_step\<^sup>*\<^sup>* sampleStart sampleExpired"
    unfolding sampleExpired_def by (rule exec_step_after [OF samplePublished_reachable]) (rule document_step.expire)
  moreover have "document_step\<^sup>*\<^sup>* sampleExpired sampleExpiredBack"
    unfolding sampleExpiredBack_def sampleExpiredOut_def
    by (intro exec_step_after rtranclp.rtrancl_refl) (auto intro: document_step.intros)
  moreover have "map (\<lambda>d. (dId d, dStatus d)) (docs sampleExpired) = [(''k'', EXPIRED)]" by code_simp
  moreover have "map (\<lambda>d. (dId d, dStatus d)) (docs sampleExpiredBack) = [(''k'', PUBLISHED)]" by code_simp
  ultimately show ?thesis by blast
qed

subsection \<open>Deletion\<close>

text \<open>
  a document's own delete is refused, and nothing is committed, unless the lifecycle table has an
  edge from its status to \<open>DELETED\<close> and no live legal hold stands on it.
\<close>

theorem remove_guarded:
  assumes "findById i False s = Some d"
    and "\<not> isLegalTransition (dStatus d) DELETED \<or> liveHolds p i > 0"
  shows "\<exists>e. runTx (removeDocument p rq i v why) s = (Inl e, s)"
proof -
  have "\<nexists>x s'. removeDocument p rq i v why s = Inr (x, s')"
    using assms by (auto simp: removeDocument_def bindT_Inr writeT_Inr thenT_Inr requireDocument_Inr
        refuseWhenFrozenForDelete_def requireReason_def)
  then show ?thesis by (cases "removeDocument p rq i v why s") (auto simp: runTx_def)
qed

theorem remove_guarded_witness:
  "\<exists>e. runTx (removeDocument samplePorts sampleRequest ''k'' (Some 6) ''old'') samplePublished = (Inl e, samplePublished)"
proof -
  have "map_option dStatus (findById ''k'' False samplePublished) = Some PUBLISHED" by code_simp
  then obtain d where d: "findById ''k'' False samplePublished = Some d" "dStatus d = PUBLISHED" by auto
  moreover have "\<not> isLegalTransition PUBLISHED DELETED" by code_simp
  ultimately show ?thesis using remove_guarded [OF d(1)] by simp
qed

text \<open>
  the delete of a folder takes every document under its path, whatever its status: a published
  document whose own delete the lifecycle refuses goes to the recycle bin with its folder.
\<close>

definition sampleFolderDeleted :: doc_state where
  "sampleFolderDeleted = exec (deleteUnder samplePorts sampleRequest (\<lambda>i. i) ''qa'' ''c1'') samplePublished"

theorem folder_delete_ignores_lifecycle:
  "\<not> isLegalTransition PUBLISHED DELETED \<and>
   map (\<lambda>d. (dId d, dStatus d, dDeletedAt d)) (docs samplePublished) = [(''k'', PUBLISHED, None)] \<and>
   deleteUnder samplePorts sampleRequest (\<lambda>i. i) ''qa'' ''c1'' samplePublished = Inr (1, sampleFolderDeleted) \<and>
   map (\<lambda>d. (dId d, dStatus d, dDeletedAt d)) (docs sampleFolderDeleted) = [(''k'', PUBLISHED, Some 1000)]"
proof -
  have "\<not> isl (deleteUnder samplePorts sampleRequest (\<lambda>i. i) ''qa'' ''c1'' samplePublished)" by code_simp
  then obtain n where run: "deleteUnder samplePorts sampleRequest (\<lambda>i. i) ''qa'' ''c1'' samplePublished
      = Inr (n, sampleFolderDeleted)"
    unfolding sampleFolderDeleted_def by (blast dest: exec_run)
  have "fst (runTx (deleteUnder samplePorts sampleRequest (\<lambda>i. i) ''qa'' ''c1'') samplePublished) = Inr 1" by code_simp
  then have "n = 1" using run by (simp add: runTx_def)
  moreover have "\<not> isLegalTransition PUBLISHED DELETED" by code_simp
  moreover have "map (\<lambda>d. (dId d, dStatus d, dDeletedAt d)) (docs samplePublished) = [(''k'', PUBLISHED, None)]"
    by code_simp
  moreover have "map (\<lambda>d. (dId d, dStatus d, dDeletedAt d)) (docs sampleFolderDeleted) = [(''k'', PUBLISHED, Some 1000)]"
    by code_simp
  ultimately show ?thesis using run by blast
qed


subsection \<open>A tenant that may not write\<close>

text \<open>
  C18: when the tenant is not \<open>ACTIVE\<close>, no document use case commits, whatever the request.
\<close>

lemma writeT_none: "tenantStatus rq \<notin> {None, Some ACTIVE} \<Longrightarrow> writeT rq m s \<noteq> Inr r"
  by (cases r) (auto simp: writeT_Inr)



end
