(* ===== verification/Recycle_Bin.thy ===== *)
theory Recycle_Bin
  imports Check_Out_Properties
begin

text \<open>
  The recycle bin: what a delete followed by a restore gives back. The cascade identifier is what ties
  the rows of one delete together, and the round trip rests on its being new.
\<close>

subsection \<open>Reference counts given back and taken again\<close>

definition shifted :: "(ident \<Rightarrow> int) \<Rightarrow> file_object \<Rightarrow> file_object" where
  "shifted delta f = (if fDeletedAt f = None then f\<lparr>fRefCount := fRefCount f + delta (fId f)\<rparr> else f)"

lemma shifted_simps [simp]:
  "fId (shifted delta f) = fId f" "fDeletedAt (shifted delta f) = fDeletedAt f"
  by (simp_all add: shifted_def)

lemma map_shifted_0: "map (shifted (\<lambda>_. 0)) fs = fs"
  by (induction fs) (auto simp: shifted_def)

lemma map_shifted_shifted: "map (shifted b) (map (shifted a) fs) = map (shifted (\<lambda>f. a f + b f)) fs"
  by (auto simp: shifted_def)

lemma adjustRefCount_files:
  "adjustRefCount i delta s = Inr (u, s') \<Longrightarrow> files s' = map (shifted (\<lambda>f. if f = i then delta else 0)) (files s)"
  by (auto simp: adjustRefCount_def tx_Inr_simps Let_def updateWhere_def shifted_def)

lemma dereferenceCascaded_files:
  "dereferenceCascaded xs s = Inr (u, s') \<Longrightarrow> files s' = map (shifted (\<lambda>f. - cascadedTo xs f)) (files s)"
proof (induction xs arbitrary: s u)
  case Nil
  then show ?case by (simp add: dereferenceCascaded_def map_shifted_0)
next
  case (Cons x xs)
  obtain f b where x: "x = (f, b)" by (cases x)
  from Cons.prems obtain s1 where one: "whenT b (dereference f) s = Inr ((), s1)"
    and rest: "dereferenceCascaded xs s1 = Inr (u, s')"
    by (auto simp: x dereferenceCascaded_def thenT_Inr)
  have "files s1 = map (shifted (\<lambda>g. if g = f \<and> b then -1 else 0)) (files s)"
    using one by (cases b) (auto simp: whenT_Inr dereference_def map_shifted_0 dest!: adjustRefCount_files)
  then show ?case
    using Cons.IH [OF rest] by (auto simp: x shifted_def)
qed

lemma referenceCascaded_files:
  "referenceCascaded xs s = Inr (u, s') \<Longrightarrow> files s' = map (shifted (cascadedTo xs)) (files s)"
proof (induction xs arbitrary: s u)
  case Nil
  then show ?case by (simp add: referenceCascaded_def map_shifted_0 flip: map_shifted_0)
next
  case (Cons x xs)
  obtain f b where x: "x = (f, b)" by (cases x)
  from Cons.prems obtain s1 where one: "whenT b (reference f) s = Inr ((), s1)"
    and rest: "referenceCascaded xs s1 = Inr (u, s')"
    by (auto simp: x referenceCascaded_def thenT_Inr)
  have "files s1 = map (shifted (\<lambda>g. if g = f \<and> b then 1 else 0)) (files s)"
    using one by (cases b) (auto simp: whenT_Inr reference_def map_shifted_0 dest!: adjustRefCount_files)
  then show ?case
    using Cons.IH [OF rest] by (auto simp: x shifted_def)
qed

subsection \<open>Revisions stamped and restored\<close>

lemma cascadeDelete_run:
  assumes "cascadeDelete rq i c s = Inr (xs, s')" and "distinct (map rId (revs s))"
  shows "revs s' = updateWhere (\<lambda>r. rDocumentId r = i \<and> rDeletedAt r = None)
           (\<lambda>r. r\<lparr>rDeletedAt := Some (now rq), rDeleteCascadeId := Some c\<rparr>) (revs s)"
    and "xs = map toCascaded (filter (\<lambda>r. rDocumentId r = i \<and> rDeletedAt r = None) (revs s))"
proof -
  let ?rows = "filter (\<lambda>r. rDocumentId r = i \<and> rDeletedAt r = None) (revs s)"
  have same: "rId r \<in> rId ` set ?rows \<longleftrightarrow> rDocumentId r = i \<and> rDeletedAt r = None" if "r \<in> set (revs s)" for r
    using distinct_map_eq [OF assms(2)] that by (auto simp: image_iff)
  show "revs s' = updateWhere (\<lambda>r. rDocumentId r = i \<and> rDeletedAt r = None)
           (\<lambda>r. r\<lparr>rDeletedAt := Some (now rq), rDeleteCascadeId := Some c\<rparr>) (revs s)"
    using assms(1) same by (auto simp: cascadeDelete_def tx_Inr_simps updateWhere_def simp del: set_filter intro!: map_cong)
  show "xs = map toCascaded ?rows" using assms(1) by (auto simp: cascadeDelete_def tx_Inr_simps)
qed

lemma restoreCascade_run:
  assumes "restoreCascade i c s = Inr (xs, s')" and "distinct (map rId (revs s))"
  shows "revs s' = updateWhere (\<lambda>r. rDocumentId r = i \<and> rDeleteCascadeId r = Some c \<and> rDeletedAt r \<noteq> None)
           (\<lambda>r. r\<lparr>rDeletedAt := None, rDeleteCascadeId := None\<rparr>) (revs s)"
    and "xs = map toCascaded (filter (\<lambda>r. rDocumentId r = i \<and> rDeleteCascadeId r = Some c \<and> rDeletedAt r \<noteq> None) (revs s))"
proof -
  let ?rows = "filter (\<lambda>r. rDocumentId r = i \<and> rDeleteCascadeId r = Some c \<and> rDeletedAt r \<noteq> None) (revs s)"
  have same: "rId r \<in> rId ` set ?rows \<longleftrightarrow> rDocumentId r = i \<and> rDeleteCascadeId r = Some c \<and> rDeletedAt r \<noteq> None"
    if "r \<in> set (revs s)" for r
    using distinct_map_eq [OF assms(2)] that by (auto simp: image_iff)
  show "revs s' = updateWhere (\<lambda>r. rDocumentId r = i \<and> rDeleteCascadeId r = Some c \<and> rDeletedAt r \<noteq> None)
           (\<lambda>r. r\<lparr>rDeletedAt := None, rDeleteCascadeId := None\<rparr>) (revs s)"
    using assms(1) same by (auto simp: restoreCascade_def tx_Inr_simps updateWhere_def simp del: set_filter intro!: map_cong)
  show "xs = map toCascaded ?rows" using assms(1) by (auto simp: restoreCascade_def tx_Inr_simps)
qed

text \<open>A cascade identifier no row carries yet separates the rows of this delete from all others.\<close>

lemma stamp_then_restore:
  fixes rs :: "revision_row list"
  assumes fresh: "\<forall>r \<in> set rs. rDeleteCascadeId r \<noteq> Some c"
    and live: "\<forall>r \<in> set rs. rDeletedAt r = None \<longrightarrow> rDeleteCascadeId r = None"
    and P: "P = (\<lambda>r. rDocumentId r = i \<and> rDeletedAt r = None)"
    and Q: "Q = (\<lambda>r. rDocumentId r = i \<and> rDeleteCascadeId r = Some c \<and> rDeletedAt r \<noteq> None)"
    and g: "g = (\<lambda>r. r\<lparr>rDeletedAt := Some t, rDeleteCascadeId := Some c\<rparr>)"
  shows "updateWhere Q (\<lambda>r. r\<lparr>rDeletedAt := None, rDeleteCascadeId := None\<rparr>) (updateWhere P g rs) = rs"
    and "map toCascaded (filter Q (updateWhere P g rs)) = map toCascaded (filter P rs)"
proof -
  let ?h = "\<lambda>r. if P r then g r else r"
  have at: "Q (?h r) = P r" "(if Q (?h r) then (?h r)\<lparr>rDeletedAt := None, rDeleteCascadeId := None\<rparr> else ?h r) = r"
    if "r \<in> set rs" for r
    using fresh live that by (auto simp: P Q g)
  have "map (\<lambda>r. if Q (?h r) then (?h r)\<lparr>rDeletedAt := None, rDeleteCascadeId := None\<rparr> else ?h r) rs = rs"
    by (rule map_idI) (rule at(2))
  then show "updateWhere Q (\<lambda>r. r\<lparr>rDeletedAt := None, rDeleteCascadeId := None\<rparr>) (updateWhere P g rs) = rs"
    by (simp add: updateWhere_def comp_def)
  have "filter Q (map ?h rs) = map ?h (filter P rs)"
    unfolding filter_map comp_def using at(1) by (simp cong: filter_cong)
  then show "map toCascaded (filter Q (updateWhere P g rs)) = map toCascaded (filter P rs)"
    by (simp add: updateWhere_def comp_def) (simp add: g toCascaded_def)
qed

subsection \<open>The round trip\<close>

lemma leaves_cascaded:
  "leaves docs (dereferenceCascaded xs)" "leaves revs (dereferenceCascaded xs)"
  "leaves docs (referenceCascaded xs)" "leaves revs (referenceCascaded xs)"
  unfolding dereferenceCascaded_def referenceCascaded_def by (intro leaves_intros)+

lemma removeDocument_run:
  assumes "removeDocument p rq i v why s = Inr (u, s')"
  obtains d m1 xs m2 m3 where
    "findById i False s = Some d"
    and "setDeleted rq i (dVersion d) True (Some (squish why)) (Some (mkId rq (serial s)))
           (s\<lparr>serial := Suc (serial s)\<rparr>) = Inr ((), m1)"
    and "cascadeDelete rq i (mkId rq (serial s)) m1 = Inr (xs, m2)"
    and "dereferenceCascaded xs m2 = Inr ((), m3)"
    and "docs s' = docs m3" and "revs s' = revs m3" and "files s' = files m3"
  using assms
  by (auto simp: removeDocument_def requireReason_def bindT_Inr writeT_Inr thenT_Inr requireDocument_Inr
      onTrigger_def refuseWhenFrozenForDelete_def)

lemma restoreDocument_run:
  assumes "restoreDocument p rq i v s = Inr (u, s')" and "findById i True s = Some d" and "dDeletedAt d \<noteq> None"
    and "cascadeIdOf i s = Some c"
  obtains m1 xs m2 m3 where
    "setDeleted rq i (dVersion d) False None None s = Inr ((), m1)"
    and "restoreCascade i c m1 = Inr (xs, m2)" and "referenceCascaded xs m2 = Inr ((), m3)"
    and "docs s' = docs m3" and "revs s' = revs m3" and "files s' = files m3"
  using assms
  by (auto simp: restoreDocument_def bindT_Inr writeT_Inr thenT_Inr requireDocument_Inr onRestored_def)

lemma setDeleted_docs:
  "setDeleted rq i v b why c s = Inr (u, s') \<Longrightarrow> docs s' = updateWhere (\<lambda>d. dId d = i \<and> dVersion d = v)
     (\<lambda>d. d\<lparr>dDeletedAt := (if b then Some (now rq) else None), dDeleteReason := (if b then why else None),
           dDeleteCascadeId := (if b then c else None), dVersion := v + 1\<rparr>) (docs s)"
  by (auto simp: setDeleted_def versioned_def tx_Inr_simps Let_def split: if_splits)

lemma removed_row:
  assumes "distinct (map dId ds)" and "d \<in> set ds" and "dId d = i"
    and "ds' = updateWhere (\<lambda>e. dId e = i \<and> dVersion e = dVersion d) f ds" and "dId (f d) = i"
  shows "List.find (\<lambda>e. dId e = i) ds' = Some (f d)"
proof -
  have "List.find (\<lambda>e. dId e = i) ds = Some d"
    using assms(1-3) by (induction ds) auto
  moreover have "dId (f e) = dId e" if "dId e = i \<and> dVersion e = dVersion d" "e \<in> set ds" for e
    using distinct_map_eq [OF assms(1) that(2) assms(2)] that(1) assms(3,5) by simp
  ultimately show ?thesis
    using assms(3,5) unfolding assms(4) by (induction ds) (auto simp: updateWhere_def)
qed

text \<open>
  C17: restoring a document that was just removed gives back every revision and every reference
  count, and changes of the document row only the version and the delete stamp, when the cascade
  identifier of the delete is new.
\<close>

theorem remove_restore_round_trip:
  assumes start: "document_start s0" and reach: "document_step\<^sup>*\<^sup>* s0 s"
    and rm: "removeDocument p rq i v why s = Inr (u, s1)" and undo: "restoreDocument p' rq' i v' s1 = Inr (u', s2)"
    and fresh: "\<forall>r \<in> set (revs s). rDeleteCascadeId r \<noteq> Some (mkId rq (serial s))"
    and live: "\<forall>r \<in> set (revs s). rDeletedAt r = None \<longrightarrow> rDeleteCascadeId r = None"
  shows "revs s2 = revs s \<and> files s2 = files s \<and>
    docs s2 = updateWhere (\<lambda>d. dId d = i)
      (\<lambda>d. d\<lparr>dVersion := dVersion d + 2, dDeleteReason := None, dDeleteCascadeId := None\<rparr>) (docs s)"
proof -
  let ?c = "mkId rq (serial s)"
  have ids: "distinct (map dId (docs s))" and rids: "distinct (map rId (revs s))"
    using reachable_parts(1,2) [OF start reach] by (auto simp: docs_ok_def revs_ok_def)
  obtain d m1 xs m2 m3 where d: "findById i False s = Some d"
    and del: "setDeleted rq i (dVersion d) True (Some (squish why)) (Some ?c) (s\<lparr>serial := Suc (serial s)\<rparr>) = Inr ((), m1)"
    and cd: "cascadeDelete rq i ?c m1 = Inr (xs, m2)" and de: "dereferenceCascaded xs m2 = Inr ((), m3)"
    and s1: "docs s1 = docs m3" "revs s1 = revs m3" "files s1 = files m3"
    using rm by (rule removeDocument_run)
  note dm = findById_Some [OF d]
  let ?f = "\<lambda>e. e\<lparr>dDeletedAt := Some (now rq), dDeleteReason := Some (squish why),
       dDeleteCascadeId := Some ?c, dVersion := dVersion d + 1\<rparr>"
  have docs1: "docs s1 = updateWhere (\<lambda>e. dId e = i \<and> dVersion e = dVersion d) ?f (docs s)"
    using setDeleted_docs [OF del] leavesD [OF leaves_revision_ops(10) cd] leavesD [OF leaves_cascaded(1) de] s1 by simp
  have row1: "List.find (\<lambda>e. dId e = i) (docs s1) = Some (?f d)"
    using removed_row [OF ids _ _ docs1] dm by simp
  obtain n1 ys n2 n3 where und: "setDeleted rq' i (dVersion d + 1) False None None s1 = Inr ((), n1)"
    and rc: "restoreCascade i ?c n1 = Inr (ys, n2)" and re: "referenceCascaded ys n2 = Inr ((), n3)"
    and s2: "docs s2 = docs n3" "revs s2 = revs n3" "files s2 = files n3"
    by (rule restoreDocument_run [OF undo, of "?f d" ?c]) (simp_all add: findById_def cascadeIdOf_def row1)
  let ?P = "\<lambda>r. rDocumentId r = i \<and> rDeletedAt r = None"
  let ?g = "\<lambda>r. r\<lparr>rDeletedAt := Some (now rq), rDeleteCascadeId := Some ?c\<rparr>"
  have revs1: "revs s1 = updateWhere ?P ?g (revs s)" and xs: "xs = map toCascaded (filter ?P (revs s))"
    using cascadeDelete_run [OF cd] leavesD [OF leaves_setDeleted(1) del] leavesD [OF leaves_cascaded(2) de] rids s1
    by simp_all
  have "distinct (map rId (revs n1))"
    using leavesD [OF leaves_setDeleted(1) und] rids by (simp add: revs1 map_updateWhere)
  note rr = restoreCascade_run [OF rc this]
  note sr = stamp_then_restore [OF fresh live refl refl refl, of i "now rq"]
  have "revs s2 = revs s" and ys: "ys = xs"
    using rr sr leavesD [OF leaves_setDeleted(1) und] leavesD [OF leaves_cascaded(4) re] revs1 xs s2 by simp_all
  moreover have "files s2 = files s"
  proof -
    have "files s1 = map (shifted (\<lambda>f. - cascadedTo xs f)) (files s)"
      using dereferenceCascaded_files [OF de] leavesD [OF leaves_revision_ops(12) cd] leavesD [OF leaves_setDeleted(3) del] s1
      by simp
    moreover have "files s2 = map (shifted (cascadedTo ys)) (files s1)"
      using referenceCascaded_files [OF re] leavesD [OF leaves_revision_ops(15) rc] leavesD [OF leaves_setDeleted(3) und] s2
      by simp
    ultimately show ?thesis by (simp only: ys map_shifted_shifted add.left_inverse map_shifted_0)
  qed
  moreover have "docs s2 = updateWhere (\<lambda>e. dId e = i \<and> dVersion e = dVersion d + 1)
      (\<lambda>e. e\<lparr>dDeletedAt := None, dDeleteReason := None, dDeleteCascadeId := None, dVersion := dVersion d + 2\<rparr>) (docs s1)"
    using setDeleted_docs [OF und] leavesD [OF leaves_revision_ops(13) rc] leavesD [OF leaves_cascaded(3) re] s2
    by (simp add: add.assoc)
  moreover have "e = d" if "e \<in> set (docs s)" "dId e = i" for e
    using distinct_map_eq [OF ids that(1), of d] dm that(2) by simp
  ultimately show ?thesis
    using dm by (auto simp: docs1 updateWhere_def intro!: map_cong) (rule document_row.equality; fastforce)
qed

definition sampleDraft :: doc_state where
  "sampleDraft = exec (createDocument samplePorts sampleRequest sampleDocument) sampleStart"

definition sampleRemoved :: doc_state where
  "sampleRemoved = exec (removeDocument samplePorts sampleRequest ''k'' (Some 1) ''old'') sampleDraft"

definition sampleRestored :: doc_state where
  "sampleRestored = exec (restoreDocument samplePorts sampleRequest ''k'' None) sampleRemoved"

lemma sampleDraft_reachable: "document_step\<^sup>*\<^sup>* sampleStart sampleDraft"
  unfolding sampleDraft_def by (rule exec_step) (rule document_step.create)

theorem remove_restore_round_trip_witness:
  "revs sampleRestored = revs sampleDraft \<and> files sampleRestored = files sampleDraft"
proof -
  have "\<not> isl (removeDocument samplePorts sampleRequest ''k'' (Some 1) ''old'' sampleDraft)" by code_simp
  then obtain u where rm: "removeDocument samplePorts sampleRequest ''k'' (Some 1) ''old'' sampleDraft = Inr (u, sampleRemoved)"
    unfolding sampleRemoved_def by (blast dest: exec_run)
  have "\<not> isl (restoreDocument samplePorts sampleRequest ''k'' None sampleRemoved)" by code_simp
  then obtain u' where undo: "restoreDocument samplePorts sampleRequest ''k'' None sampleRemoved = Inr (u', sampleRestored)"
    unfolding sampleRestored_def by (blast dest: exec_run)
  have "map (\<lambda>r. (rDeleteCascadeId r, rDeletedAt r)) (revs sampleDraft) = [(None, None)]" by code_simp
  then obtain r where "revs sampleDraft = [r]" "rDeleteCascadeId r = None" by (auto simp: map_eq_Cons_conv)
  then show ?thesis
    using remove_restore_round_trip [OF sampleStart_start sampleDraft_reachable rm undo] by simp
qed

end
