(* ===== verification/Acl_Walk.thy ===== *)
theory Acl_Walk
  imports Prelude
begin

text \<open>
  The access decision as arithmetic over a chain that has been read:
  \<open>src/apps/api/src/modules/library/domain/acl-walk.ts\<close> and \<open>acl-subjects.ts\<close>, with
  \<open>survivesBrokenInheritance\<close> of \<open>src/packages/domain/src/permissions.ts\<close>. A chain is ancestor-first:
  the tenant at the head, the object last.

  The section on the walk relates the loop to its declarative meaning; the last section shows that the
  token sets stored in the search index answer exactly what the walk answers.
\<close>

subsection \<open>Permissions\<close>

definition ALL_PERMISSIONS :: "string list" where
  "ALL_PERMISSIONS =
     [''document:view'', ''document:download'', ''document:print'', ''document:create'', ''document:edit'',
      ''document:submit'', ''document:approve'', ''document:reject'', ''document:publish'',
      ''document:checkout'', ''document:checkin'', ''document:force-checkin'', ''document:move'',
      ''document:archive'', ''document:delete'', ''document:restore'', ''document:history:view'',
      ''document:permission:manage'', ''document:sign'', ''template:manage'', ''library:view'',
      ''library:manage'', ''folder:manage'', ''workflow:manage'', ''delegation:manage'',
      ''notification:manage'', ''numbering:manage'', ''retention:manage'', ''legal-hold:manage'',
      ''audit:view'', ''audit:export'', ''search:all'', ''report:view'', ''report:manage'', ''user:manage'',
      ''role:manage'', ''org:manage'', ''settings:manage'', ''integration:manage'', ''configuration:view'',
      ''directory:view'']"

definition isPermissionKey :: "string \<Rightarrow> bool" where
  "isPermissionKey value \<longleftrightarrow> value \<in> set ALL_PERMISSIONS"

definition INHERITANCE_PROOF_PERMISSIONS :: "string list" where
  "INHERITANCE_PROOF_PERMISSIONS =
     filter (\<lambda>key. endsWith key '':manage'' \<or> startsWith key ''audit:'') ALL_PERMISSIONS"

definition survivesBrokenInheritance :: "string \<Rightarrow> bool" where
  "survivesBrokenInheritance permission \<longleftrightarrow> permission \<in> set INHERITANCE_PROOF_PERMISSIONS"

subsection \<open>Chains and entries\<close>

datatype scope_type = TENANT | COMPANY | ENTITY | DEPARTMENT | LIBRARY | FOLDER | DOCUMENT

record scope_ref =
  scType :: scope_type
  scId :: ident

record chain_node =
  cnScope :: scope_ref
  cnBreaks :: bool
  cnPath :: "string option"

datatype subject_type = USER | ROLE | DEPARTMENT_SUBJECT

datatype effect = ALLOW | DENY

record chain_entry =
  ceScopeId :: ident
  ceSubjectType :: subject_type
  ceSubjectId :: ident
  ceEffect :: effect

datatype decision_reason =
  REASON_ALLOW | REASON_DENY | ROLE_GRANT | CLOSED_BY_DEFAULT | STATE | CONFIDENTIALITY

record walk_outcome =
  allowed :: bool
  decidedAt :: "scope_ref option"
  decisionReason :: decision_reason

subsection \<open>The walk\<close>

text \<open>The loop from the last index down to the first break.\<close>

fun breakLoop :: "chain_node list \<Rightarrow> nat \<Rightarrow> chain_node list" where
  "breakLoop chain 0 = chain"
| "breakLoop chain (Suc index) =
     (if cnBreaks (chain ! index) then drop index chain else breakLoop chain index)"

definition effectiveChain :: "chain_node list \<Rightarrow> string \<Rightarrow> chain_node list" where
  "effectiveChain chain permission =
     (if survivesBrokenInheritance permission then chain else breakLoop chain (length chain))"

definition reachesTenant :: "chain_node list \<Rightarrow> bool" where
  "reachesTenant effective \<longleftrightarrow>
     (case effective of [] \<Rightarrow> False | n # _ \<Rightarrow> scType (cnScope n) = TENANT)"

definition byScope :: "chain_entry list \<Rightarrow> ident \<Rightarrow> chain_entry list" where
  "byScope entries i = filter (\<lambda>e. ceScopeId e = i) entries"

text \<open>The two running answers of the nested loop, the nearest allow and the nearest deny.\<close>

definition noteEntry ::
  "scope_ref \<Rightarrow> scope_ref option \<times> scope_ref option \<Rightarrow> chain_entry \<Rightarrow> scope_ref option \<times> scope_ref option" where
  "noteEntry scope acc entry =
     (case acc of (nearestAllow, nearestDeny) \<Rightarrow>
        if ceEffect entry = DENY then (nearestAllow, Some scope) else (Some scope, nearestDeny))"

definition nearest ::
  "chain_node list \<Rightarrow> chain_entry list \<Rightarrow> scope_ref option \<times> scope_ref option" where
  "nearest effective entries =
     foldl (\<lambda>acc node. foldl (noteEntry (cnScope node)) acc (byScope entries (scId (cnScope node))))
       (None, None) effective"

definition decideFromEntries :: "chain_node list \<Rightarrow> chain_entry list \<Rightarrow> bool \<Rightarrow> walk_outcome" where
  "decideFromEntries effective entries holdsRoleGrant =
     (case nearest effective entries of
        (_, Some deny) \<Rightarrow> \<lparr>allowed = False, decidedAt = Some deny, decisionReason = REASON_DENY\<rparr>
      | (Some allow, None) \<Rightarrow> \<lparr>allowed = True, decidedAt = Some allow, decisionReason = REASON_ALLOW\<rparr>
      | (None, None) \<Rightarrow>
          if holdsRoleGrant \<and> reachesTenant effective
          then \<lparr>allowed = True, decidedAt = map_option cnScope (case effective of [] \<Rightarrow> None | n # _ \<Rightarrow> Some n),
                decisionReason = ROLE_GRANT\<rparr>
          else \<lparr>allowed = False, decidedAt = None, decisionReason = CLOSED_BY_DEFAULT\<rparr>)"

subsection \<open>Subject tokens\<close>

definition userSubjectToken :: "ident \<Rightarrow> string" where
  "userSubjectToken userId = ''user:'' @ userId"

definition roleSubjectToken :: "ident \<Rightarrow> string" where
  "roleSubjectToken roleId = ''role:'' @ roleId"

definition departmentSubjectToken :: "ident \<Rightarrow> string" where
  "departmentSubjectToken departmentId = ''department:'' @ departmentId"

definition grantSubjectToken :: "string \<Rightarrow> string" where
  "grantSubjectToken permission = ''grant:'' @ permission"

definition subjectToken :: "chain_entry \<Rightarrow> string" where
  "subjectToken entry =
     (case ceSubjectType entry of
        USER \<Rightarrow> userSubjectToken (ceSubjectId entry)
      | ROLE \<Rightarrow> roleSubjectToken (ceSubjectId entry)
      | DEPARTMENT_SUBJECT \<Rightarrow> departmentSubjectToken (ceSubjectId entry))"

record caller =
  caUserId :: ident
  caRoleIds :: "ident list"
  caDepartmentIds :: "ident list"

definition callerSubjectTokens :: "caller \<Rightarrow> string list \<Rightarrow> string list" where
  "callerSubjectTokens c grantedPermissions =
     (if caUserId c = [] then [] else [userSubjectToken (caUserId c)])
     @ map roleSubjectToken (caRoleIds c)
     @ map departmentSubjectToken (caDepartmentIds c)
     @ map grantSubjectToken grantedPermissions"

definition callerSubjectIds :: "caller \<Rightarrow> ident list" where
  "callerSubjectIds c =
     (if caUserId c = [] then [] else [caUserId c]) @ caRoleIds c @ caDepartmentIds c"

text \<open>\<open>Set.add\<close>: insertion order, no duplicates.\<close>

definition addTo :: "'a list \<Rightarrow> 'a \<Rightarrow> 'a list" where
  "addTo xs x = (if x \<in> set xs then xs else xs @ [x])"

definition indexEntry ::
  "ident list \<Rightarrow> string list \<times> string list \<Rightarrow> chain_entry \<Rightarrow> string list \<times> string list" where
  "indexEntry onChain acc entry =
     (case acc of (allow, deny) \<Rightarrow>
        if ceScopeId entry \<notin> set onChain then (allow, deny)
        else if ceEffect entry = DENY then (allow, addTo deny (subjectToken entry))
        else (addTo allow (subjectToken entry), deny))"

definition indexSubjectsFromEntries ::
  "chain_node list \<Rightarrow> chain_entry list \<Rightarrow> string \<Rightarrow> string list \<times> string list" where
  "indexSubjectsFromEntries effective entries permission =
     (let onChain = map (\<lambda>n. scId (cnScope n)) effective;
          (allow, deny) = foldl (indexEntry onChain) ([], []) entries
      in (if reachesTenant effective then addTo allow (grantSubjectToken permission) else allow, deny))"

definition indexAclSubjects :: "string \<Rightarrow> string list \<times> string list" where
  "indexAclSubjects permission = ([grantSubjectToken permission], [])"

definition isAclScopeType :: "string \<Rightarrow> bool" where
  "isAclScopeType value \<longleftrightarrow>
     value = ''TENANT'' \<or> value = ''COMPANY'' \<or> value = ''ENTITY'' \<or> value = ''DEPARTMENT'' \<or>
     value = ''LIBRARY'' \<or> value = ''FOLDER'' \<or> value = ''DOCUMENT''"

text \<open>The clause of the search query: overlap with the allowed, none with the denied.\<close>

definition indexMatches :: "string list \<Rightarrow> string list \<times> string list \<Rightarrow> bool" where
  "indexMatches subjects stored \<longleftrightarrow>
     (\<exists>t \<in> set subjects. t \<in> set (fst stored)) \<and> \<not> (\<exists>t \<in> set subjects. t \<in> set (snd stored))"

subsection \<open>What the walk means\<close>

text \<open>The declarative reading of an entry list on a chain.\<close>

definition entryOn :: "chain_node list \<Rightarrow> chain_entry list \<Rightarrow> effect \<Rightarrow> bool" where
  "entryOn effective entries eff \<longleftrightarrow>
     (\<exists>n \<in> set effective. \<exists>e \<in> set entries. ceScopeId e = scId (cnScope n) \<and> ceEffect e = eff)"

lemma breakLoop_none: "(\<forall>j < i. \<not> cnBreaks (chain ! j)) \<Longrightarrow> breakLoop chain i = chain"
  by (induction i) auto

lemma breakLoop_deepest:
  "\<lbrakk>k < i; cnBreaks (chain ! k); \<forall>j. k < j \<and> j < i \<longrightarrow> \<not> cnBreaks (chain ! j)\<rbrakk> \<Longrightarrow> breakLoop chain i = drop k chain"
  by (induction i) (auto simp: less_Suc_eq)

lemma effectiveChain_whole:
  "(\<forall>n \<in> set chain. \<not> cnBreaks n) \<Longrightarrow> effectiveChain chain permission = chain"
  by (simp add: effectiveChain_def breakLoop_none)

lemma effectiveChain_cut:
  assumes "\<not> survivesBrokenInheritance permission" and "cnBreaks n" and "\<forall>m \<in> set low. \<not> cnBreaks m"
  shows "effectiveChain (up @ n # low) permission = n # low"
proof -
  have "breakLoop (up @ n # low) (length (up @ n # low)) = drop (length up) (up @ n # low)"
    by (rule breakLoop_deepest) (use assms in \<open>auto simp: nth_append nth_Cons split: nat.splits\<close>)
  then show ?thesis using assms(1) by (simp add: effectiveChain_def)
qed

lemma noteEntry_fold:
  "foldl (noteEntry sc) acc es =
     ((if \<exists>e \<in> set es. ceEffect e = ALLOW then Some sc else fst acc),
      (if \<exists>e \<in> set es. ceEffect e = DENY then Some sc else snd acc))"
proof (induction es arbitrary: acc)
  case (Cons e es)
  then show ?case by (cases "ceEffect e") (auto simp: noteEntry_def split: prod.splits)
qed simp

text \<open>The answer of the loop in closed form: the last node of the chain that carries such an entry.\<close>

definition lastOn :: "chain_node list \<Rightarrow> chain_entry list \<Rightarrow> effect \<Rightarrow> scope_ref option" where
  "lastOn effective entries eff =
     map_option cnScope (List.find
       (\<lambda>n. \<exists>e \<in> set entries. ceScopeId e = scId (cnScope n) \<and> ceEffect e = eff) (rev effective))"

lemma lastOn_snoc:
  "lastOn (ns @ [n]) es eff =
     (if \<exists>e \<in> set es. ceScopeId e = scId (cnScope n) \<and> ceEffect e = eff then Some (cnScope n) else lastOn ns es eff)"
  by (auto simp: lastOn_def)

lemma nearest_lastOn: "nearest effective entries = (lastOn effective entries ALLOW, lastOn effective entries DENY)"
proof (induction effective rule: rev_induct)
  case Nil
  then show ?case by (simp add: nearest_def lastOn_def)
next
  case (snoc n ns)
  have "nearest (ns @ [n]) entries = foldl (noteEntry (cnScope n)) (nearest ns entries) (byScope entries (scId (cnScope n)))"
    by (simp add: nearest_def)
  then show ?case
    by (auto simp: snoc noteEntry_fold lastOn_snoc byScope_def)
qed

lemma lastOn_None: "lastOn effective entries eff = None \<longleftrightarrow> \<not> entryOn effective entries eff"
  by (auto simp: lastOn_def entryOn_def find_None_iff_all)

lemma walk_deny_wins:
  "allowed (decideFromEntries effective entries holdsRoleGrant) \<longleftrightarrow>
      \<not> entryOn effective entries DENY \<and>
      (entryOn effective entries ALLOW \<or> holdsRoleGrant \<and> reachesTenant effective)"
  using lastOn_None [of effective entries DENY] lastOn_None [of effective entries ALLOW]
  by (auto simp: decideFromEntries_def nearest_lastOn split: option.splits)

text \<open>
  the decision is deny-wins: an entry that denies anywhere on the effective chain refuses, and the
  nearest such node is named; otherwise an entry that allows, again the nearest; otherwise the
  tenant-level grant, when the chain still reaches the tenant; otherwise closed.
\<close>

theorem walk_is_deny_wins:
  "decideFromEntries effective entries holdsRoleGrant =
    (if entryOn effective entries DENY
     then \<lparr>allowed = False, decidedAt = lastOn effective entries DENY, decisionReason = REASON_DENY\<rparr>
     else if entryOn effective entries ALLOW
     then \<lparr>allowed = True, decidedAt = lastOn effective entries ALLOW, decisionReason = REASON_ALLOW\<rparr>
     else if holdsRoleGrant \<and> reachesTenant effective
     then \<lparr>allowed = True, decidedAt = Some (cnScope (hd effective)), decisionReason = ROLE_GRANT\<rparr>
     else \<lparr>allowed = False, decidedAt = None, decisionReason = CLOSED_BY_DEFAULT\<rparr>)"
  using lastOn_None [of effective entries DENY] lastOn_None [of effective entries ALLOW]
  by (auto simp: decideFromEntries_def nearest_lastOn reachesTenant_def split: option.splits list.splits)

text \<open>
  an inheritance break cuts everything above it, the denials and the tenant-level grant included,
  for every permission that does not survive a break; and it is the deepest break that cuts.
\<close>

theorem break_isolates:
  assumes "\<not> survivesBrokenInheritance permission" and "cnBreaks n" and "\<forall>m \<in> set low. \<not> cnBreaks m"
    and "scType (cnScope n) \<noteq> TENANT"
  shows "effectiveChain (up @ n # low) permission = n # low \<and>
    \<not> reachesTenant (effectiveChain (up @ n # low) permission) \<and>
    (\<forall>entries grant. decideFromEntries (effectiveChain (up @ n # low) permission) entries grant
       = decideFromEntries (n # low) entries False)"
proof -
  have eff: "effectiveChain (up @ n # low) permission = n # low"
    by (rule effectiveChain_cut [OF assms(1-3)])
  moreover have "\<not> reachesTenant (n # low)" using assms(4) by (simp add: reachesTenant_def)
  ultimately show ?thesis by (auto simp: decideFromEntries_def split: option.splits)
qed

theorem break_isolates_witness:
  "effectiveChain [\<lparr>cnScope = \<lparr>scType = TENANT, scId = ''t''\<rparr>, cnBreaks = False, cnPath = None\<rparr>,
      \<lparr>cnScope = \<lparr>scType = FOLDER, scId = ''f''\<rparr>, cnBreaks = True, cnPath = Some ''f''\<rparr>] ''document:view''
   = [\<lparr>cnScope = \<lparr>scType = FOLDER, scId = ''f''\<rparr>, cnBreaks = True, cnPath = Some ''f''\<rparr>]"
proof -
  have "\<not> survivesBrokenInheritance ''document:view''" by code_simp
  then show ?thesis
    using break_isolates [of "''document:view''" "\<lparr>cnScope = \<lparr>scType = FOLDER, scId = ''f''\<rparr>, cnBreaks = True, cnPath = Some ''f''\<rparr>"
        "[]" "[\<lparr>cnScope = \<lparr>scType = TENANT, scId = ''t''\<rparr>, cnBreaks = False, cnPath = None\<rparr>]"] by simp
qed

subsection \<open>The search index answers what the walk answers\<close>

lemma set_addTo [simp]: "set (addTo xs x) = insert x (set xs)"
  by (auto simp: addTo_def)

lemma indexEntry_fold:
  "set (fst (foldl (indexEntry chain) acc es))
     = set (fst acc) \<union> subjectToken ` {e \<in> set es. ceScopeId e \<in> set chain \<and> ceEffect e = ALLOW} \<and>
   set (snd (foldl (indexEntry chain) acc es))
     = set (snd acc) \<union> subjectToken ` {e \<in> set es. ceScopeId e \<in> set chain \<and> ceEffect e = DENY}"
proof (induction es arbitrary: acc)
  case (Cons e es)
  show ?case
    using Cons [of "indexEntry chain acc e"]
    by (cases "ceEffect e") (auto simp: indexEntry_def split: prod.splits)
qed simp

lemma indexSubjects_sets:
  "set (fst (indexSubjectsFromEntries effective entries permission))
     = subjectToken ` {e \<in> set entries. ceScopeId e \<in> (\<lambda>n. scId (cnScope n)) ` set effective \<and> ceEffect e = ALLOW}
       \<union> (if reachesTenant effective then {grantSubjectToken permission} else {})"
  "set (snd (indexSubjectsFromEntries effective entries permission))
     = subjectToken ` {e \<in> set entries. ceScopeId e \<in> (\<lambda>n. scId (cnScope n)) ` set effective \<and> ceEffect e = DENY}"
  using indexEntry_fold [of "map (\<lambda>n. scId (cnScope n)) effective" "([], [])" entries]
  by (auto simp: indexSubjectsFromEntries_def Let_def split: prod.splits)

text \<open>The entry names the caller, its type taken into account.\<close>

definition names :: "caller \<Rightarrow> chain_entry \<Rightarrow> bool" where
  "names c e \<longleftrightarrow>
     (case ceSubjectType e of
        USER \<Rightarrow> caUserId c \<noteq> [] \<and> ceSubjectId e = caUserId c
      | ROLE \<Rightarrow> ceSubjectId e \<in> set (caRoleIds c)
      | DEPARTMENT_SUBJECT \<Rightarrow> ceSubjectId e \<in> set (caDepartmentIds c))"

lemma token_names: "subjectToken e \<in> set (callerSubjectTokens c granted) \<longleftrightarrow> names c e"
  by (cases "ceSubjectType e")
    (auto simp: subjectToken_def callerSubjectTokens_def names_def userSubjectToken_def roleSubjectToken_def
      departmentSubjectToken_def grantSubjectToken_def)

lemma grant_token: "grantSubjectToken p \<in> set (callerSubjectTokens c granted) \<longleftrightarrow> p \<in> set granted"
  by (auto simp: callerSubjectTokens_def userSubjectToken_def roleSubjectToken_def departmentSubjectToken_def
      grantSubjectToken_def)

text \<open>
  The walk reads the entries whose subject identifier is one of the caller's, whatever its type; the
  index compares typed tokens. The two agree when an identifier of one kind is never one of another.
\<close>

definition kindsDisjoint :: "caller \<Rightarrow> chain_entry list \<Rightarrow> bool" where
  "kindsDisjoint c entries \<longleftrightarrow>
     (\<forall>e \<in> set entries. ceSubjectId e \<in> set (callerSubjectIds c) \<longrightarrow> names c e)"

lemma names_ids: "names c e \<Longrightarrow> ceSubjectId e \<in> set (callerSubjectIds c)"
  by (auto simp: names_def callerSubjectIds_def split: subject_type.splits)

text \<open>
  For every caller, chain and entry list, the search predicate over the stored tokens matches exactly
  when the walk over the caller's own entries allows.
\<close>

lemma search_index_agreement:
  assumes "kindsDisjoint c entries"
  shows "indexMatches (callerSubjectTokens c granted) (indexSubjectsFromEntries effective entries permission)
    \<longleftrightarrow> allowed (decideFromEntries effective
          (filter (\<lambda>e. ceSubjectId e \<in> set (callerSubjectIds c)) entries) (permission \<in> set granted))"
proof -
  let ?mine = "filter (\<lambda>e. ceSubjectId e \<in> set (callerSubjectIds c)) entries"
  have mine: "e \<in> set ?mine \<longleftrightarrow> e \<in> set entries \<and> names c e" for e
    using assms names_ids by (auto simp: kindsDisjoint_def)
  have on: "entryOn effective ?mine eff \<longleftrightarrow>
      (\<exists>e \<in> set entries. names c e \<and> ceScopeId e \<in> (\<lambda>n. scId (cnScope n)) ` set effective \<and> ceEffect e = eff)" for eff
    unfolding entryOn_def using mine by auto
  have "(\<exists>t \<in> set (callerSubjectTokens c granted). t \<in> set (fst (indexSubjectsFromEntries effective entries permission)))
      \<longleftrightarrow> entryOn effective ?mine ALLOW \<or> permission \<in> set granted \<and> reachesTenant effective"
    unfolding indexSubjects_sets on using token_names [of _ c granted] grant_token [of permission c granted]
    by (auto split: if_splits)
  moreover have "(\<exists>t \<in> set (callerSubjectTokens c granted). t \<in> set (snd (indexSubjectsFromEntries effective entries permission)))
      \<longleftrightarrow> entryOn effective ?mine DENY"
    unfolding indexSubjects_sets on using token_names [of _ c granted] by auto
  ultimately show ?thesis
    unfolding indexMatches_def using walk_deny_wins by blast
qed

end
