(* ===== verification/Scope_Chain.thy ===== *)
theory Scope_Chain
  imports Acl_Walk Tree_Path
begin

text \<open>
  The scope chain read from the organisation and library tables:
  \<open>src/apps/api/src/modules/library/infrastructure/prisma-scope-chain.reader.ts\<close> over
  \<open>src/apps/api/src/modules/organization/infrastructure/prisma-scope.repository.ts\<close>. The rows are one
  tenant's; a row that is in the recycle bin is a row with its deleted flag set.
\<close>

subsection \<open>Tables\<close>

record company_row =
  coId :: ident
  coDeleted :: bool

record entity_row =
  enId :: ident
  enCompanyId :: ident
  enDeleted :: bool

record department_row =
  deId :: ident
  deEntityId :: ident
  dePath :: string
  deDeleted :: bool

record library_row =
  liId :: ident
  liOwnerScopeType :: scope_type
  liOwnerScopeId :: "ident option"
  liDeleted :: bool

record folder_row =
  foId :: ident
  foLibraryId :: ident
  foPath :: string
  foInheritAcl :: bool
  foDeleted :: bool

record filed_document =
  fdId :: ident
  fdFolderId :: ident

record scope_tables =
  tenantOf :: ident
  companies :: "company_row list"
  entities :: "entity_row list"
  departments :: "department_row list"
  libraries :: "library_row list"
  folders :: "folder_row list"
  filed :: "filed_document list"

subsection \<open>The scope repository\<close>

definition findCompany :: "scope_tables \<Rightarrow> ident \<Rightarrow> company_row option" where
  "findCompany t i = List.find (\<lambda>c. coId c = i \<and> \<not> coDeleted c) (companies t)"

definition findEntity :: "scope_tables \<Rightarrow> ident \<Rightarrow> entity_row option" where
  "findEntity t i = List.find (\<lambda>e. enId e = i \<and> \<not> enDeleted e) (entities t)"

definition findDepartment :: "scope_tables \<Rightarrow> ident \<Rightarrow> department_row option" where
  "findDepartment t i = List.find (\<lambda>d. deId d = i \<and> \<not> deDeleted d) (departments t)"

definition findDepartmentsByIds :: "scope_tables \<Rightarrow> ident list \<Rightarrow> department_row list" where
  "findDepartmentsByIds t ids = List.map_filter (findDepartment t) ids"

definition findSubtrees :: "scope_tables \<Rightarrow> ident list \<Rightarrow> department_row list" where
  "findSubtrees t ids =
     (let roots = filter (\<lambda>d. deId d \<in> set ids \<and> \<not> deDeleted d) (departments t)
      in filter (\<lambda>d. \<not> deDeleted d \<and>
           (\<exists>root \<in> set roots. deId d = deId root \<or> startsWith (dePath d) (butlast (subtreePattern (dePath root)))))
         (departments t))"

subsection \<open>The chain reader\<close>

definition plainNode :: "scope_type \<Rightarrow> ident \<Rightarrow> chain_node" where
  "plainNode ty i = \<lparr>cnScope = \<lparr>scType = ty, scId = i\<rparr>, cnBreaks = False, cnPath = None\<rparr>"

definition tenantNode :: "scope_tables \<Rightarrow> chain_node" where
  "tenantNode t = plainNode TENANT (tenantOf t)"

definition fromEntity :: "scope_tables \<Rightarrow> ident \<Rightarrow> chain_node list option" where
  "fromEntity t i =
     (case findEntity t i of
        None \<Rightarrow> None
      | Some e \<Rightarrow>
          (case findCompany t (enCompanyId e) of
             None \<Rightarrow> None
           | Some c \<Rightarrow> Some [tenantNode t, plainNode COMPANY (coId c), plainNode ENTITY (enId e)]))"

definition fromOrganisation :: "scope_tables \<Rightarrow> scope_ref \<Rightarrow> chain_node list option" where
  "fromOrganisation t scope =
     (case scType scope of
        COMPANY \<Rightarrow> map_option (\<lambda>c. [tenantNode t, plainNode COMPANY (coId c)]) (findCompany t (scId scope))
      | ENTITY \<Rightarrow> fromEntity t (scId scope)
      | DEPARTMENT \<Rightarrow>
          (case findDepartment t (scId scope) of
             None \<Rightarrow> None
           | Some node \<Rightarrow>
               (let ancestry = idsInPath (dePath node); rows = findDepartmentsByIds t ancestry
                in if length rows \<noteq> length ancestry then None
                   else (case fromEntity t (deEntityId node) of
                           None \<Rightarrow> None
                         | Some up \<Rightarrow> Some (up @ map (\<lambda>d. plainNode DEPARTMENT (deId d)) rows))))
      | _ \<Rightarrow> None)"

definition fromLibrary :: "scope_tables \<Rightarrow> ident \<Rightarrow> chain_node list option" where
  "fromLibrary t i =
     (case List.find (\<lambda>l. liId l = i \<and> \<not> liDeleted l) (libraries t) of
        None \<Rightarrow> None
      | Some l \<Rightarrow>
          (case (if liOwnerScopeType l = TENANT then Some [tenantNode t]
                 else (case liOwnerScopeId l of
                         None \<Rightarrow> Some [tenantNode t]
                       | Some owner \<Rightarrow> fromOrganisation t \<lparr>scType = liOwnerScopeType l, scId = owner\<rparr>)) of
             None \<Rightarrow> None
           | Some up \<Rightarrow> Some (up @ [plainNode LIBRARY (liId l)])))"

definition findFolder :: "scope_tables \<Rightarrow> ident \<Rightarrow> folder_row option" where
  "findFolder t i = List.find (\<lambda>f. foId f = i \<and> \<not> foDeleted f) (folders t)"

definition folderNode :: "folder_row \<Rightarrow> chain_node" where
  "folderNode f =
     \<lparr>cnScope = \<lparr>scType = FOLDER, scId = foId f\<rparr>, cnBreaks = \<not> foInheritAcl f, cnPath = Some (foPath f)\<rparr>"

text \<open>The loop over the ancestry: a missing ancestor makes the chain unresolvable.\<close>

fun folderNodes :: "scope_tables \<Rightarrow> ident list \<Rightarrow> chain_node list option" where
  "folderNodes t [] = Some []"
| "folderNodes t (i # ids) =
     (case findFolder t i of
        None \<Rightarrow> None
      | Some f \<Rightarrow> map_option (\<lambda>ns. folderNode f # ns) (folderNodes t ids))"

definition fromFolder :: "scope_tables \<Rightarrow> ident \<Rightarrow> chain_node list option" where
  "fromFolder t i =
     (case findFolder t i of
        None \<Rightarrow> None
      | Some f \<Rightarrow>
          (case folderNodes t (idsInPath (foPath f)) of
             None \<Rightarrow> None
           | Some nodes \<Rightarrow> map_option (\<lambda>up. up @ nodes) (fromLibrary t (foLibraryId f))))"

definition fromDocument :: "scope_tables \<Rightarrow> ident \<Rightarrow> chain_node list option" where
  "fromDocument t i =
     (case List.find (\<lambda>d. fdId d = i) (filed t) of
        None \<Rightarrow> None
      | Some d \<Rightarrow> map_option (\<lambda>up. up @ [plainNode DOCUMENT (fdId d)]) (fromFolder t (fdFolderId d)))"

definition chainFor :: "scope_tables \<Rightarrow> scope_ref \<Rightarrow> chain_node list option" where
  "chainFor t scope =
     (case scType scope of
        DOCUMENT \<Rightarrow> fromDocument t (scId scope)
      | FOLDER \<Rightarrow> fromFolder t (scId scope)
      | LIBRARY \<Rightarrow> fromLibrary t (scId scope)
      | TENANT \<Rightarrow> Some [tenantNode t]
      | _ \<Rightarrow> fromOrganisation t scope)"

definition idsOf :: "scope_ref list \<Rightarrow> scope_type \<Rightarrow> ident list" where
  "idsOf scopes ty = map scId (filter (\<lambda>s. scType s = ty) scopes)"

definition librariesUnder :: "scope_tables \<Rightarrow> scope_ref list \<Rightarrow> ident list" where
  "librariesUnder t scopes =
     (if scopes = [] then []
      else
       let companyIds = idsOf scopes COMPANY;
           entityIds = idsOf scopes ENTITY @
             map enId (filter (\<lambda>e. enCompanyId e \<in> set companyIds \<and> \<not> enDeleted e) (entities t));
           direct = idsOf scopes DEPARTMENT @
             map deId (filter (\<lambda>d. deEntityId d \<in> set entityIds \<and> \<not> deDeleted d) (departments t));
           departmentIds = direct @ map deId (findSubtrees t direct)
       in map liId (filter (\<lambda>l. \<not> liDeleted l \<and>
            (case liOwnerScopeId l of
               None \<Rightarrow> False
             | Some owner \<Rightarrow>
                 liOwnerScopeType l = COMPANY \<and> owner \<in> set companyIds \<or>
                 liOwnerScopeType l = ENTITY \<and> owner \<in> set entityIds \<or>
                 liOwnerScopeType l = DEPARTMENT \<and> owner \<in> set departmentIds)) (libraries t)))"

definition brokenInheritancePaths :: "scope_tables \<Rightarrow> string list" where
  "brokenInheritancePaths t = map foPath (filter (\<lambda>f. \<not> foInheritAcl f \<and> \<not> foDeleted f) (folders t))"

end
