(* ===== verification/Acl_Resolver.thy ===== *)
theory Acl_Resolver
  imports Scope_Chain "HOL-Library.Char_ord" "HOL-Library.List_Lexorder"
begin

text \<open>
  The resolver: \<open>src/apps/api/src/modules/library/infrastructure/prisma-acl.resolver.ts\<close> over the entry
  reads of \<open>prisma-acl.repository.ts\<close>, and the translation of its visibility filter into a predicate on
  documents, \<open>src/apps/api/src/core/authorization/document-visibility.ts\<close>. The cache is not modelled: the
  definitions are what a cold cache answers.

  The predicate is a Prisma filter object. Its evaluation is the one of the client library, which is not
  part of the repository: whether an empty filter object inside an \<open>OR\<close> matches every row is the
  parameter \<open>orEmpty\<close>. The source records that it does not.
\<close>

subsection \<open>Entries, roles and memberships\<close>

record acl_row =
  acScope :: scope_ref
  acSubjectType :: subject_type
  acSubjectId :: ident
  acPermission :: string
  acEffect :: effect

record acl_tables =
  scopes :: scope_tables
  aclRows :: "acl_row list"
  roleRows :: "(ident \<times> string \<times> bool) list"
  rolePermissions :: "(ident \<times> string) list"
  memberships :: "(ident \<times> ident) list"

record authorization_subject =
  asUserId :: ident
  asRoleIds :: "string list"

definition isHex :: "char \<Rightarrow> bool" where
  "isHex c \<longleftrightarrow> c \<in> set ''0123456789abcdefABCDEF''"

definition isUuid :: "string \<Rightarrow> bool" where
  "isUuid s \<longleftrightarrow>
     map length (splitOn (CHR ''-'') s) = [8, 4, 4, 4, 12] \<and>
     list_all (list_all isHex) (splitOn (CHR ''-'') s)"

definition roleIdsFor :: "acl_tables \<Rightarrow> string list \<Rightarrow> ident list" where
  "roleIdsFor t keysOrIds =
     map fst (filter (\<lambda>(i, key, deleted). \<not> deleted \<and>
       (key \<in> set (filter (\<lambda>v. \<not> isUuid v) keysOrIds) \<or> i \<in> set (filter isUuid keysOrIds))) (roleRows t))"

definition grantedAmong :: "acl_tables \<Rightarrow> ident list \<Rightarrow> string list \<Rightarrow> string list" where
  "grantedAmong t roleIds permissions =
     remdups (map snd (filter (\<lambda>(r, p). r \<in> set roleIds \<and> p \<in> set permissions) (rolePermissions t)))"

definition departmentsOf :: "acl_tables \<Rightarrow> authorization_subject \<Rightarrow> ident list" where
  "departmentsOf t subject =
     (if asUserId subject = [] then []
      else
       let own = filter (\<lambda>d. \<not> deDeleted d \<and> (asUserId subject, deId d) \<in> set (memberships t)) (departments (scopes t));
           named = concat (map (\<lambda>d. idsInPath (dePath d)) own)
       in map deId (filter (\<lambda>d. \<not> deDeleted d \<and> deId d \<in> set named) (departments (scopes t))))"

definition callerOf :: "acl_tables \<Rightarrow> authorization_subject \<Rightarrow> caller" where
  "callerOf t subject =
     \<lparr>caUserId = asUserId subject, caRoleIds = roleIdsFor t (asRoleIds subject),
      caDepartmentIds = departmentsOf t subject\<rparr>"

definition toChainEntry :: "acl_row \<Rightarrow> chain_entry" where
  "toChainEntry a =
     \<lparr>ceScopeId = scId (acScope a), ceSubjectType = acSubjectType a, ceSubjectId = acSubjectId a,
      ceEffect = acEffect a\<rparr>"

definition listForChain :: "acl_tables \<Rightarrow> ident list \<Rightarrow> ident list option \<Rightarrow> string \<Rightarrow> acl_row list" where
  "listForChain t scopeIds subjectIds permission =
     (if scopeIds = [] \<or> subjectIds = Some [] then []
      else filter (\<lambda>a. scId (acScope a) \<in> set scopeIds \<and>
             (case subjectIds of None \<Rightarrow> True | Some ids \<Rightarrow> acSubjectId a \<in> set ids) \<and>
             acPermission a = permission) (aclRows t))"

text \<open>Denies first, then by scope identifier; at most \<open>limit\<close> rows.\<close>

definition listForSubjects :: "acl_tables \<Rightarrow> ident list \<Rightarrow> string \<Rightarrow> nat \<Rightarrow> acl_row list" where
  "listForSubjects t subjectIds permission limit =
     (let rows = filter (\<lambda>a. acSubjectId a \<in> set subjectIds \<and> acPermission a = permission) (aclRows t)
      in take limit (sort_key (\<lambda>a. scId (acScope a)) (filter (\<lambda>a. acEffect a = DENY) rows)
                     @ sort_key (\<lambda>a. scId (acScope a)) (filter (\<lambda>a. acEffect a = ALLOW) rows)))"

subsection \<open>The decision\<close>

definition entriesOnChain ::
  "acl_tables \<Rightarrow> chain_node list \<Rightarrow> string \<Rightarrow> ident list option \<Rightarrow> chain_entry list" where
  "entriesOnChain t effective permission subjectIds =
     map toChainEntry (listForChain t (map (\<lambda>n. scId (cnScope n)) effective) subjectIds permission)"

definition closed :: walk_outcome where
  "closed = \<lparr>allowed = False, decidedAt = None, decisionReason = CLOSED_BY_DEFAULT\<rparr>"

definition resolveOne ::
  "acl_tables \<Rightarrow> authorization_subject \<Rightarrow> scope_ref \<Rightarrow> string list \<Rightarrow> string \<Rightarrow> walk_outcome" where
  "resolveOne t subject scope permissions permission =
     (case chainFor (scopes t) scope of
        None \<Rightarrow> closed
      | Some chain \<Rightarrow>
          (let c = callerOf t subject; effective = effectiveChain chain permission in
           decideFromEntries effective
             (entriesOnChain t effective permission (Some (callerSubjectIds c)))
             (permission \<in> set (grantedAmong t (caRoleIds c) permissions))))"

definition resolve :: "acl_tables \<Rightarrow> authorization_subject \<Rightarrow> scope_ref \<Rightarrow> string \<Rightarrow> walk_outcome" where
  "resolve t subject scope permission =
     (if asRoleIds subject = [] \<and> asUserId subject = [] then closed
      else resolveOne t subject scope [permission] permission)"

definition capabilitiesFor ::
  "acl_tables \<Rightarrow> authorization_subject \<Rightarrow> scope_ref \<Rightarrow> string list \<Rightarrow> (string \<times> bool) list" where
  "capabilitiesFor t subject scope permissions =
     (if asRoleIds subject = [] \<and> asUserId subject = [] then map (\<lambda>p. (p, False)) permissions
      else map (\<lambda>p. (p, allowed (resolveOne t subject scope permissions p))) permissions)"

definition aclSubjectsFor :: "acl_tables \<Rightarrow> scope_ref \<Rightarrow> string \<Rightarrow> string list \<times> string list" where
  "aclSubjectsFor t scope permission =
     (case chainFor (scopes t) scope of
        None \<Rightarrow> ([], [])
      | Some chain \<Rightarrow>
          (let effective = effectiveChain chain permission in
           indexSubjectsFromEntries effective (entriesOnChain t effective permission None) permission))"

subsection \<open>The visibility filter\<close>

record visibility_region =
  tenantWide :: bool
  libraryIds :: "ident list"
  folderPaths :: "string list"
  documentIds :: "ident list"
  excludedFolderPaths :: "string list"

definition ofType :: "scope_type \<Rightarrow> acl_row list \<Rightarrow> acl_row list" where
  "ofType ty sources = filter (\<lambda>a. scType (acScope a) = ty) sources"

definition regionsFor :: "acl_tables \<Rightarrow> acl_row list \<Rightarrow> string list \<Rightarrow> bool \<Rightarrow> visibility_region list" where
  "regionsFor t sources breaks optionTenantWide =
     (let organisational = filter (\<lambda>a. scType (acScope a) \<in> {COMPANY, ENTITY, DEPARTMENT}) sources;
          wide = (optionTenantWide \<or> ofType TENANT sources \<noteq> []);
          libs = remdups (map (\<lambda>a. scId (acScope a)) (ofType LIBRARY sources)
                   @ librariesUnder (scopes t) (map acScope organisational));
          docIds = map (\<lambda>a. scId (acScope a)) (ofType DOCUMENT sources);
          folderIds = map (\<lambda>a. scId (acScope a)) (ofType FOLDER sources)
      in (if wide \<or> libs \<noteq> []
          then [\<lparr>tenantWide = wide, libraryIds = libs, folderPaths = [], documentIds = [],
                 excludedFolderPaths = breaks\<rparr>] else [])
         @ map (\<lambda>f. \<lparr>tenantWide = False, libraryIds = [], folderPaths = [foPath f], documentIds = [],
                     excludedFolderPaths = filter (\<lambda>p. startsWith p (subtreePrefix (foPath f))) breaks\<rparr>)
             (filter (\<lambda>f. foId f \<in> set folderIds \<and> \<not> foDeleted f) (folders (scopes t)))
         @ (if docIds \<noteq> []
            then [\<lparr>tenantWide = False, libraryIds = [], folderPaths = [], documentIds = docIds,
                   excludedFolderPaths = []\<rparr>] else []))"

definition visibilityFilter ::
  "acl_tables \<Rightarrow> nat \<Rightarrow> authorization_subject \<Rightarrow> string \<Rightarrow> visibility_region list \<times> visibility_region list" where
  "visibilityFilter t limit subject permission =
     (let c = callerOf t subject;
          granted = grantedAmong t (caRoleIds c) [permission];
          entries = listForSubjects t (callerSubjectIds c) permission (limit + 1);
          truncated = length entries > limit;
          readable = (if truncated then take limit entries else entries);
          cuts = (if survivesBrokenInheritance permission then [] else brokenInheritancePaths (scopes t))
      in (regionsFor t (filter (\<lambda>a. acEffect a = ALLOW) readable) cuts (granted \<noteq> [] \<and> \<not> truncated),
          regionsFor t (filter (\<lambda>a. acEffect a = DENY) readable) cuts False))"

subsection \<open>The predicate on documents\<close>

datatype where_input =
    WEmpty
  | WIdIn "ident list"
  | WLibraryIn "ident list"
  | WFolderAt string
  | WOr "where_input list"
  | WAnd "where_input list"
  | WNot where_input

definition NO_SUCH_ID :: ident where
  "NO_SUCH_ID = ''00000000-0000-0000-0000-000000000000''"

definition isUnconditional :: "where_input \<Rightarrow> bool" where
  "isUnconditional c \<longleftrightarrow> c = WEmpty"

definition regionCondition :: "visibility_region \<Rightarrow> where_input" where
  "regionCondition region =
     (let bases = (if tenantWide region then [WEmpty] else [])
            @ (if libraryIds region \<noteq> [] then [WLibraryIn (libraryIds region)] else [])
            @ map WFolderAt (folderPaths region)
            @ (if documentIds region \<noteq> [] then [WIdIn (documentIds region)] else [])
      in if bases = [] then WIdIn [NO_SUCH_ID]
         else let base = (case bases of [b] \<Rightarrow> b | _ \<Rightarrow> WOr bases)
              in if excludedFolderPaths region = [] then base
                 else WAnd [base, WNot (WOr (map WFolderAt (excludedFolderPaths region)))])"

definition documentVisibilityWhere :: "visibility_region list \<times> visibility_region list \<Rightarrow> where_input" where
  "documentVisibilityWhere flt =
     (let allow = map regionCondition (fst flt);
          deny = filter (\<lambda>c. \<not> isUnconditional c) (map regionCondition (snd flt))
      in WAnd ((if list_ex isUnconditional allow then []
                else [if allow = [] then WIdIn [NO_SUCH_ID] else WOr allow])
               @ (if deny = [] then [] else [WNot (WOr deny)])))"

text \<open>The row a filter is evaluated on: the document joined with its folder.\<close>

record document_view =
  dvId :: ident
  dvLibraryId :: ident
  dvFolderPath :: string

fun matches :: "bool \<Rightarrow> document_view \<Rightarrow> where_input \<Rightarrow> bool" where
  "matches orEmpty d WEmpty = True"
| "matches orEmpty d (WIdIn ids) = (dvId d \<in> set ids)"
| "matches orEmpty d (WLibraryIn ids) = (dvLibraryId d \<in> set ids)"
| "matches orEmpty d (WFolderAt path) = isAtOrBelow (dvFolderPath d) path"
| "matches orEmpty d (WOr cs) = list_ex (\<lambda>c. (c = WEmpty \<longrightarrow> orEmpty) \<and> matches orEmpty d c) cs"
| "matches orEmpty d (WAnd cs) = list_all (matches orEmpty d) cs"
| "matches orEmpty d (WNot c) = (\<not> matches orEmpty d c)"

end
