(* ===== verification/Acl_Agreement.thy ===== *)
theory Acl_Agreement
  imports Acl_Resolver
begin

text \<open>
  The three answers of the resolver agree: the decision on one object (\<open>resolve\<close>), the batch of
  capabilities (\<open>capabilitiesFor\<close>), the subjects stored in the search index (\<open>aclSubjectsFor\<close>) and the
  predicate a list is filtered with (\<open>visibilityFilter\<close> through \<open>documentVisibilityWhere\<close>). The last
  agreement holds for well-formed trees and outside two situations, which the last section shows to be
  real: there the list answers differently from the decision.
\<close>

subsection \<open>Trees\<close>

text \<open>
  The live rows of a tree with materialised paths: identifiers are unique, a path is the rendering of
  distinct identifiers that ends with the row's own, and the path of an ancestor is a prefix.
\<close>

definition treeOk :: "('r \<Rightarrow> ident) \<Rightarrow> ('r \<Rightarrow> string) \<Rightarrow> 'r list \<Rightarrow> bool" where
  "treeOk idf pathf rows \<longleftrightarrow>
     distinct (map idf rows) \<and>
     (\<forall>r \<in> set rows. wf_ids (idsInPath (pathf r)) \<and> render (idsInPath (pathf r)) = pathf r \<and>
        distinct (idsInPath (pathf r)) \<and> last (idsInPath (pathf r)) = idf r) \<and>
     (\<forall>r \<in> set rows. \<forall>q \<in> set rows. idf q \<in> set (idsInPath (pathf r)) \<longrightarrow> isAtOrBelow (pathf r) (pathf q))"

lemma treeOkD:
  assumes "treeOk idf pathf rows" and "r \<in> set rows"
  shows "wf_ids (idsInPath (pathf r))" and "render (idsInPath (pathf r)) = pathf r"
    and "distinct (idsInPath (pathf r))" and "last (idsInPath (pathf r)) = idf r" and "idsInPath (pathf r) \<noteq> []"
  using assms by (auto simp: treeOk_def wf_ids_def)

lemma tree_key:
  "\<lbrakk>treeOk idf pathf rows; x \<in> set rows; y \<in> set rows; idf x = idf y\<rbrakk> \<Longrightarrow> x = y"
  unfolding treeOk_def by (blast dest: distinct_map_eq)

lemma tree_prefix:
  assumes "treeOk idf pathf rows" and "r \<in> set rows" and "q \<in> set rows"
  shows "isAtOrBelow (pathf r) (pathf q) \<longleftrightarrow> prefix (idsInPath (pathf q)) (idsInPath (pathf r))"
  using isAtOrBelow_render [OF treeOkD(1) [OF assms(1,2)] treeOkD(1) [OF assms(1,3)]]
    treeOkD(2) [OF assms(1,2)] treeOkD(2) [OF assms(1,3)] by simp

lemma tree_below:
  assumes ok: "treeOk idf pathf rows" and r: "r \<in> set rows" and q: "q \<in> set rows"
  shows "isAtOrBelow (pathf r) (pathf q) \<longleftrightarrow> idf q \<in> set (idsInPath (pathf r))"
proof
  assume "isAtOrBelow (pathf r) (pathf q)"
  then have "set (idsInPath (pathf q)) \<subseteq> set (idsInPath (pathf r))"
    using tree_prefix [OF assms] set_mono_prefix by blast
  then show "idf q \<in> set (idsInPath (pathf r))"
    using treeOkD(4,5) [OF ok q] last_in_set by fastforce
next
  assume "idf q \<in> set (idsInPath (pathf r))"
  then show "isAtOrBelow (pathf r) (pathf q)" using ok r q by (simp add: treeOk_def)
qed

lemma tree_strictly_below:
  assumes ok: "treeOk idf pathf rows" and r: "r \<in> set rows" and q: "q \<in> set rows"
  shows "startsWith (pathf r) (subtreePrefix (pathf q)) \<longleftrightarrow>
    strict_prefix (idsInPath (pathf q)) (idsInPath (pathf r))"
proof
  assume "startsWith (pathf r) (subtreePrefix (pathf q))"
  then show "strict_prefix (idsInPath (pathf q)) (idsInPath (pathf r))"
    using render_prefix_step [OF treeOkD(1) [OF ok r] treeOkD(1) [OF ok q]] treeOkD(2) [OF ok r] treeOkD(2) [OF ok q]
    by (simp add: startsWith_iff_prefix subtreePrefix_def)
next
  assume s: "strict_prefix (idsInPath (pathf q)) (idsInPath (pathf r))"
  then have "isAtOrBelow (pathf r) (pathf q)" using tree_prefix [OF assms] by (simp add: strict_prefix_def)
  moreover have "pathf r \<noteq> pathf q" using s by auto
  ultimately show "startsWith (pathf r) (subtreePrefix (pathf q))"
    by (simp add: isAtOrBelow_def subtreePrefix_def)
qed

text \<open>The rows named by a path, in its order, have strictly growing paths.\<close>

lemma ancestry_take:
  assumes ok: "treeOk idf pathf rows" and f: "f \<in> set rows" and gs: "set gs \<subseteq> set rows"
    and ids: "map idf gs = idsInPath (pathf f)" and i: "i < length gs"
  shows "idsInPath (pathf (gs ! i)) = take (Suc i) (idsInPath (pathf f))"
proof -
  let ?ids = "idsInPath (pathf f)" and ?ys = "idsInPath (pathf (gs ! i))"
  have g: "gs ! i \<in> set rows" using gs i by auto
  have at: "?ids ! i = idf (gs ! i)" using ids i by (metis nth_map)
  have "idf (gs ! i) \<in> set ?ids" using i by (simp flip: ids)
  then have p: "prefix ?ys ?ids" using tree_below [OF ok f g] tree_prefix [OF ok f g] by simp
  then have ys: "?ys = take (length ?ys) ?ids" by (metis prefix_def append_eq_conv_conj)
  have ne: "?ys \<noteq> []" by (rule treeOkD(5) [OF ok g])
  have le: "length ?ys \<le> length ?ids" using p by (rule prefix_length_le)
  have "last ?ys = ?ids ! (length ?ys - 1)" using ys ne le
    by (metis (no_types, lifting) One_nat_def diff_less last_conv_nth length_greater_0_conv nth_take zero_less_one)
  then have "?ids ! (length ?ys - 1) = ?ids ! i" using treeOkD(4) [OF ok g] at by simp
  moreover have "length ?ys - 1 < length ?ids" using le ne by (cases ?ys) auto
  moreover have "i < length ?ids" using i ids by (metis length_map)
  ultimately have "length ?ys - 1 = i" using treeOkD(3) [OF ok f] by (simp add: nth_eq_iff_index_eq)
  then have "length ?ys = Suc i" using ne by (cases ?ys) auto
  then show ?thesis using ys by simp
qed

lemma ancestry_sorted:
  assumes "treeOk idf pathf rows" and "f \<in> set rows" and "set gs \<subseteq> set rows" and "map idf gs = idsInPath (pathf f)"
  shows "sorted_wrt (\<lambda>g h. strict_prefix (idsInPath (pathf g)) (idsInPath (pathf h))) gs"
proof (unfold sorted_wrt_iff_nth_less, intro allI impI)
  fix i j
  assume ij: "i < j" "j < length gs"
  have len: "length gs = length (idsInPath (pathf f))" using assms(4) by (metis length_map)
  have "take (Suc i) xs = take (Suc i) (take (Suc j) xs)" for xs :: "ident list" using ij(1) by (simp add: min_def)
  then have "prefix (take (Suc i) xs) (take (Suc j) xs)" for xs :: "ident list" by (metis take_is_prefix)
  moreover have "length (take (Suc i) (idsInPath (pathf f))) \<noteq> length (take (Suc j) (idsInPath (pathf f)))"
    using ij len by simp
  then have "take (Suc i) (idsInPath (pathf f)) \<noteq> take (Suc j) (idsInPath (pathf f))" by metis
  ultimately show "strict_prefix (idsInPath (pathf (gs ! i))) (idsInPath (pathf (gs ! j)))"
    using ij ancestry_take [OF assms, of i] ancestry_take [OF assms, of j] by (auto simp: strict_prefix_def)
qed

subsection \<open>What the predicate of a region says\<close>

definition covers :: "document_view \<Rightarrow> visibility_region \<Rightarrow> bool" where
  "covers v r \<longleftrightarrow>
     (tenantWide r \<or> dvLibraryId v \<in> set (libraryIds r) \<or>
      (\<exists>p \<in> set (folderPaths r). isAtOrBelow (dvFolderPath v) p) \<or> dvId v \<in> set (documentIds r)) \<and>
     \<not> (\<exists>p \<in> set (excludedFolderPaths r). isAtOrBelow (dvFolderPath v) p)"

text \<open>A region whose predicate puts an empty branch beside another one.\<close>

definition mixesEmptyBranch :: "visibility_region \<Rightarrow> bool" where
  "mixesEmptyBranch r \<longleftrightarrow> tenantWide r \<and> (libraryIds r \<noteq> [] \<or> folderPaths r \<noteq> [] \<or> documentIds r \<noteq> [])"

lemma or_branches:
  "orEmpty \<or> WEmpty \<notin> set cs \<Longrightarrow> matches orEmpty v (WOr cs) \<longleftrightarrow> (\<exists>c \<in> set cs. matches orEmpty v c)"
  by (induction cs) auto

lemma or_regions:
  assumes "\<forall>r \<in> set rs. regionCondition r \<noteq> WEmpty"
  shows "matches orEmpty v (WOr (map regionCondition rs)) \<longleftrightarrow> (\<exists>r \<in> set rs. matches orEmpty v (regionCondition r))"
  using assms by (induction rs) auto

lemma region_condition_covers:
  assumes "dvId v \<noteq> NO_SUCH_ID" and "orEmpty \<or> \<not> mixesEmptyBranch r"
  shows "matches orEmpty v (regionCondition r) \<longleftrightarrow> covers v r"
proof -
  define bases where "bases = (if tenantWide r then [WEmpty] else [])
            @ (if libraryIds r \<noteq> [] then [WLibraryIn (libraryIds r)] else [])
            @ map WFolderAt (folderPaths r)
            @ (if documentIds r \<noteq> [] then [WIdIn (documentIds r)] else [])"
  let ?base = "tenantWide r \<or> dvLibraryId v \<in> set (libraryIds r) \<or>
      (\<exists>p \<in> set (folderPaths r). isAtOrBelow (dvFolderPath v) p) \<or> dvId v \<in> set (documentIds r)"
  have any: "(\<exists>c \<in> set bases. matches orEmpty v c) \<longleftrightarrow> ?base"
    by (cases "libraryIds r = []"; cases "documentIds r = []") (auto simp: bases_def bex_Un)
  have alone: "bases = [WEmpty]" if "WEmpty \<in> set bases" "\<not> orEmpty"
    using that assms(2) by (auto simp: bases_def mixesEmptyBranch_def)
  have or: "matches orEmpty v (WOr bases) \<longleftrightarrow> ?base" if "length bases \<noteq> 1"
  proof -
    have "orEmpty \<or> WEmpty \<notin> set bases" using alone that by auto
    from or_branches [OF this] show ?thesis using any by blast
  qed
  have base: "matches orEmpty v (case bases of [b] \<Rightarrow> b | _ \<Rightarrow> WOr bases) \<longleftrightarrow> ?base"
    using any or by (auto split: list.splits)
  have excl: "matches orEmpty v (WNot (WOr (map WFolderAt ps))) \<longleftrightarrow> \<not> (\<exists>p \<in> set ps. isAtOrBelow (dvFolderPath v) p)" for ps
    by (auto simp: list_ex_iff)
  have cond: "regionCondition r = (if bases = [] then WIdIn [NO_SUCH_ID]
     else if excludedFolderPaths r = [] then (case bases of [b] \<Rightarrow> b | _ \<Rightarrow> WOr bases)
     else WAnd [(case bases of [b] \<Rightarrow> b | _ \<Rightarrow> WOr bases), WNot (WOr (map WFolderAt (excludedFolderPaths r)))])"
    unfolding regionCondition_def bases_def [symmetric] Let_def by simp
  show ?thesis
  proof (cases "bases = []")
    case True
    then show ?thesis using assms(1) any by (simp add: cond covers_def)
  next
    case False
    then show ?thesis using base excl [of "excludedFolderPaths r"] by (simp add: cond covers_def del: matches.simps(5,7))
  qed
qed

lemma where_covers:
  assumes id: "dvId v \<noteq> NO_SUCH_ID"
    and mix: "\<forall>r \<in> set (fst flt) \<union> set (snd flt). orEmpty \<or> \<not> mixesEmptyBranch r"
    and den: "\<forall>r \<in> set (snd flt). regionCondition r \<noteq> WEmpty"
  shows "matches orEmpty v (documentVisibilityWhere flt) \<longleftrightarrow>
    (\<exists>r \<in> set (fst flt). covers v r) \<and> \<not> (\<exists>r \<in> set (snd flt). covers v r)"
proof -
  have cov: "matches orEmpty v (regionCondition r) \<longleftrightarrow> covers v r" if "r \<in> set (fst flt) \<union> set (snd flt)" for r
    using region_condition_covers [OF id] mix that by blast
  have deny: "filter (\<lambda>c. \<not> isUnconditional c) (map regionCondition (snd flt)) = map regionCondition (snd flt)"
    using den by (auto simp: isUnconditional_def filter_id_conv)
  have d: "matches orEmpty v (WOr (map regionCondition (snd flt))) \<longleftrightarrow> (\<exists>r \<in> set (snd flt). covers v r)"
    unfolding or_regions [OF den] using cov by blast
  have a: "matches orEmpty v (WOr (map regionCondition (fst flt))) \<longleftrightarrow> (\<exists>r \<in> set (fst flt). covers v r)"
    if "\<not> list_ex isUnconditional (map regionCondition (fst flt))"
  proof -
    have "\<forall>r \<in> set (fst flt). regionCondition r \<noteq> WEmpty" using that by (auto simp: list_ex_iff isUnconditional_def image_iff)
    then show ?thesis unfolding or_regions [OF \<open>\<forall>r \<in> set (fst flt). regionCondition r \<noteq> WEmpty\<close>] using cov by blast
  qed
  have u: "\<exists>r \<in> set (fst flt). covers v r" if "list_ex isUnconditional (map regionCondition (fst flt))"
  proof -
    have "WEmpty \<in> regionCondition ` set (fst flt)" using that by (simp add: list_ex_iff isUnconditional_def)
    then obtain r where "r \<in> set (fst flt)" "regionCondition r = WEmpty" by (metis imageE)
    then show ?thesis using cov [of r] by auto
  qed
  show ?thesis
    unfolding documentVisibilityWhere_def Let_def deny
    using a u d id by (auto simp del: matches.simps(5) simp: list_ex_iff)
qed

subsection \<open>Organisational scopes and the libraries under them\<close>

abbreviation liveFolders :: "scope_tables \<Rightarrow> folder_row list" where
  "liveFolders t \<equiv> filter (\<lambda>f. \<not> foDeleted f) (folders t)"

abbreviation liveDepartments :: "scope_tables \<Rightarrow> department_row list" where
  "liveDepartments t \<equiv> filter (\<lambda>d. \<not> deDeleted d) (departments t)"

abbreviation liveEntities :: "scope_tables \<Rightarrow> entity_row list" where
  "liveEntities t \<equiv> filter (\<lambda>e. \<not> enDeleted e) (entities t)"

abbreviation liveLibraries :: "scope_tables \<Rightarrow> library_row list" where
  "liveLibraries t \<equiv> filter (\<lambda>l. \<not> liDeleted l) (libraries t)"

text \<open>The department tree is well formed, a subtree lies in one entity, and identifiers are keys.\<close>

definition organisationOk :: "scope_tables \<Rightarrow> bool" where
  "organisationOk t \<longleftrightarrow>
     treeOk deId dePath (liveDepartments t) \<and>
     (\<forall>d \<in> set (liveDepartments t). \<forall>r \<in> set (liveDepartments t).
        isAtOrBelow (dePath d) (dePath r) \<longrightarrow> deEntityId d = deEntityId r) \<and>
     distinct (map enId (liveEntities t)) \<and> distinct (map liId (liveLibraries t))"

lemma scope_ref_rebuild [simp]: "\<lparr>scType = scType s, scId = scId s\<rparr> = s"
  by (cases s) auto

lemma scope_ref_eq: "s = \<lparr>scType = ty, scId = i\<rparr> \<longleftrightarrow> scType s = ty \<and> scId s = i"
  by (cases s) auto

lemma mem_idsOf: "i \<in> set (idsOf ss ty) \<longleftrightarrow> \<lparr>scType = ty, scId = i\<rparr> \<in> set ss"
  unfolding idsOf_def by (auto simp: image_iff)

lemma map_filter_all:
  assumes "length (List.map_filter f xs) = length xs"
  shows "\<exists>ys. map f xs = map Some ys \<and> List.map_filter f xs = ys"
  using assms
proof (induction xs)
  case (Cons x xs)
  have le: "length (List.map_filter f zs) \<le> length zs" for zs
    by (induction zs) (auto simp: List.map_filter_simps split: option.splits)
  show ?case
  proof (cases "f x")
    case None
    then show ?thesis using Cons.prems le [of xs] by (simp add: List.map_filter_simps)
  next
    case (Some y)
    then obtain ys where "map f xs = map Some ys" "List.map_filter f xs = ys"
      using Cons by (auto simp: List.map_filter_simps)
    then have "map f (x # xs) = map Some (y # ys)" "List.map_filter f (x # xs) = y # ys"
      using Some by (simp_all add: List.map_filter_simps)
    then show ?thesis by blast
  qed
qed (simp add: List.map_filter_simps)

lemma found_keys:
  assumes "map f ids = map Some ys" and "\<And>i y. f i = Some y \<Longrightarrow> y \<in> S \<and> key y = i"
  shows "map key ys = ids \<and> set ys \<subseteq> S"
  using assms by (induction ids arbitrary: ys) (auto simp: map_eq_Cons_conv)

text \<open>The scopes above a library: its owner's chain, node by node.\<close>

definition entityReached :: "scope_tables \<Rightarrow> scope_ref list \<Rightarrow> ident \<Rightarrow> bool" where
  "entityReached t ss e \<longleftrightarrow> \<lparr>scType = ENTITY, scId = e\<rparr> \<in> set ss \<or>
     (\<exists>r \<in> set (liveEntities t). enId r = e \<and> \<lparr>scType = COMPANY, scId = enCompanyId r\<rparr> \<in> set ss)"

definition organisationalPart :: "scope_tables \<Rightarrow> chain_node list \<Rightarrow> bool" where
  "organisationalPart t up \<longleftrightarrow> up \<noteq> [] \<and> hd up = tenantNode t \<and>
     (\<forall>n \<in> set up. \<not> cnBreaks n \<and> scType (cnScope n) \<in> {TENANT, COMPANY, ENTITY, DEPARTMENT})"

lemma entity_chain:
  assumes "fromEntity t e = Some up" and "distinct (map enId (liveEntities t))"
  shows "entityReached t ss e \<longleftrightarrow> (\<exists>n \<in> set up. scType (cnScope n) \<noteq> TENANT \<and> cnScope n \<in> set ss)"
    and "organisationalPart t up"
proof -
  obtain r c where r: "findEntity t e = Some r" and c: "findCompany t (enCompanyId r) = Some c"
    and up: "up = [tenantNode t, plainNode COMPANY (coId c), plainNode ENTITY (enId r)]"
    using assms(1) by (auto simp: fromEntity_def split: option.splits)
  have rl: "r \<in> set (liveEntities t)" "enId r = e"
    using find_Some_mem [OF r [unfolded findEntity_def]] by auto
  have cc: "coId c = enCompanyId r" using find_Some_mem [OF c [unfolded findCompany_def]] by auto
  have "q = r" if "q \<in> set (liveEntities t)" "enId q = e" for q
    using distinct_map_eq [OF assms(2) that(1) rl(1)] that(2) rl(2) by simp
  then have "entityReached t ss e \<longleftrightarrow> \<lparr>scType = ENTITY, scId = e\<rparr> \<in> set ss \<or> \<lparr>scType = COMPANY, scId = enCompanyId r\<rparr> \<in> set ss"
    unfolding entityReached_def using rl by blast
  then show "entityReached t ss e \<longleftrightarrow> (\<exists>n \<in> set up. scType (cnScope n) \<noteq> TENANT \<and> cnScope n \<in> set ss)"
    using up cc rl(2) by (auto simp: plainNode_def tenantNode_def)
  show "organisationalPart t up"
    using up by (simp add: organisationalPart_def plainNode_def tenantNode_def)
qed

definition departmentReached :: "scope_tables \<Rightarrow> scope_ref list \<Rightarrow> ident \<Rightarrow> bool" where
  "departmentReached t ss d \<longleftrightarrow>
     \<lparr>scType = DEPARTMENT, scId = d\<rparr> \<in> set ss \<or>
     (\<exists>r \<in> set (liveDepartments t). deId r = d \<and> entityReached t ss (deEntityId r))"

lemma librariesUnder_iff:
  assumes "ss \<noteq> []"
  shows "i \<in> set (librariesUnder t ss) \<longleftrightarrow>
    (\<exists>l \<in> set (liveLibraries t). \<exists>owner. liId l = i \<and> liOwnerScopeId l = Some owner \<and>
       (liOwnerScopeType l = COMPANY \<and> \<lparr>scType = COMPANY, scId = owner\<rparr> \<in> set ss \<or>
        liOwnerScopeType l = ENTITY \<and> entityReached t ss owner \<or>
        liOwnerScopeType l = DEPARTMENT \<and> (departmentReached t ss owner \<or>
          (\<exists>x \<in> set (liveDepartments t). \<exists>root \<in> set (liveDepartments t). deId x = owner \<and>
             departmentReached t ss (deId root) \<and>
             (deId x = deId root \<or> startsWith (dePath x) (subtreePrefix (dePath root)))))))"
proof -
  define entityIds where "entityIds = idsOf ss ENTITY
    @ map enId (filter (\<lambda>e. enCompanyId e \<in> set (idsOf ss COMPANY) \<and> \<not> enDeleted e) (entities t))"
  define direct where "direct = idsOf ss DEPARTMENT
    @ map deId (filter (\<lambda>d. deEntityId d \<in> set entityIds \<and> \<not> deDeleted d) (departments t))"
  define subtree where "subtree = map deId (findSubtrees t direct)"
  have e: "x \<in> set entityIds \<longleftrightarrow> entityReached t ss x" for x
    by (auto simp: entityIds_def mem_idsOf entityReached_def)
  have d: "x \<in> set direct \<longleftrightarrow> departmentReached t ss x" for x
    by (auto simp: direct_def mem_idsOf departmentReached_def e)
  have f: "x \<in> set subtree \<longleftrightarrow>
      (\<exists>y \<in> set (liveDepartments t). \<exists>root \<in> set (liveDepartments t). deId y = x \<and> departmentReached t ss (deId root) \<and>
             (deId y = deId root \<or> startsWith (dePath y) (subtreePrefix (dePath root))))" for x
    by (auto simp: subtree_def findSubtrees_def Let_def d subtreePattern_def subtreePrefix_def butlast_append)
  have "librariesUnder t ss = map liId (filter (\<lambda>l. \<not> liDeleted l \<and>
            (case liOwnerScopeId l of
               None \<Rightarrow> False
             | Some owner \<Rightarrow>
                 liOwnerScopeType l = COMPANY \<and> owner \<in> set (idsOf ss COMPANY) \<or>
                 liOwnerScopeType l = ENTITY \<and> owner \<in> set entityIds \<or>
                 liOwnerScopeType l = DEPARTMENT \<and> owner \<in> set (direct @ subtree))) (libraries t))"
    unfolding librariesUnder_def Let_def entityIds_def direct_def subtree_def by (rule if_not_P [OF assms])
  then show ?thesis
    unfolding mem_idsOf set_append Un_iff e d f [symmetric]
    by (auto split: option.splits)
qed

text \<open>The nodes above a library, and the sources of an organisational scope that reach it.\<close>

lemma department_shape:
  assumes up: "fromOrganisation t \<lparr>scType = DEPARTMENT, scId = d\<rparr> = Some up"
  shows "\<exists>D org ys. D \<in> set (liveDepartments t) \<and> deId D = d \<and> fromEntity t (deEntityId D) = Some org \<and>
    up = org @ map (\<lambda>d. plainNode DEPARTMENT (deId d)) ys \<and> map deId ys = idsInPath (dePath D) \<and>
    set ys \<subseteq> set (liveDepartments t)"
proof -
  obtain D org where D: "findDepartment t d = Some D"
    and rows: "length (findDepartmentsByIds t (idsInPath (dePath D))) = length (idsInPath (dePath D))"
    and org: "fromEntity t (deEntityId D) = Some org"
    and shape: "up = org @ map (\<lambda>d. plainNode DEPARTMENT (deId d)) (findDepartmentsByIds t (idsInPath (dePath D)))"
    using up by (auto simp: fromOrganisation_def Let_def split: option.splits if_splits)
  have Dl: "D \<in> set (liveDepartments t)" "deId D = d"
    using find_Some_mem [OF D [unfolded findDepartment_def]] by auto
  obtain ys where ys: "map (findDepartment t) (idsInPath (dePath D)) = map Some ys"
      "findDepartmentsByIds t (idsInPath (dePath D)) = ys"
    using map_filter_all [OF rows [unfolded findDepartmentsByIds_def]] by (auto simp: findDepartmentsByIds_def)
  have found: "findDepartment t i = Some y \<Longrightarrow> y \<in> set (liveDepartments t) \<and> deId y = i" for i y
    using find_Some_mem [of _ "departments t" y] by (auto simp: findDepartment_def)
  have "map deId ys = idsInPath (dePath D) \<and> set ys \<subseteq> set (liveDepartments t)"
    by (rule found_keys [OF ys(1)]) (use found in auto)
  then show ?thesis using Dl org shape ys(2) by blast
qed

text \<open>
  A department is reached by the scopes above it exactly when one of its ancestors is named, or its
  entity is reached.
\<close>

lemma department_reached:
  assumes ok: "organisationOk t" and Dl: "D \<in> set (liveDepartments t)"
    and anc: "map deId ys = idsInPath (dePath D)" "set ys \<subseteq> set (liveDepartments t)"
  shows "(departmentReached t ss (deId D) \<or>
      (\<exists>x \<in> set (liveDepartments t). \<exists>root \<in> set (liveDepartments t). deId x = deId D \<and> departmentReached t ss (deId root) \<and>
         (deId x = deId root \<or> startsWith (dePath x) (subtreePrefix (dePath root)))))
    \<longleftrightarrow> entityReached t ss (deEntityId D) \<or> (\<exists>y \<in> set ys. \<lparr>scType = DEPARTMENT, scId = deId y\<rparr> \<in> set ss)"
    (is "?L \<longleftrightarrow> ?M")
proof
  have tree: "treeOk deId dePath (liveDepartments t)"
    and same: "\<And>x r. \<lbrakk>x \<in> set (liveDepartments t); r \<in> set (liveDepartments t); isAtOrBelow (dePath x) (dePath r)\<rbrakk>
      \<Longrightarrow> deEntityId x = deEntityId r"
    using ok by (auto simp: organisationOk_def)
  have below: "isAtOrBelow (dePath D) (dePath r) \<longleftrightarrow> deId r \<in> deId ` set ys" if "r \<in> set (liveDepartments t)" for r
    using tree_below [OF tree Dl that] by (simp flip: anc(1))
  have root: ?M if "r \<in> set (liveDepartments t)" "isAtOrBelow (dePath D) (dePath r)" "departmentReached t ss (deId r)" for r
    using that(3) tree_key [OF tree _ that(1)] same [OF Dl that(1,2)] below [OF that(1)] that(2)
    unfolding departmentReached_def by auto
  show ?M if ?L
    using that
  proof (elim disjE bexE conjE)
    assume "departmentReached t ss (deId D)"
    then show ?M using root [OF Dl] by (simp add: isAtOrBelow_def)
  next
    fix x r
    assume x: "x \<in> set (liveDepartments t)" "deId x = deId D"
      and r: "r \<in> set (liveDepartments t)" "departmentReached t ss (deId r)"
    have xD: "x = D" by (rule tree_key [OF tree x(1) Dl x(2)])
    show ?M if "deId x = deId r" using root [OF r(1) _ r(2)] tree_key [OF tree x(1) r(1) that] xD by (simp add: isAtOrBelow_def)
    show ?M if "startsWith (dePath x) (subtreePrefix (dePath r))"
      using root [OF r(1) _ r(2)] that xD by (simp add: isAtOrBelow_def subtreePrefix_def)
  qed
  show ?L if ?M
    using that
  proof (elim disjE bexE)
    assume "entityReached t ss (deEntityId D)"
    then show ?L using Dl by (auto simp: departmentReached_def)
  next
    fix y
    assume y: "y \<in> set ys" "\<lparr>scType = DEPARTMENT, scId = deId y\<rparr> \<in> set ss"
    then have yl: "y \<in> set (liveDepartments t)" using anc(2) by blast
    have at: "isAtOrBelow (dePath D) (dePath y)" unfolding below [OF yl] using y(1) by blast
    have "deId D = deId y" if "dePath D = dePath y"
      using treeOkD(4) [OF tree Dl] treeOkD(4) [OF tree yl] that by simp
    then have "deId D = deId y \<or> startsWith (dePath D) (subtreePrefix (dePath y))"
      using at by (auto simp: isAtOrBelow_def subtreePrefix_def)
    moreover have "departmentReached t ss (deId y)" using y(2) by (simp add: departmentReached_def)
    ultimately show ?L using Dl yl by blast
  qed
qed

lemma department_chain:
  assumes up: "fromOrganisation t \<lparr>scType = DEPARTMENT, scId = d\<rparr> = Some up" and ok: "organisationOk t"
  shows "(departmentReached t ss d \<or>
      (\<exists>x \<in> set (liveDepartments t). \<exists>root \<in> set (liveDepartments t). deId x = d \<and> departmentReached t ss (deId root) \<and>
         (deId x = deId root \<or> startsWith (dePath x) (subtreePrefix (dePath root)))))
    \<longleftrightarrow> (\<exists>n \<in> set up. scType (cnScope n) \<noteq> TENANT \<and> cnScope n \<in> set ss)" (is "?L \<longleftrightarrow> ?R")
    and "organisationalPart t up"
proof -
  obtain D org ys where D: "D \<in> set (liveDepartments t)" "deId D = d" and org: "fromEntity t (deEntityId D) = Some org"
    and shape: "up = org @ map (\<lambda>d. plainNode DEPARTMENT (deId d)) ys"
    and ys: "map deId ys = idsInPath (dePath D)" "set ys \<subseteq> set (liveDepartments t)"
    using department_shape [OF up] by blast
  have ents: "distinct (map enId (liveEntities t))" using ok by (simp add: organisationOk_def)
  show "?L \<longleftrightarrow> ?R"
    unfolding D(2) [symmetric] department_reached [OF ok D(1) ys] entity_chain(1) [OF org ents] shape
    by (auto simp: plainNode_def bex_Un)
  show "organisationalPart t up"
    using entity_chain(2) [OF org ents] by (auto simp: organisationalPart_def shape plainNode_def)
qed

lemma company_chain:
  assumes "fromOrganisation t \<lparr>scType = COMPANY, scId = c\<rparr> = Some up"
  shows "up = [tenantNode t, plainNode COMPANY c]"
  using assms find_Some_mem [of _ "companies t"] by (auto simp: fromOrganisation_def findCompany_def)

lemma library_chain:
  assumes lib: "fromLibrary t i = Some chain" and ok: "organisationOk t"
    and kinds: "\<forall>s \<in> set ss. scType s \<in> {COMPANY, ENTITY, DEPARTMENT}"
  shows "\<exists>up. chain = up @ [plainNode LIBRARY i] \<and> organisationalPart t up \<and>
    (i \<in> set (librariesUnder t ss) \<longleftrightarrow> (\<exists>n \<in> set up. cnScope n \<in> set ss))"
proof -
  obtain L up where L: "List.find (\<lambda>l. liId l = i \<and> \<not> liDeleted l) (libraries t) = Some L"
    and up: "(if liOwnerScopeType L = TENANT then Some [tenantNode t]
                 else (case liOwnerScopeId L of
                         None \<Rightarrow> Some [tenantNode t]
                       | Some owner \<Rightarrow> fromOrganisation t \<lparr>scType = liOwnerScopeType L, scId = owner\<rparr>)) = Some up"
    and chain: "chain = up @ [plainNode LIBRARY (liId L)]"
    using lib by (auto simp: fromLibrary_def split: option.splits)
  have Ll: "L \<in> set (liveLibraries t)" "liId L = i" using find_Some_mem [OF L] by auto
  have one: "l = L" if "l \<in> set (liveLibraries t)" "liId l = i" for l
    using distinct_map_eq [of liId, OF _ that(1) Ll(1)] that(2) Ll(2) ok by (simp add: organisationOk_def)
  have under: "i \<in> set (librariesUnder t ss) \<longleftrightarrow> ss \<noteq> [] \<and>
    (\<exists>owner. liOwnerScopeId L = Some owner \<and>
       (liOwnerScopeType L = COMPANY \<and> \<lparr>scType = COMPANY, scId = owner\<rparr> \<in> set ss \<or>
        liOwnerScopeType L = ENTITY \<and> entityReached t ss owner \<or>
        liOwnerScopeType L = DEPARTMENT \<and> (departmentReached t ss owner \<or>
          (\<exists>x \<in> set (liveDepartments t). \<exists>root \<in> set (liveDepartments t). deId x = owner \<and>
             departmentReached t ss (deId root) \<and>
             (deId x = deId root \<or> startsWith (dePath x) (subtreePrefix (dePath root)))))))"
  proof (cases "ss = []")
    case True
    then show ?thesis by (simp add: librariesUnder_def)
  next
    case False
    show ?thesis unfolding librariesUnder_iff [OF False] using Ll one False by blast
  qed
  have tn: "(\<exists>n \<in> set up. cnScope n \<in> set ss) \<longleftrightarrow> (\<exists>n \<in> set up. scType (cnScope n) \<noteq> TENANT \<and> cnScope n \<in> set ss)"
    using kinds by force
  have ne: "(\<exists>n \<in> set up. cnScope n \<in> set ss) \<Longrightarrow> ss \<noteq> []" by auto
  have "organisationalPart t up \<and>
    (i \<in> set (librariesUnder t ss) \<longleftrightarrow> (\<exists>n \<in> set up. cnScope n \<in> set ss))"
  proof (cases "liOwnerScopeType L = TENANT \<or> liOwnerScopeId L = None")
    case True
    then have "up = [tenantNode t]" using up by (auto split: if_splits)
    then show ?thesis using True kinds unfolding under tn by (auto simp: organisationalPart_def tenantNode_def plainNode_def)
  next
    case False
    then obtain owner where owner: "liOwnerScopeId L = Some owner"
      and org: "fromOrganisation t \<lparr>scType = liOwnerScopeType L, scId = owner\<rparr> = Some up"
      using up by auto
    show ?thesis
    proof (cases "liOwnerScopeType L")
      case COMPANY
      then have u: "up = [tenantNode t, plainNode COMPANY owner]" using org company_chain by simp
      then show ?thesis using COMPANY owner ne unfolding under tn by (auto simp: organisationalPart_def tenantNode_def plainNode_def)
    next
      case ENTITY
      then have e: "fromEntity t owner = Some up" using org by (simp add: fromOrganisation_def)
      have "distinct (map enId (liveEntities t))" using ok by (simp add: organisationOk_def)
      from entity_chain [OF e this] show ?thesis using ENTITY owner ne unfolding under tn by auto
    next
      case DEPARTMENT
      then have "fromOrganisation t \<lparr>scType = DEPARTMENT, scId = owner\<rparr> = Some up" using org by simp
      from department_chain [OF this ok] show ?thesis using DEPARTMENT owner ne unfolding under tn by auto
    qed (use False org in \<open>auto simp: fromOrganisation_def\<close>)
  qed
  then show ?thesis using chain Ll(2) by blast
qed

subsection \<open>The folders of a document\<close>

lemma folderNodes_rows:
  "folderNodes t ids = Some ns \<Longrightarrow>
   \<exists>gs. ns = map folderNode gs \<and> map foId gs = ids \<and> set gs \<subseteq> set (liveFolders t)"
proof (induction ids arbitrary: ns)
  case (Cons i ids)
  then obtain f ms where f: "findFolder t i = Some f" and ms: "folderNodes t ids = Some ms" "ns = folderNode f # ms"
    by (auto split: option.splits)
  then obtain gs where "ms = map folderNode gs \<and> map foId gs = ids \<and> set gs \<subseteq> set (liveFolders t)"
    using Cons.IH by blast
  then show ?case
    using f ms(2) find_Some_mem [OF f [unfolded findFolder_def]] by (intro exI [of _ "f # gs"]) auto
qed simp

text \<open>The paths a region of the permission leaves out.\<close>

definition cutsFor :: "scope_tables \<Rightarrow> string \<Rightarrow> string list" where
  "cutsFor t permission = (if survivesBrokenInheritance permission then [] else brokenInheritancePaths t)"

definition cutAbove :: "string list \<Rightarrow> string \<Rightarrow> bool" where
  "cutAbove cuts path \<longleftrightarrow> (\<exists>q \<in> set cuts. isAtOrBelow path q)"

definition cutBetween :: "string list \<Rightarrow> string \<Rightarrow> string \<Rightarrow> bool" where
  "cutBetween cuts base path \<longleftrightarrow> (\<exists>q \<in> set cuts. startsWith q (subtreePrefix base) \<and> isAtOrBelow path q)"

lemma ancestry_rows:
  assumes tree: "treeOk foId foPath (liveFolders t)" and f: "f \<in> set (liveFolders t)"
    and gs: "map foId gs = idsInPath (foPath f)" "set gs \<subseteq> set (liveFolders t)" and h: "h \<in> set (liveFolders t)"
  shows "h \<in> set gs \<longleftrightarrow> isAtOrBelow (foPath f) (foPath h)"
proof -
  have "isAtOrBelow (foPath f) (foPath h) \<longleftrightarrow> foId h \<in> foId ` set gs"
    using tree_below [OF tree f h] by (simp flip: gs(1))
  then show ?thesis using tree_key [OF tree h] gs(2) by blast
qed

lemma cuts_on_ancestry:
  assumes tree: "treeOk foId foPath (liveFolders t)" and f: "f \<in> set (liveFolders t)"
    and gs: "map foId gs = idsInPath (foPath f)" "set gs \<subseteq> set (liveFolders t)"
  shows "q \<in> set (cutsFor t permission) \<and> isAtOrBelow (foPath f) q \<longleftrightarrow>
    \<not> survivesBrokenInheritance permission \<and> (\<exists>h \<in> set gs. \<not> foInheritAcl h \<and> q = foPath h)"
  using gs(2) ancestry_rows [OF tree f gs] by (auto simp: cutsFor_def brokenInheritancePaths_def)

lemma cut_characterised:
  assumes tree: "treeOk foId foPath (liveFolders t)" and f: "f \<in> set (liveFolders t)"
    and gs: "map foId gs = idsInPath (foPath f)" "set gs \<subseteq> set (liveFolders t)"
  shows "cutAbove (cutsFor t permission) (foPath f) \<longleftrightarrow>
      \<not> survivesBrokenInheritance permission \<and> (\<exists>h \<in> set gs. \<not> foInheritAcl h)"
    and "g \<in> set gs \<Longrightarrow> cutBetween (cutsFor t permission) (foPath g) (foPath f) \<longleftrightarrow>
      \<not> survivesBrokenInheritance permission \<and>
      (\<exists>h \<in> set gs. \<not> foInheritAcl h \<and> strict_prefix (idsInPath (foPath g)) (idsInPath (foPath h)))"
proof -
  note onto = cuts_on_ancestry [OF tree f gs, of _ permission]
  show "cutAbove (cutsFor t permission) (foPath f) \<longleftrightarrow>
      \<not> survivesBrokenInheritance permission \<and> (\<exists>h \<in> set gs. \<not> foInheritAcl h)"
  proof -
    have "cutAbove (cutsFor t permission) (foPath f) \<longleftrightarrow>
        (\<exists>q. q \<in> set (cutsFor t permission) \<and> isAtOrBelow (foPath f) q)" by (auto simp: cutAbove_def)
    then show ?thesis unfolding onto by blast
  qed
  assume g: "g \<in> set gs"
  have step: "startsWith (foPath h) (subtreePrefix (foPath g)) \<longleftrightarrow> strict_prefix (idsInPath (foPath g)) (idsInPath (foPath h))"
    if "h \<in> set gs" for h
    by (rule tree_strictly_below [OF tree]) (use that g gs(2) in auto)
  have "cutBetween (cutsFor t permission) (foPath g) (foPath f) \<longleftrightarrow> \<not> survivesBrokenInheritance permission \<and>
      (\<exists>h \<in> set gs. \<not> foInheritAcl h \<and> startsWith (foPath h) (subtreePrefix (foPath g)))"
  proof -
    have "cutBetween (cutsFor t permission) (foPath g) (foPath f) \<longleftrightarrow>
        (\<exists>q. (q \<in> set (cutsFor t permission) \<and> isAtOrBelow (foPath f) q) \<and> startsWith q (subtreePrefix (foPath g)))"
      by (auto simp: cutBetween_def)
    then show ?thesis unfolding onto by blast
  qed
  then show "cutBetween (cutsFor t permission) (foPath g) (foPath f) \<longleftrightarrow>
      \<not> survivesBrokenInheritance permission \<and>
      (\<exists>h \<in> set gs. \<not> foInheritAcl h \<and> strict_prefix (idsInPath (foPath g)) (idsInPath (foPath h)))"
    using step by (simp cong: bex_cong)
qed

text \<open>Below the deepest break, the folders that no cut separates from the document are exactly those of the chain.\<close>

lemma uncut_folders:
  assumes tree: "treeOk foId foPath (liveFolders t)" and f: "f \<in> set (liveFolders t)"
    and gs: "map foId (g1 @ b # g2) = idsInPath (foPath f)" "set (g1 @ b # g2) \<subseteq> set (liveFolders t)"
    and ns: "\<not> survivesBrokenInheritance permission" and b: "\<not> foInheritAcl b" and g2: "\<forall>h \<in> set g2. foInheritAcl h"
  shows "{g \<in> set (g1 @ b # g2). \<not> cutBetween (cutsFor t permission) (foPath g) (foPath f)} = insert b (set g2)"
proof -
  note between = cut_characterised(2) [OF tree f gs, of _ permission]
  have sorted: "sorted_wrt (\<lambda>g h. strict_prefix (idsInPath (foPath g)) (idsInPath (foPath h))) (g1 @ b # g2)"
    by (rule ancestry_sorted [OF tree f gs(2,1)])
  have "cutBetween (cutsFor t permission) (foPath g) (foPath f)" if "g \<in> set g1" for g
    using between [of g] that sorted b ns by (auto simp: sorted_wrt_append)
  moreover have "\<not> cutBetween (cutsFor t permission) (foPath g) (foPath f)" if "g \<in> insert b (set g2)" for g
  proof
    assume "cutBetween (cutsFor t permission) (foPath g) (foPath f)"
    moreover have "g \<in> set (g1 @ b # g2)" using that by auto
    ultimately obtain h where "h \<in> set (g1 @ b # g2)" "\<not> foInheritAcl h"
      and gh: "strict_prefix (idsInPath (foPath g)) (idsInPath (foPath h))"
      using between by blast
    then have h: "h \<in> set g1 \<union> {b}" using g2 by auto
    have "h = g \<or> strict_prefix (idsInPath (foPath h)) (idsInPath (foPath g))"
      using h that sorted by (auto simp: sorted_wrt_append)
    then show False using gh by (metis prefix_order.less_asym prefix_order.less_irrefl)
  qed
  ultimately show ?thesis by auto
qed

lemma effective_document_chain:
  assumes tree: "treeOk foId foPath (liveFolders t)" and f: "f \<in> set (liveFolders t)"
    and gs: "map foId gs = idsInPath (foPath f)" "set gs \<subseteq> set (liveFolders t)"
    and up: "organisationalPart t up"
    and chain: "chain = up @ plainNode LIBRARY l # map folderNode gs @ [plainNode DOCUMENT i]"
  shows "set (effectiveChain chain permission) =
      (if cutAbove (cutsFor t permission) (foPath f) then {} else insert (plainNode LIBRARY l) (set up))
      \<union> folderNode ` {g \<in> set gs. \<not> cutBetween (cutsFor t permission) (foPath g) (foPath f)} \<union> {plainNode DOCUMENT i}
    \<and> (reachesTenant (effectiveChain chain permission) \<longleftrightarrow> \<not> cutAbove (cutsFor t permission) (foPath f))"
proof (cases "cutAbove (cutsFor t permission) (foPath f)")
  case False
  have plain: "\<forall>n \<in> set up. \<not> cnBreaks n" "up \<noteq> []" "hd up = tenantNode t" using up by (auto simp: organisationalPart_def)
  have no: "survivesBrokenInheritance permission \<or> (\<forall>h \<in> set gs. foInheritAcl h)"
    using False cut_characterised(1) [OF tree f gs] by blast
  have "effectiveChain chain permission = chain"
  proof (cases "survivesBrokenInheritance permission")
    case False
    then have "\<forall>n \<in> set chain. \<not> cnBreaks n"
      using no plain(1) by (auto simp: chain plainNode_def folderNode_def)
    then show ?thesis by (rule effectiveChain_whole)
  qed (simp add: effectiveChain_def)
  moreover have "\<not> cutBetween (cutsFor t permission) (foPath g) (foPath f)" if "g \<in> set gs" for g
    using no cut_characterised(2) [OF tree f gs that] by blast
  ultimately show ?thesis
    using False plain(2,3) by (cases up) (auto simp: chain reachesTenant_def tenantNode_def plainNode_def)
next
  case True
  then have ns: "\<not> survivesBrokenInheritance permission" and "\<exists>h \<in> set gs. \<not> foInheritAcl h"
    using cut_characterised(1) [OF tree f gs] by auto
  then obtain g1 b g2 where split: "gs = g1 @ b # g2" and b: "\<not> foInheritAcl b" and g2: "\<forall>h \<in> set g2. foInheritAcl h"
    using split_list_last_prop [of gs "\<lambda>h. \<not> foInheritAcl h"] by auto
  have "effectiveChain chain permission = folderNode b # map folderNode g2 @ [plainNode DOCUMENT i]"
    unfolding chain split
    using effectiveChain_cut [OF ns, of "folderNode b" "map folderNode g2 @ [plainNode DOCUMENT i]"
        "up @ plainNode LIBRARY l # map folderNode g1"] b g2 by (simp add: folderNode_def plainNode_def)
  moreover have "{g \<in> set gs. \<not> cutBetween (cutsFor t permission) (foPath g) (foPath f)} = insert b (set g2)"
    using uncut_folders [OF tree f _ _ ns b g2] gs split by simp
  ultimately show ?thesis
    using True by (auto simp: reachesTenant_def folderNode_def)
qed

subsection \<open>Sources of a region and nodes of the chain\<close>

definition isOrganisational :: "acl_row \<Rightarrow> bool" where
  "isOrganisational a \<longleftrightarrow> scType (acScope a) \<in> {COMPANY, ENTITY, DEPARTMENT}"

lemma regions_cover:
  "(\<exists>r \<in> set (regionsFor t src cuts wide). covers v r) \<longleftrightarrow>
     (wide \<or> (\<exists>a \<in> set src. scType (acScope a) = TENANT) \<or>
      (\<exists>a \<in> set src. scType (acScope a) = LIBRARY \<and> scId (acScope a) = dvLibraryId v) \<or>
      dvLibraryId v \<in> set (librariesUnder (scopes t) (map acScope (filter isOrganisational src))))
       \<and> \<not> cutAbove cuts (dvFolderPath v) \<or>
     (\<exists>a \<in> set src. scType (acScope a) = FOLDER \<and>
        (\<exists>g \<in> set (liveFolders (scopes t)). foId g = scId (acScope a) \<and> isAtOrBelow (dvFolderPath v) (foPath g) \<and>
           \<not> cutBetween cuts (foPath g) (dvFolderPath v))) \<or>
     (\<exists>a \<in> set src. scType (acScope a) = DOCUMENT \<and> scId (acScope a) = dvId v)"
proof -
  define libs where "libs = remdups (map (\<lambda>a. scId (acScope a)) (ofType LIBRARY src)
                   @ librariesUnder (scopes t) (map acScope (filter isOrganisational src)))"
  define w where "w \<longleftrightarrow> wide \<or> ofType TENANT src \<noteq> []"
  define fo where "fo = filter (\<lambda>f. foId f \<in> set (map (\<lambda>a. scId (acScope a)) (ofType FOLDER src)) \<and> \<not> foDeleted f) (folders (scopes t))"
  define docIds where "docIds = map (\<lambda>a. scId (acScope a)) (ofType DOCUMENT src)"
  have shape: "regionsFor t src cuts wide =
      (if w \<or> libs \<noteq> [] then [\<lparr>tenantWide = w, libraryIds = libs, folderPaths = [], documentIds = [],
                 excludedFolderPaths = cuts\<rparr>] else [])
         @ map (\<lambda>f. \<lparr>tenantWide = False, libraryIds = [], folderPaths = [foPath f], documentIds = [],
                     excludedFolderPaths = filter (\<lambda>p. startsWith p (subtreePrefix (foPath f))) cuts\<rparr>) fo
         @ (if docIds \<noteq> []
            then [\<lparr>tenantWide = False, libraryIds = [], folderPaths = [], documentIds = docIds,
                   excludedFolderPaths = []\<rparr>] else [])"
    unfolding regionsFor_def Let_def w_def libs_def fo_def docIds_def isOrganisational_def [abs_def] by simp
  have covered: "(\<exists>r \<in> set (regionsFor t src cuts wide). covers v r) \<longleftrightarrow>
      (w \<or> dvLibraryId v \<in> set libs) \<and> \<not> cutAbove cuts (dvFolderPath v) \<or>
      (\<exists>f \<in> set fo. isAtOrBelow (dvFolderPath v) (foPath f) \<and> \<not> cutBetween cuts (foPath f) (dvFolderPath v)) \<or>
      dvId v \<in> set docIds"
    unfolding shape set_append bex_Un by (auto simp: covers_def cutAbove_def cutBetween_def)
  have "w \<longleftrightarrow> wide \<or> (\<exists>a \<in> set src. scType (acScope a) = TENANT)"
    by (auto simp: w_def ofType_def filter_empty_conv)
  moreover have "x \<in> set libs \<longleftrightarrow> (\<exists>a \<in> set src. scType (acScope a) = LIBRARY \<and> scId (acScope a) = x) \<or>
      x \<in> set (librariesUnder (scopes t) (map acScope (filter isOrganisational src)))" for x
    by (auto simp: libs_def ofType_def)
  moreover have "x \<in> set docIds \<longleftrightarrow> (\<exists>a \<in> set src. scType (acScope a) = DOCUMENT \<and> scId (acScope a) = x)" for x
    by (auto simp: docIds_def ofType_def)
  moreover have "f \<in> set fo \<longleftrightarrow> f \<in> set (liveFolders (scopes t)) \<and> (\<exists>a \<in> set src. scType (acScope a) = FOLDER \<and> foId f = scId (acScope a))" for f
    by (auto simp: fo_def ofType_def)
  ultimately show ?thesis unfolding covered by blast
qed

text \<open>The row the list query evaluates the predicate on.\<close>

definition viewOf :: "scope_tables \<Rightarrow> ident \<Rightarrow> document_view option" where
  "viewOf t i =
     (case List.find (\<lambda>d. fdId d = i) (filed t) of
        None \<Rightarrow> None
      | Some d \<Rightarrow> map_option (\<lambda>f. \<lparr>dvId = fdId d, dvLibraryId = foLibraryId f, dvFolderPath = foPath f\<rparr>)
                   (findFolder t (fdFolderId d)))"

lemma document_chain:
  assumes c: "chainFor t \<lparr>scType = DOCUMENT, scId = i\<rparr> = Some chain" and v: "viewOf t i = Some v"
  shows "\<exists>f up gs. f \<in> set (liveFolders t) \<and> map foId gs = idsInPath (foPath f) \<and> set gs \<subseteq> set (liveFolders t) \<and>
    fromLibrary t (foLibraryId f) = Some up \<and> chain = up @ map folderNode gs @ [plainNode DOCUMENT i] \<and>
    v = \<lparr>dvId = i, dvLibraryId = foLibraryId f, dvFolderPath = foPath f\<rparr>"
proof -
  obtain d f nodes up where d: "List.find (\<lambda>d. fdId d = i) (filed t) = Some d" and f: "findFolder t (fdFolderId d) = Some f"
    and nodes: "folderNodes t (idsInPath (foPath f)) = Some nodes" and up: "fromLibrary t (foLibraryId f) = Some up"
    and chain: "chain = (up @ nodes) @ [plainNode DOCUMENT (fdId d)]"
    using c by (auto simp: chainFor_def fromDocument_def fromFolder_def split: option.splits)
  have "fdId d = i" using find_Some_mem [OF d] by simp
  moreover have "f \<in> set (liveFolders t)" using find_Some_mem [OF f [unfolded findFolder_def]] by simp
  moreover obtain gs where "nodes = map folderNode gs \<and> map foId gs = idsInPath (foPath f) \<and> set gs \<subseteq> set (liveFolders t)"
    using folderNodes_rows [OF nodes] by blast
  ultimately show ?thesis using v d f up chain by (auto simp: viewOf_def)
qed

text \<open>
  The tables are well formed: the two trees are, a tenant-level entry names the tenant, and an
  identifier of one kind of scope is never one of another on the chain in question.
\<close>

definition scopesOk :: "acl_tables \<Rightarrow> bool" where
  "scopesOk t \<longleftrightarrow> treeOk foId foPath (liveFolders (scopes t)) \<and> organisationOk (scopes t) \<and>
     (\<forall>a \<in> set (aclRows t). scType (acScope a) = TENANT \<longrightarrow> scId (acScope a) = tenantOf (scopes t))"

definition kindsApart :: "acl_tables \<Rightarrow> chain_node list \<Rightarrow> bool" where
  "kindsApart t chain \<longleftrightarrow>
     (\<forall>a \<in> set (aclRows t). \<forall>n \<in> set chain. scId (acScope a) = scId (cnScope n) \<longrightarrow> acScope a = cnScope n)"

lemma organisational_sources:
  assumes up: "organisationalPart (scopes t) up" and ok: "scopesOk t" and src: "set src \<subseteq> set (aclRows t)"
  shows "(\<exists>a \<in> set src. \<exists>n \<in> set up. cnScope n = acScope a) \<longleftrightarrow>
    (\<exists>a \<in> set src. scType (acScope a) = TENANT) \<or>
    (\<exists>n \<in> set up. cnScope n \<in> set (map acScope (filter isOrganisational src)))"
proof -
  have "tenantNode (scopes t) \<in> set up" using up by (cases up) (auto simp: organisationalPart_def)
  moreover have "cnScope (tenantNode (scopes t)) = acScope a" if "a \<in> set src" "scType (acScope a) = TENANT" for a
    using ok src that by (auto simp: scopesOk_def tenantNode_def plainNode_def)
  moreover have "isOrganisational a \<or> scType (acScope a) = TENANT" if "n \<in> set up" "cnScope n = acScope a" for a n
    using up that by (auto simp: organisationalPart_def isOrganisational_def)
  ultimately show ?thesis by (auto simp: image_iff) metis+
qed

lemma scope_on_effective:
  assumes eff: "set eff = (if broken then {} else insert (plainNode LIBRARY l) (set up))
      \<union> folderNode ` {g \<in> set gs. \<not> between g} \<union> {plainNode DOCUMENT i}"
    and same: "\<forall>n \<in> set eff. scId s = scId (cnScope n) \<longleftrightarrow> s = cnScope n"
  shows "(\<exists>n \<in> set eff. scId s = scId (cnScope n)) \<longleftrightarrow>
    (s = \<lparr>scType = LIBRARY, scId = l\<rparr> \<or> (\<exists>n \<in> set up. cnScope n = s)) \<and> \<not> broken \<or>
    (\<exists>g \<in> set gs. \<not> between g \<and> s = \<lparr>scType = FOLDER, scId = foId g\<rparr>) \<or> s = \<lparr>scType = DOCUMENT, scId = i\<rparr>"
proof -
  have "(\<exists>n \<in> set eff. scId s = scId (cnScope n)) \<longleftrightarrow> (\<exists>n \<in> set eff. cnScope n = s)"
    using same by metis
  also have "\<dots> \<longleftrightarrow> (s = \<lparr>scType = LIBRARY, scId = l\<rparr> \<or> (\<exists>n \<in> set up. cnScope n = s)) \<and> \<not> broken \<or>
    (\<exists>g \<in> set gs. \<not> between g \<and> s = \<lparr>scType = FOLDER, scId = foId g\<rparr>) \<or> s = \<lparr>scType = DOCUMENT, scId = i\<rparr>"
    unfolding eff bex_Un by (auto simp: plainNode_def folderNode_def)
  finally show ?thesis .
qed

lemma regions_are_chain:
  assumes c: "chainFor (scopes t) \<lparr>scType = DOCUMENT, scId = i\<rparr> = Some chain" and v: "viewOf (scopes t) i = Some v"
    and ok: "scopesOk t" and apart: "kindsApart t chain" and src: "set src \<subseteq> set (aclRows t)"
  shows "(\<exists>r \<in> set (regionsFor t src (cutsFor (scopes t) permission) wide). covers v r) \<longleftrightarrow>
    wide \<and> reachesTenant (effectiveChain chain permission) \<or>
    (\<exists>a \<in> set src. \<exists>n \<in> set (effectiveChain chain permission). scId (acScope a) = scId (cnScope n))"
proof -
  let ?t = "scopes t" and ?cuts = "cutsFor (scopes t) permission" and ?eff = "effectiveChain chain permission"
  obtain f lib gs where f: "f \<in> set (liveFolders ?t)"
    and gs: "map foId gs = idsInPath (foPath f)" "set gs \<subseteq> set (liveFolders ?t)"
    and lib: "fromLibrary ?t (foLibraryId f) = Some lib" and chain: "chain = lib @ map folderNode gs @ [plainNode DOCUMENT i]"
    and view: "v = \<lparr>dvId = i, dvLibraryId = foLibraryId f, dvFolderPath = foPath f\<rparr>"
    using document_chain [OF c v] by blast
  have tree: "treeOk foId foPath (liveFolders ?t)" and org: "organisationOk ?t" using ok by (auto simp: scopesOk_def)
  let ?ss = "map acScope (filter isOrganisational src)"
  obtain up where up: "lib = up @ [plainNode LIBRARY (foLibraryId f)]" "organisationalPart ?t up"
    and under: "foLibraryId f \<in> set (librariesUnder ?t ?ss) \<longleftrightarrow> (\<exists>n \<in> set up. cnScope n \<in> set ?ss)"
    using library_chain [OF lib org, of ?ss] by (auto simp: isOrganisational_def)
  have whole: "chain = up @ plainNode LIBRARY (foLibraryId f) # map folderNode gs @ [plainNode DOCUMENT i]"
    using chain up(1) by simp
  note eff = effective_document_chain [OF tree f gs up(2) whole, of permission]
  have same: "scId (acScope a) = scId (cnScope n) \<longleftrightarrow> acScope a = cnScope n" if "a \<in> set src" "n \<in> set ?eff" for a n
  proof -
    have "n \<in> set chain" using that(2) eff whole by (auto split: if_splits)
    then show ?thesis using apart src that(1) by (auto simp: kindsApart_def)
  qed
  have onto: "(\<exists>n \<in> set ?eff. scId (acScope a) = scId (cnScope n)) \<longleftrightarrow>
      (acScope a = \<lparr>scType = LIBRARY, scId = foLibraryId f\<rparr> \<or> (\<exists>n \<in> set up. cnScope n = acScope a)) \<and> \<not> cutAbove ?cuts (foPath f) \<or>
      (\<exists>g \<in> set gs. \<not> cutBetween ?cuts (foPath g) (foPath f) \<and> acScope a = \<lparr>scType = FOLDER, scId = foId g\<rparr>) \<or>
      acScope a = \<lparr>scType = DOCUMENT, scId = i\<rparr>" if a: "a \<in> set src" for a
    by (rule scope_on_effective [OF conjunct1 [OF eff]]) (use same a in blast)
  have above: "(\<exists>a \<in> set src. \<exists>n \<in> set up. cnScope n = acScope a) \<longleftrightarrow>
      (\<exists>a \<in> set src. scType (acScope a) = TENANT) \<or> foLibraryId f \<in> set (librariesUnder ?t ?ss)"
    unfolding under by (rule organisational_sources [OF up(2) ok src])
  have folder: "(\<exists>g \<in> set gs. \<not> cutBetween ?cuts (foPath g) (foPath f) \<and> acScope a = \<lparr>scType = FOLDER, scId = foId g\<rparr>) \<longleftrightarrow>
      scType (acScope a) = FOLDER \<and> (\<exists>g \<in> set (liveFolders ?t). foId g = scId (acScope a) \<and> isAtOrBelow (foPath f) (foPath g) \<and>
           \<not> cutBetween ?cuts (foPath g) (foPath f))" for a
  proof -
    have "g \<in> set gs \<longleftrightarrow> g \<in> set (liveFolders ?t) \<and> isAtOrBelow (foPath f) (foPath g)" for g
      using ancestry_rows [OF tree f gs] gs(2) by blast
    then show ?thesis unfolding scope_ref_eq by auto
  qed
  have tw: "reachesTenant ?eff \<longleftrightarrow> \<not> cutAbove ?cuts (foPath f)" using eff by (rule conjunct2)
  have "(\<exists>a \<in> set src. \<exists>n \<in> set ?eff. scId (acScope a) = scId (cnScope n)) \<longleftrightarrow>
      ((\<exists>a \<in> set src. acScope a = \<lparr>scType = LIBRARY, scId = foLibraryId f\<rparr>) \<or>
       (\<exists>a \<in> set src. \<exists>n \<in> set up. cnScope n = acScope a)) \<and> \<not> cutAbove ?cuts (foPath f) \<or>
      (\<exists>a \<in> set src. \<exists>g \<in> set gs. \<not> cutBetween ?cuts (foPath g) (foPath f) \<and> acScope a = \<lparr>scType = FOLDER, scId = foId g\<rparr>) \<or>
      (\<exists>a \<in> set src. acScope a = \<lparr>scType = DOCUMENT, scId = i\<rparr>)"
    using onto by (simp cong: bex_cong) blast
  then show ?thesis
    unfolding regions_cover view document_view.simps above folder tw unfolding scope_ref_eq by blast
qed

lemma listForSubjects_set:
  assumes "length (filter (\<lambda>a. acSubjectId a \<in> set ids \<and> acPermission a = permission) (aclRows t)) \<le> limit"
  shows "set (listForSubjects t ids permission (limit + 1))
      = {a \<in> set (aclRows t). acSubjectId a \<in> set ids \<and> acPermission a = permission}"
    and "length (listForSubjects t ids permission (limit + 1)) \<le> limit"
proof -
  let ?rows = "filter (\<lambda>a. acSubjectId a \<in> set ids \<and> acPermission a = permission) (aclRows t)"
  let ?sorted = "sort_key (\<lambda>a. scId (acScope a)) (filter (\<lambda>a. acEffect a = DENY) ?rows)
    @ sort_key (\<lambda>a. scId (acScope a)) (filter (\<lambda>a. acEffect a = ALLOW) ?rows)"
  have eff: "(acEffect a = ALLOW) \<longleftrightarrow> \<not> (acEffect a = DENY)" for a by (cases "acEffect a") auto
  have len: "length ?sorted = length ?rows"
    unfolding eff length_append length_sort by (rule sum_length_filter_compl)
  have "listForSubjects t ids permission (limit + 1) = ?sorted"
    using len assms by (simp add: listForSubjects_def Let_def)
  then show "set (listForSubjects t ids permission (limit + 1))
      = {a \<in> set (aclRows t). acSubjectId a \<in> set ids \<and> acPermission a = permission}"
    and "length (listForSubjects t ids permission (limit + 1)) \<le> limit"
    using len assms eff by auto
qed

lemma walk_entries:
  "entryOn effective (entriesOnChain t effective permission (Some ids)) eff \<longleftrightarrow>
    (\<exists>a \<in> set (aclRows t). acSubjectId a \<in> set ids \<and> acPermission a = permission \<and> acEffect a = eff \<and>
       (\<exists>n \<in> set effective. scId (acScope a) = scId (cnScope n)))"
  by (auto simp: entryOn_def entriesOnChain_def listForChain_def toChainEntry_def)

text \<open>The decision in terms of the rows, also for the caller with neither roles nor an identity.\<close>

lemma resolve_allowed:
  assumes c: "chainFor (scopes t) scope = Some chain"
    and eff_def: "eff = effectiveChain chain permission" and ids_def: "ids = callerSubjectIds (callerOf t subject)"
  shows "allowed (resolve t subject scope permission) \<longleftrightarrow>
    \<not> entryOn eff (entriesOnChain t eff permission (Some ids)) DENY \<and>
    (entryOn eff (entriesOnChain t eff permission (Some ids)) ALLOW \<or>
     permission \<in> set (grantedAmong t (caRoleIds (callerOf t subject)) [permission]) \<and> reachesTenant eff)"
proof (cases "asRoleIds subject = [] \<and> asUserId subject = []")
  case True
  then have "caRoleIds (callerOf t subject) = []" "ids = []"
    by (auto simp: ids_def callerOf_def roleIdsFor_def departmentsOf_def callerSubjectIds_def filter_empty_conv)
  then show ?thesis using True
    by (auto simp: resolve_def closed_def walk_entries grantedAmong_def)
next
  case False
  show ?thesis
    unfolding resolve_def if_not_P [OF False]
    by (simp add: resolveOne_def c Let_def walk_deny_wins eff_def ids_def)
qed

lemma visibilityFilter_full:
  assumes "length (filter (\<lambda>a. acSubjectId a \<in> set (callerSubjectIds (callerOf t subject)) \<and> acPermission a = permission)
      (aclRows t)) \<le> limit"
  shows "\<exists>rows. visibilityFilter t limit subject permission =
      (regionsFor t (filter (\<lambda>a. acEffect a = ALLOW) rows) (cutsFor (scopes t) permission)
         (grantedAmong t (caRoleIds (callerOf t subject)) [permission] \<noteq> []),
       regionsFor t (filter (\<lambda>a. acEffect a = DENY) rows) (cutsFor (scopes t) permission) False) \<and>
    set rows = {a \<in> set (aclRows t). acSubjectId a \<in> set (callerSubjectIds (callerOf t subject)) \<and> acPermission a = permission}"
  using listForSubjects_set [OF assms] by (auto simp: visibilityFilter_def Let_def cutsFor_def)

lemma mem_grantedAmong:
  "p \<in> set (grantedAmong t roles ps) \<longleftrightarrow> p \<in> set ps \<and> (\<exists>r \<in> set roles. (r, p) \<in> set (rolePermissions t))"
  by (force simp: grantedAmong_def)

lemma granted_single: "grantedAmong t roles [p] \<noteq> [] \<longleftrightarrow> p \<in> set (grantedAmong t roles [p])"
proof -
  have "set (grantedAmong t roles [p]) \<subseteq> {p}" by (auto simp: grantedAmong_def)
  then show ?thesis by (cases "grantedAmong t roles [p]") auto
qed

subsection \<open>The answers agree\<close>


text \<open>
  A tenant with one company that owns a library with a root folder, a folder below that breaks
  inheritance, and a document in each; the caller holds one role, granted the view permission.
\<close>

definition sampleScopes :: scope_tables where
  "sampleScopes =
     \<lparr>tenantOf = ''t'', companies = [\<lparr>coId = ''c'', coDeleted = False\<rparr>], entities = [], departments = [],
      libraries = [\<lparr>liId = ''l'', liOwnerScopeType = COMPANY, liOwnerScopeId = Some ''c'', liDeleted = False\<rparr>],
      folders = [\<lparr>foId = ''r'', foLibraryId = ''l'', foPath = ''r'', foInheritAcl = True, foDeleted = False\<rparr>,
                 \<lparr>foId = ''s'', foLibraryId = ''l'', foPath = ''r.s'', foInheritAcl = False, foDeleted = False\<rparr>],
      filed = [\<lparr>fdId = ''d1'', fdFolderId = ''r''\<rparr>, \<lparr>fdId = ''d2'', fdFolderId = ''s''\<rparr>]\<rparr>"

definition sampleEntry :: "scope_type \<Rightarrow> ident \<Rightarrow> effect \<Rightarrow> acl_row" where
  "sampleEntry ty i eff =
     \<lparr>acScope = \<lparr>scType = ty, scId = i\<rparr>, acSubjectType = USER, acSubjectId = ''u'', acPermission = ''document:view'', acEffect = eff\<rparr>"

definition sampleAcl :: "scope_tables \<Rightarrow> acl_row list \<Rightarrow> acl_tables" where
  "sampleAcl scs rows =
     \<lparr>scopes = scs, aclRows = rows, roleRows = [(''ro'', ''author'', False)],
      rolePermissions = [(''ro'', ''document:view'')], memberships = []\<rparr>"

definition sampleCaller :: authorization_subject where
  "sampleCaller = \<lparr>asUserId = ''u'', asRoleIds = [''author'']\<rparr>"


text \<open>
  the capabilities of a batch are the decisions one by one, whatever else is asked for in the
  same call.
\<close>

theorem capabilities_are_decisions:
  "capabilitiesFor t subject scope permissions =
     map (\<lambda>p. (p, allowed (resolve t subject scope p))) permissions"
proof -
  have "resolveOne t subject scope permissions p = resolveOne t subject scope [p] p" if "p \<in> set permissions" for p
    using that unfolding resolveOne_def mem_grantedAmong by (cases "chainFor (scopes t) scope") simp_all
  then show ?thesis
    by (cases "asRoleIds subject = []"; cases "asUserId subject = []")
      (simp_all add: capabilitiesFor_def resolve_def closed_def)
qed

text \<open>
  C11: the token sets stored with a document in the search index give the decision of the resolver to
  every caller, when an identifier of one kind of subject is never one of another.
\<close>

theorem search_index_agrees_with_decision:
  assumes "kindsDisjoint (callerOf t subject) (map toChainEntry (aclRows t))"
    and "granted = grantedAmong t (caRoleIds (callerOf t subject)) [permission]"
  shows "indexMatches (callerSubjectTokens (callerOf t subject) granted) (aclSubjectsFor t scope permission)
    \<longleftrightarrow> allowed (resolve t subject scope permission)"
proof (cases "chainFor (scopes t) scope")
  case None
  then show ?thesis by (simp add: aclSubjectsFor_def indexMatches_def resolve_def resolveOne_def closed_def)
next
  case (Some chain)
  let ?eff = "effectiveChain chain permission" and ?c = "callerOf t subject"
  let ?all = "entriesOnChain t ?eff permission None"
  have "set ?all \<subseteq> set (map toChainEntry (aclRows t))" by (auto simp: entriesOnChain_def listForChain_def)
  then have disj: "kindsDisjoint ?c ?all" using assms(1) by (auto simp: kindsDisjoint_def)
  have "entryOn ?eff (filter (\<lambda>e. ceSubjectId e \<in> set (callerSubjectIds ?c)) ?all) e \<longleftrightarrow>
      entryOn ?eff (entriesOnChain t ?eff permission (Some (callerSubjectIds ?c))) e" for e
    unfolding walk_entries by (auto simp: entryOn_def entriesOnChain_def listForChain_def toChainEntry_def)
  then show ?thesis
    using search_index_agreement [OF disj, of granted ?eff permission]
    unfolding resolve_allowed [OF Some refl refl] walk_deny_wins assms(2) by (simp add: aclSubjectsFor_def Some Let_def)
qed

theorem search_index_agrees_with_decision_witness:
  "indexMatches (callerSubjectTokens (callerOf (sampleAcl sampleScopes [sampleEntry FOLDER ''s'' ALLOW]) sampleCaller) [''document:view''])
     (aclSubjectsFor (sampleAcl sampleScopes [sampleEntry FOLDER ''s'' ALLOW]) \<lparr>scType = DOCUMENT, scId = ''d2''\<rparr> ''document:view'')
   \<longleftrightarrow> allowed (resolve (sampleAcl sampleScopes [sampleEntry FOLDER ''s'' ALLOW]) sampleCaller
         \<lparr>scType = DOCUMENT, scId = ''d2''\<rparr> ''document:view'')"
  by (rule search_index_agrees_with_decision; code_simp)

subsection \<open>Where the list differs\<close>

text \<open>
  a denial at the tenant, in a tenant without inheritance breaks, becomes a denied region without
  a condition, and the translation drops it: the list shows a document that the decision refuses,
  whichever way the client library reads an empty branch.
\<close>

theorem tenant_denial_missing_from_list:
  "let t = sampleAcl (sampleScopes\<lparr>folders := take 1 (folders sampleScopes)\<rparr>) [sampleEntry TENANT ''t'' DENY] in
   decisionReason (resolve t sampleCaller \<lparr>scType = DOCUMENT, scId = ''d1''\<rparr> ''document:view'') = REASON_DENY \<and>
   matches orEmpty \<lparr>dvId = ''d1'', dvLibraryId = ''l'', dvFolderPath = ''r''\<rparr>
     (documentVisibilityWhere (visibilityFilter t 10 sampleCaller ''document:view''))"
  by code_simp

text \<open>
  a caller with the tenant-level grant who is given an entry on one library besides loses the
  other libraries from lists when the client library ignores an empty branch of an \<open>OR\<close>: the decision
  still allows the document.
\<close>

theorem grant_beside_library_entry_shrinks_list:
  "let t = sampleAcl (sampleScopes\<lparr>folders := take 1 (folders sampleScopes)\<rparr>) [sampleEntry LIBRARY ''other'' ALLOW] in
   allowed (resolve t sampleCaller \<lparr>scType = DOCUMENT, scId = ''d1''\<rparr> ''document:view'') \<and>
   \<not> matches False \<lparr>dvId = ''d1'', dvLibraryId = ''l'', dvFolderPath = ''r''\<rparr>
     (documentVisibilityWhere (visibilityFilter t 10 sampleCaller ''document:view''))"
  by code_simp

end
