(* ===== verification/Text_Diff.thy ===== *)
theory Text_Diff
  imports Prelude
begin

text \<open>
  The comparison of two revisions' texts, \<open>src/apps/api/src/modules/revision/domain/text-diff.ts\<close>:
  paragraphs, their alignment along a longest common subsequence, and word spans inside a changed
  paragraph. The dynamic-programming table is the flat array of the source, filled by the same two
  loops; \<open>lcsLen\<close> is its recursive specification.
\<close>

subsection \<open>Paragraphs\<close>

definition MAX_COMPARED_PARAGRAPHS :: nat where
  "MAX_COMPARED_PARAGRAPHS = 1000"

definition NL :: char where
  "NL = char_of (10 :: nat)"

definition CR :: char where
  "CR = char_of (13 :: nat)"

definition startsText :: "string \<Rightarrow> bool" where
  "startsText s \<longleftrightarrow> (case s of [] \<Rightarrow> False | c # _ \<Rightarrow> \<not> isSpace c)"

text \<open>
  The separator \<open>\n{2,}|\r?\n(?=\S)\<close> at the head of the input: the rest after it, when it matches.
\<close>

definition breakAt :: "string \<Rightarrow> string option" where
  "breakAt s =
     (if length (takeWhile (\<lambda>c. c = NL) s) \<ge> 2 then Some (dropWhile (\<lambda>c. c = NL) s)
      else case s of
        a # r \<Rightarrow>
          if a = CR \<and> r \<noteq> [] \<and> hd r = NL \<and> startsText (tl r) then Some (tl r)
          else if a = NL \<and> startsText r then Some r
          else None
      | [] \<Rightarrow> None)"

lemma breakAt_shorter: "breakAt s = Some r \<Longrightarrow> length r < length s"
proof -
  have "length (dropWhile (\<lambda>c. c = NL) s) < length s" if "2 \<le> length (takeWhile (\<lambda>c. c = NL) s)"
  proof -
    have "length s = length (takeWhile (\<lambda>c. c = NL) s) + length (dropWhile (\<lambda>c. c = NL) s)"
      by (metis length_append takeWhile_dropWhile_id)
    then show ?thesis using that by linarith
  qed
  then show "breakAt s = Some r \<Longrightarrow> length r < length s"
    by (auto simp: breakAt_def split: if_splits list.splits)
qed

function splitBreaks :: "string \<Rightarrow> string list" where
  "splitBreaks s =
     (case breakAt s of
        Some r \<Rightarrow> [] # splitBreaks r
      | None \<Rightarrow>
          (case s of
             [] \<Rightarrow> [[]]
           | c # r \<Rightarrow> (case splitBreaks r of [] \<Rightarrow> [[c]] | w # ws \<Rightarrow> (c # w) # ws)))"
  by pat_completeness auto
termination
  by (relation "measure length") (auto dest: breakAt_shorter)

definition splitParagraphs :: "string \<Rightarrow> string list" where
  "splitParagraphs text' = filter (\<lambda>paragraph. paragraph \<noteq> []) (map squish (splitBreaks text'))"

subsection \<open>The longest common subsequence\<close>

text \<open>The position of row \<open>i\<close>, column \<open>j\<close> in the flat array of \<open>(from.length + 1) * (to.length + 1)\<close> cells.\<close>

definition flat :: "'a list \<Rightarrow> nat \<Rightarrow> nat \<Rightarrow> nat" where
  "flat to i j = i * (length to + 1) + j"

definition cell :: "'a list \<Rightarrow> 'a list \<Rightarrow> nat list \<Rightarrow> nat \<Rightarrow> nat \<Rightarrow> nat" where
  "cell from to table i j =
     (if from ! i = to ! j then table ! flat to (i + 1) (j + 1) + 1
      else max (table ! flat to (i + 1) j) (table ! flat to i (j + 1)))"

fun fillRow :: "'a list \<Rightarrow> 'a list \<Rightarrow> nat \<Rightarrow> nat \<Rightarrow> nat list \<Rightarrow> nat list" where
  "fillRow from to i 0 table = table"
| "fillRow from to i (Suc j) table =
     fillRow from to i j (table[flat to i j := cell from to table i j])"

fun fillRows :: "'a list \<Rightarrow> 'a list \<Rightarrow> nat \<Rightarrow> nat list \<Rightarrow> nat list" where
  "fillRows from to 0 table = table"
| "fillRows from to (Suc i) table = fillRows from to i (fillRow from to i (length to) table)"

definition lcsTable :: "'a list \<Rightarrow> 'a list \<Rightarrow> nat list" where
  "lcsTable from to =
     fillRows from to (length from) (replicate ((length from + 1) * (length to + 1)) 0)"

record lcs_result =
  fromMatched :: "bool list"
  toMatched :: "bool list"
  lcsPairs :: "(nat \<times> nat) list"

text \<open>The walk over the finished table.\<close>

function matchFrom :: "'a list \<Rightarrow> 'a list \<Rightarrow> nat list \<Rightarrow> nat \<Rightarrow> nat \<Rightarrow> lcs_result \<Rightarrow> lcs_result" where
  "matchFrom from to table i j r =
     (if i < length from \<and> j < length to then
        if from ! i = to ! j then
          matchFrom from to table (i + 1) (j + 1)
            \<lparr>fromMatched = (fromMatched r)[i := True], toMatched = (toMatched r)[j := True],
             lcsPairs = lcsPairs r @ [(i, j)]\<rparr>
        else if table ! flat to (i + 1) j \<ge> table ! flat to i (j + 1)
        then matchFrom from to table (i + 1) j r
        else matchFrom from to table i (j + 1) r
      else r)"
  by pat_completeness auto
termination
  by (relation "measure (\<lambda>(from, to, table, i, j, r). (length from - i) + (length to - j))") auto

declare matchFrom.simps [simp del]

definition lcs :: "'a list \<Rightarrow> 'a list \<Rightarrow> lcs_result" where
  "lcs from to =
     matchFrom from to (lcsTable from to) 0 0
       \<lparr>fromMatched = replicate (length from) False, toMatched = replicate (length to) False, lcsPairs = []\<rparr>"

subsection \<open>Alignment\<close>

datatype aligned_kind = EQUAL | ADDED | REMOVED

fun emitUnmatched :: "aligned_kind \<Rightarrow> string list \<Rightarrow> bool list \<Rightarrow> nat \<Rightarrow> nat \<Rightarrow> (aligned_kind \<times> string) list" where
  "emitUnmatched kind texts matched index 0 = []"
| "emitUnmatched kind texts matched index (Suc count) =
     (if \<not> matched ! index then [(kind, texts ! index)] else [])
     @ emitUnmatched kind texts matched (index + 1) count"

fun alignLoop ::
  "string list \<Rightarrow> string list \<Rightarrow> lcs_result \<Rightarrow> nat \<Rightarrow> nat \<Rightarrow> (nat \<times> nat) list \<Rightarrow> (aligned_kind \<times> string) list" where
  "alignLoop from to r fromIndex toIndex [] = []"
| "alignLoop from to r fromIndex toIndex ((pf, pt) # rest) =
     emitUnmatched REMOVED from (fromMatched r) fromIndex (pf - fromIndex)
     @ emitUnmatched ADDED to (toMatched r) toIndex (pt - toIndex)
     @ (if pf < length from then (EQUAL, from ! pf) # alignLoop from to r (pf + 1) (pt + 1) rest
        else alignLoop from to r (max fromIndex pf) (max toIndex pt) rest)"

definition align :: "string list \<Rightarrow> string list \<Rightarrow> (aligned_kind \<times> string) list" where
  "align from to =
     alignLoop from to (lcs from to) 0 0 (lcsPairs (lcs from to) @ [(length from, length to)])"

subsection \<open>The comparison\<close>

datatype change_kind = EQUAL_P | ADDED_P | REMOVED_P | CHANGED_P

record word_span =
  wsText :: string
  wsChanged :: bool

record paragraph_change =
  pcKind :: change_kind
  pcFrom :: "string option"
  pcTo :: "string option"
  pcFromWords :: "word_span list option"
  pcToWords :: "word_span list option"

definition markWords :: "string list \<Rightarrow> bool list \<Rightarrow> word_span list" where
  "markWords words matched =
     map (\<lambda>(index, text'). \<lparr>wsText = text', wsChanged = \<not> (index < length matched \<and> matched ! index)\<rparr>)
       (zip [0..<length words] words)"

definition changedPair :: "string \<Rightarrow> string \<Rightarrow> paragraph_change" where
  "changedPair from to =
     (let fromWords = splitOn (CHR '' '') from; toWords = splitOn (CHR '' '') to; common = lcs fromWords toWords
      in \<lparr>pcKind = CHANGED_P, pcFrom = Some from, pcTo = Some to,
          pcFromWords = Some (markWords fromWords (fromMatched common)),
          pcToWords = Some (markWords toWords (toMatched common))\<rparr>)"

fun pairUp :: "(aligned_kind \<times> string) list \<Rightarrow> paragraph_change list" where
  "pairUp [] = []"
| "pairUp ((REMOVED, a) # (ADDED, b) # rest) = changedPair a b # pairUp rest"
| "pairUp ((EQUAL, a) # rest) =
     \<lparr>pcKind = EQUAL_P, pcFrom = Some a, pcTo = Some a, pcFromWords = None, pcToWords = None\<rparr> # pairUp rest"
| "pairUp ((REMOVED, a) # rest) =
     \<lparr>pcKind = REMOVED_P, pcFrom = Some a, pcTo = None, pcFromWords = None, pcToWords = None\<rparr> # pairUp rest"
| "pairUp ((ADDED, a) # rest) =
     \<lparr>pcKind = ADDED_P, pcFrom = None, pcTo = Some a, pcFromWords = None, pcToWords = None\<rparr> # pairUp rest"

record text_comparison =
  tcChanges :: "paragraph_change list"
  tcIdentical :: bool
  tcTruncated :: bool

definition compareTexts :: "string \<Rightarrow> string \<Rightarrow> text_comparison" where
  "compareTexts fromText toText =
     (let fromAll = splitParagraphs fromText; toAll = splitParagraphs toText;
          truncated = (length fromAll > MAX_COMPARED_PARAGRAPHS \<or> length toAll > MAX_COMPARED_PARAGRAPHS);
          changes = pairUp (align (take MAX_COMPARED_PARAGRAPHS fromAll) (take MAX_COMPARED_PARAGRAPHS toAll))
      in \<lparr>tcChanges = changes,
          tcIdentical = (\<not> truncated \<and> list_all (\<lambda>c. pcKind c = EQUAL_P) changes),
          tcTruncated = truncated\<rparr>)"

subsection \<open>The table holds the lengths of longest common subsequences\<close>

fun lcsLen :: "'a list \<Rightarrow> 'a list \<Rightarrow> nat" where
  "lcsLen [] ys = 0"
| "lcsLen (x # xs) [] = 0"
| "lcsLen (x # xs) (y # ys) =
     (if x = y then Suc (lcsLen xs ys) else max (lcsLen xs (y # ys)) (lcsLen (x # xs) ys))"

lemma lcsLen_Nil2 [simp]: "lcsLen xs [] = 0"
  by (cases xs) auto

lemma lcsLen_witness: "\<exists>zs. subseq zs xs \<and> subseq zs ys \<and> length zs = lcsLen xs ys"
proof (induction xs ys rule: lcsLen.induct)
  case (3 x xs y ys)
  show ?case
  proof (cases "x = y")
    case True
    then obtain zs where "subseq zs xs" "subseq zs ys" "length zs = lcsLen xs ys" using 3 by blast
    then show ?thesis using True by (intro exI [of _ "x # zs"]) simp
  next
    case False
    then have "lcsLen (x # xs) (y # ys) = lcsLen xs (y # ys) \<or> lcsLen (x # xs) (y # ys) = lcsLen (x # xs) ys"
      by (simp add: max_def)
    then show ?thesis using 3(2,3) [OF False] by (metis list_emb_Cons)
  qed
qed auto

lemma subseq_tails: "subseq (z # ws) (x # xs) \<Longrightarrow> subseq ws xs"
  by (cases "z = x") (auto dest: subseq_Cons')

lemma lcsLen_bound: "subseq zs xs \<Longrightarrow> subseq zs ys \<Longrightarrow> length zs \<le> lcsLen xs ys"
proof (induction xs ys arbitrary: zs rule: lcsLen.induct)
  case (3 x xs y ys)
  show ?case
  proof (cases zs)
    case (Cons z ws)
    show ?thesis
    proof (cases "x = y")
      case True
      have "subseq ws xs" "subseq ws ys"
        using "3.prems" subseq_tails [of z ws] unfolding Cons by blast+
      then show ?thesis using "3.IH"(1) [OF True] True Cons by simp
    next
      case False
      then consider "z \<noteq> x" | "z \<noteq> y" by blast
      then show ?thesis
      proof cases
        case 1
        then have "subseq zs xs" using "3.prems"(1) Cons by simp
        then show ?thesis using "3.IH"(2) [OF False _ "3.prems"(2)] False by (simp add: le_max_iff_disj)
      next
        case 2
        then have "subseq zs ys" using "3.prems"(2) Cons by simp
        then show ?thesis using "3.IH"(3) [OF False "3.prems"(1)] False by (simp add: le_max_iff_disj)
      qed
    qed
  qed simp
qed auto

text \<open>The cells that are final once row \<open>i\<close> is filled down to column \<open>j\<close>.\<close>

definition final :: "'a list \<Rightarrow> nat \<Rightarrow> nat \<Rightarrow> nat \<Rightarrow> nat \<Rightarrow> bool" where
  "final to i j a b \<longleftrightarrow> i < a \<or> i = a \<and> j \<le> b \<or> b = length to"

definition tableOk :: "'a list \<Rightarrow> 'a list \<Rightarrow> nat \<Rightarrow> nat \<Rightarrow> nat list \<Rightarrow> bool" where
  "tableOk from to i j table \<longleftrightarrow>
     length table = (length from + 1) * (length to + 1) \<and>
     (\<forall>a b. a \<le> length from \<and> b \<le> length to \<and> final to i j a b \<longrightarrow>
        table ! flat to a b = lcsLen (drop a from) (drop b to))"

lemma flat_inject:
  assumes "b \<le> length to" and "d \<le> length to"
  shows "flat to a b = flat to c d \<longleftrightarrow> a = c \<and> b = d"
proof
  assume eq: "flat to a b = flat to c d"
  have "flat to a b div (length to + 1) = a" "flat to c d div (length to + 1) = c"
    using assms by (simp_all add: flat_def del: mult_Suc_right)
  then have "a = c" using eq by metis
  then show "a = c \<and> b = d" using eq by (simp add: flat_def)
qed simp

lemma flat_bound:
  assumes "a \<le> length from" and "b \<le> length to"
  shows "flat to a b < (length from + 1) * (length to + 1)"
proof -
  have "a * (length to + 1) \<le> length from * (length to + 1)" using assms(1) by (rule mult_le_mono1)
  moreover have "(length from + 1) * (length to + 1) = length from * (length to + 1) + (length to + 1)" by simp
  ultimately show ?thesis unfolding flat_def using assms(2) by linarith
qed

lemma tableOkD:
  "\<lbrakk>tableOk from to i j table; final to i j a b; a \<le> length from; b \<le> length to\<rbrakk> \<Longrightarrow>
   table ! flat to a b = lcsLen (drop a from) (drop b to)"
  unfolding tableOk_def by blast

lemma cell_correct:
  assumes ok: "tableOk from to i (Suc j) table" and i: "i < length from" and j: "j < length to"
  shows "cell from to table i j = lcsLen (drop i from) (drop j to)"
proof -
  note at = tableOkD [OF ok]
  have "table ! flat to (i + 1) (j + 1) = lcsLen (drop (i + 1) from) (drop (j + 1) to)"
    and "table ! flat to (i + 1) j = lcsLen (drop (i + 1) from) (drop j to)"
    and "table ! flat to i (j + 1) = lcsLen (drop i from) (drop (j + 1) to)"
    using at [of "i + 1" "j + 1"] at [of "i + 1" j] at [of i "j + 1"] i j by (auto simp: final_def)
  moreover have "drop i from = from ! i # drop (i + 1) from" "drop j to = to ! j # drop (j + 1) to"
    using i j by (simp_all add: Cons_nth_drop_Suc)
  ultimately show ?thesis by (simp add: cell_def)
qed

lemma fillRow_correct:
  assumes "tableOk from to i j table" and "i < length from" and "j \<le> length to"
  shows "tableOk from to i 0 (fillRow from to i j table)"
  using assms
proof (induction j arbitrary: table)
  case (Suc j)
  let ?table = "table[flat to i j := cell from to table i j]"
  have len: "length table = (length from + 1) * (length to + 1)" using Suc.prems(1) by (simp add: tableOk_def)
  have c: "cell from to table i j = lcsLen (drop i from) (drop j to)"
    by (rule cell_correct [OF Suc.prems(1,2)]) (use Suc.prems(3) in simp)
  have "tableOk from to i j ?table"
    unfolding tableOk_def
  proof (intro conjI allI impI)
    fix a b
    assume ab: "a \<le> length from \<and> b \<le> length to \<and> final to i j a b"
    show "?table ! flat to a b = lcsLen (drop a from) (drop b to)"
    proof (cases "a = i \<and> b = j")
      case True
      then show ?thesis using c flat_bound [of i "from" j to] Suc.prems len by simp
    next
      case False
      then have "flat to i j \<noteq> flat to a b" using flat_inject [of j to b i a] ab Suc.prems(3) by auto
      moreover have "final to i (Suc j) a b" using ab False by (auto simp: final_def)
      ultimately show ?thesis using tableOkD [OF Suc.prems(1)] ab by simp
    qed
  qed (use len in simp)
  then show ?case using Suc.IH Suc.prems by simp
qed simp

lemma fillRows_correct:
  assumes "tableOk from to i 0 table" and "i \<le> length from"
  shows "tableOk from to 0 0 (fillRows from to i table)"
  using assms
proof (induction i arbitrary: table)
  case (Suc i)
  have "final to (Suc i) 0 a b" if "final to i (length to) a b" "b \<le> length to" for a b
    using that by (auto simp: final_def)
  then have "tableOk from to i (length to) table"
    using Suc.prems(1) unfolding tableOk_def by blast
  then have "tableOk from to i 0 (fillRow from to i (length to) table)"
    using Suc.prems(2) by (intro fillRow_correct) simp_all
  then show ?case using Suc by simp
qed simp

lemma lcsTable_correct:
  assumes "a \<le> length from" and "b \<le> length to"
  shows "lcsTable from to ! flat to a b = lcsLen (drop a from) (drop b to)"
proof -
  have "tableOk from to (length from) 0 (replicate ((length from + 1) * (length to + 1)) 0)"
    unfolding tableOk_def
  proof (intro conjI allI impI)
    fix a b
    assume ab: "a \<le> length from \<and> b \<le> length to \<and> final to (length from) 0 a b"
    then have "drop a from = [] \<or> drop b to = []" by (auto simp: final_def)
    then show "replicate ((length from + 1) * (length to + 1)) 0 ! flat to a b = lcsLen (drop a from) (drop b to)"
      using flat_bound [of a "from" b to] ab by (auto simp del: mult_Suc_right replicate_Suc)
  qed simp
  then have "tableOk from to 0 0 (lcsTable from to)" unfolding lcsTable_def by (rule fillRows_correct) simp
  moreover have "final to 0 0 a b" by (auto simp: final_def)
  ultimately show ?thesis using assms by (rule tableOkD)
qed

subsection \<open>The walk finds a longest common subsequence\<close>

text \<open>Pairs that increase strictly on both sides, from \<open>(i, j)\<close> on.\<close>

fun increasing :: "nat \<Rightarrow> nat \<Rightarrow> (nat \<times> nat) list \<Rightarrow> bool" where
  "increasing i j [] = True"
| "increasing i j ((a, b) # ps) = (i \<le> a \<and> j \<le> b \<and> increasing (Suc a) (Suc b) ps)"

lemma increasing_weaken: "increasing i j ps \<Longrightarrow> i' \<le> i \<Longrightarrow> j' \<le> j \<Longrightarrow> increasing i' j' ps"
  by (cases ps) auto

lemma increasing_ge: "increasing i j ps \<Longrightarrow> p \<in> set ps \<Longrightarrow> i \<le> fst p \<and> j \<le> snd p"
proof (induction i j ps rule: increasing.induct)
  case (2 i j a b ps)
  then show ?case by force
qed simp

definition matchingPairs :: "'a list \<Rightarrow> 'a list \<Rightarrow> (nat \<times> nat) list \<Rightarrow> bool" where
  "matchingPairs from to ps \<longleftrightarrow> (\<forall>(a, b) \<in> set ps. a < length from \<and> b < length to \<and> from ! a = to ! b)"

definition marked :: "bool list \<Rightarrow> nat set \<Rightarrow> bool list" where
  "marked flags A = map (\<lambda>k. flags ! k \<or> k \<in> A) [0..<length flags]"

lemma marked_insert: "marked (flags[i := True]) A = marked flags (insert i A)"
  by (auto simp: marked_def) (metis nth_list_update_eq nth_list_update_neq)+

lemma marked_empty [simp]: "marked flags {} = flags"
  by (auto simp: marked_def intro!: nth_equalityI)

lemma matchFrom_correct:
  assumes "\<And>a b. a \<le> length from \<Longrightarrow> b \<le> length to \<Longrightarrow> table ! flat to a b = lcsLen (drop a from) (drop b to)"
  shows "\<exists>ps. matchFrom from to table i j r =
      \<lparr>fromMatched = marked (fromMatched r) (fst ` set ps), toMatched = marked (toMatched r) (snd ` set ps),
       lcsPairs = lcsPairs r @ ps\<rparr> \<and>
    increasing i j ps \<and> matchingPairs from to ps \<and> length ps = lcsLen (drop i from) (drop j to)"
  using assms
proof (induction "from" to table i j r rule: matchFrom.induct)
  case (1 "from" to table i j r)
  show ?case
  proof (cases "i < length from \<and> j < length to")
    case False
    then have "drop i from = [] \<or> drop j to = []" by auto
    then show ?thesis using False by (subst matchFrom.simps) (auto simp: matchingPairs_def intro!: exI [of _ "[]"])
  next
    case True
    have drops: "drop i from = from ! i # drop (i + 1) from" "drop j to = to ! j # drop (j + 1) to"
      using True by (simp_all add: Cons_nth_drop_Suc)
    consider (eq) "from ! i = to ! j"
      | (down) "from ! i \<noteq> to ! j" "table ! flat to (i + 1) j \<ge> table ! flat to i (j + 1)"
      | (right) "from ! i \<noteq> to ! j" "\<not> table ! flat to (i + 1) j \<ge> table ! flat to i (j + 1)"
      by blast
    then show ?thesis
    proof cases
      case eq
      from "1.IH"(1) [OF True eq "1.prems"] obtain ps where
        ps: "matchFrom from to table (i + 1) (j + 1)
            \<lparr>fromMatched = (fromMatched r)[i := True], toMatched = (toMatched r)[j := True], lcsPairs = lcsPairs r @ [(i, j)]\<rparr> =
          \<lparr>fromMatched = marked ((fromMatched r)[i := True]) (fst ` set ps),
           toMatched = marked ((toMatched r)[j := True]) (snd ` set ps), lcsPairs = (lcsPairs r @ [(i, j)]) @ ps\<rparr>"
        "increasing (i + 1) (j + 1) ps" "matchingPairs from to ps" "length ps = lcsLen (drop (i + 1) from) (drop (j + 1) to)"
        by auto
      then show ?thesis
        using True eq drops
        by (subst matchFrom.simps) (auto simp: marked_insert matchingPairs_def intro!: exI [of _ "(i, j) # ps"])
    next
      case down
      from "1.IH"(2) [OF True down "1.prems"] show ?thesis
        using True down drops "1.prems" [of "i + 1" j] "1.prems" [of i "j + 1"]
        by (subst matchFrom.simps) (auto dest: increasing_weaken [of "Suc i" j _ i j])
    next
      case right
      from "1.IH"(3) [OF True right "1.prems"] show ?thesis
        using True right drops "1.prems" [of "i + 1" j] "1.prems" [of i "j + 1"]
        by (subst matchFrom.simps) (auto dest: increasing_weaken [of i "Suc j" _ i j])
    qed
  qed
qed

lemma lcs_correct:
  "increasing 0 0 (lcsPairs (lcs from to)) \<and> matchingPairs from to (lcsPairs (lcs from to)) \<and>
   length (lcsPairs (lcs from to)) = lcsLen from to \<and>
   fromMatched (lcs from to) = map (\<lambda>k. k \<in> fst ` set (lcsPairs (lcs from to))) [0..<length from] \<and>
   toMatched (lcs from to) = map (\<lambda>k. k \<in> snd ` set (lcsPairs (lcs from to))) [0..<length to]"
  using matchFrom_correct [OF lcsTable_correct, of "from" to 0 0
      "\<lparr>fromMatched = replicate (length from) False, toMatched = replicate (length to) False, lcsPairs = []\<rparr>"]
  by (auto simp: lcs_def marked_def)

subsection \<open>The alignment loses nothing\<close>

definition sideOf :: "aligned_kind \<Rightarrow> (aligned_kind \<times> string) list \<Rightarrow> string list" where
  "sideOf other al = map snd (filter (\<lambda>(k, _). k \<noteq> other) al)"

lemma sideOf_simps [simp]:
  "sideOf other [] = []"
  "sideOf other ((k, x) # al) = (if k = other then sideOf other al else x # sideOf other al)"
  "sideOf other (al @ bl) = sideOf other al @ sideOf other bl"
  by (auto simp: sideOf_def)

lemma emitUnmatched_run:
  assumes "\<forall>k. index \<le> k \<and> k < index + count \<longrightarrow> \<not> matched ! k" and "index + count \<le> length texts"
  shows "emitUnmatched kind texts matched index count = map (Pair kind) (take count (drop index texts))"
  using assms
proof (induction count arbitrary: index)
  case (Suc count)
  have "drop index texts = texts ! index # drop (Suc index) texts" using Suc.prems(2) by (simp add: Cons_nth_drop_Suc)
  then show ?case using Suc.IH [of "Suc index"] Suc.prems by simp
qed simp

lemma sideOf_run [simp]:
  "sideOf other (map (Pair kind) xs) = (if kind = other then [] else xs)"
  by (induction xs) auto

lemma drop_run: "i \<le> a \<Longrightarrow> a < length xs \<Longrightarrow> take (a - i) (drop i xs) @ xs ! a # drop (Suc a) xs = drop i xs"
  by (metis Cons_nth_drop_Suc append_take_drop_id drop_drop le_add_diff_inverse2)

lemma alignLoop_sides:
  assumes "increasing i j ps" and "matchingPairs from to ps" and "i \<le> length from" and "j \<le> length to"
    and "\<forall>k. i \<le> k \<and> k < length from \<longrightarrow> (fromMatched r ! k \<longleftrightarrow> k \<in> fst ` set ps)"
    and "\<forall>k. j \<le> k \<and> k < length to \<longrightarrow> (toMatched r ! k \<longleftrightarrow> k \<in> snd ` set ps)"
  shows "sideOf ADDED (alignLoop from to r i j (ps @ [(length from, length to)])) = drop i from \<and>
    sideOf REMOVED (alignLoop from to r i j (ps @ [(length from, length to)])) = drop j to"
  using assms
proof (induction ps arbitrary: i j)
  case Nil
  then show ?case by (simp add: emitUnmatched_run)
next
  case (Cons p ps)
  obtain a b where p: "p = (a, b)" by (cases p)
  have ab: "i \<le> a" "j \<le> b" "increasing (Suc a) (Suc b) ps" "a < length from" "b < length to" "from ! a = to ! b"
    using Cons.prems(1,2) p by (auto simp: matchingPairs_def)
  have later: "Suc a \<le> fst q \<and> Suc b \<le> snd q" if "q \<in> set ps" for q using increasing_ge [OF ab(3) that] .
  have f: "emitUnmatched REMOVED from (fromMatched r) i (a - i) = map (Pair REMOVED) (take (a - i) (drop i from))"
  proof (rule emitUnmatched_run)
    show "\<forall>k. i \<le> k \<and> k < i + (a - i) \<longrightarrow> \<not> fromMatched r ! k"
      using Cons.prems(5) ab later p by fastforce
  qed (use ab in simp)
  have t: "emitUnmatched ADDED to (toMatched r) j (b - j) = map (Pair ADDED) (take (b - j) (drop j to))"
  proof (rule emitUnmatched_run)
    show "\<forall>k. j \<le> k \<and> k < j + (b - j) \<longrightarrow> \<not> toMatched r ! k"
      using Cons.prems(6) ab later p by fastforce
  qed (use ab in simp)
  have "sideOf ADDED (alignLoop from to r (Suc a) (Suc b) (ps @ [(length from, length to)])) = drop (Suc a) from \<and>
    sideOf REMOVED (alignLoop from to r (Suc a) (Suc b) (ps @ [(length from, length to)])) = drop (Suc b) to"
  proof (rule Cons.IH [OF ab(3)])
    show "matchingPairs from to ps" using Cons.prems(2) by (simp add: matchingPairs_def)
    show "\<forall>k. Suc a \<le> k \<and> k < length from \<longrightarrow> (fromMatched r ! k \<longleftrightarrow> k \<in> fst ` set ps)"
      using Cons.prems(5) ab(1) p by auto
    show "\<forall>k. Suc b \<le> k \<and> k < length to \<longrightarrow> (toMatched r ! k \<longleftrightarrow> k \<in> snd ` set ps)"
      using Cons.prems(6) ab(2) p by auto
  qed (use ab in simp_all)
  then show ?case using drop_run [OF ab(1,4)] drop_run [OF ab(2,5)] ab(4,6) p f t by simp
qed

lemma align_sides: "sideOf ADDED (align from to) = from \<and> sideOf REMOVED (align from to) = to"
  using alignLoop_sides [of 0 0 "lcsPairs (lcs from to)" "from" to "lcs from to"] lcs_correct [of "from" to]
  unfolding align_def by simp

lemma pairUp_sides:
  "List.map_filter pcFrom (pairUp al) = sideOf ADDED al \<and> List.map_filter pcTo (pairUp al) = sideOf REMOVED al"
  by (induction al rule: pairUp.induct) (auto simp: List.map_filter_simps changedPair_def Let_def)

lemma emitUnmatched_kind: "(k, x) \<in> set (emitUnmatched kind texts matched index count) \<Longrightarrow> k = kind"
  by (induction kind texts matched index count rule: emitUnmatched.induct) (auto split: if_splits)

lemma emitUnmatched_no_equal:
  "kind \<noteq> EQUAL \<Longrightarrow> filter (\<lambda>x. fst x = EQUAL) (emitUnmatched kind texts matched index count) = []"
  by (auto simp: filter_empty_conv dest: emitUnmatched_kind)

lemma alignLoop_equal_count:
  "length (filter (\<lambda>x. fst x = EQUAL) (alignLoop from to r i j ps)) = length (filter (\<lambda>p. fst p < length from) ps)"
  by (induction "from" to r i j ps rule: alignLoop.induct) (auto simp: emitUnmatched_no_equal)

lemma align_equal_count: "length (filter (\<lambda>x. fst x = EQUAL) (align from to)) = lcsLen from to"
proof -
  have "filter (\<lambda>p. fst p < length from) (lcsPairs (lcs from to)) = lcsPairs (lcs from to)"
    using lcs_correct [of "from" to] by (auto simp: matchingPairs_def filter_id_conv)
  then show ?thesis using lcs_correct [of "from" to] by (simp add: align_def alignLoop_equal_count)
qed

lemma lcsLen_self: "lcsLen xs xs = length xs"
proof (rule antisym)
  obtain zs where "subseq zs xs" "length zs = lcsLen xs xs" using lcsLen_witness [of xs xs] by blast
  then show "lcsLen xs xs \<le> length xs" using list_emb_length [of _ zs xs] by simp
  show "length xs \<le> lcsLen xs xs" by (rule lcsLen_bound) simp_all
qed

lemma pairUp_all_equal:
  "list_all (\<lambda>c. pcKind c = EQUAL_P) (pairUp al) \<longleftrightarrow> (\<forall>x \<in> set al. fst x = EQUAL)"
  by (induction al rule: pairUp.induct) (auto simp: changedPair_def Let_def)

lemma align_all_equal: "(\<forall>x \<in> set (align from to). fst x = EQUAL) \<longleftrightarrow> from = to"
proof
  assume eq: "\<forall>x \<in> set (align from to). fst x = EQUAL"
  have "sideOf ADDED al = sideOf REMOVED al" if "\<forall>x \<in> set al. fst x = EQUAL" for al
    using that by (induction al) auto
  then show "from = to" using align_sides [of "from" to] eq by metis
next
  assume "from = to"
  then have len: "length (sideOf ADDED (align from to)) = length (filter (\<lambda>x. fst x = EQUAL) (align from to))"
    "length (sideOf REMOVED (align from to)) = length (filter (\<lambda>x. fst x = EQUAL) (align from to))"
    using align_sides [of "from" to] align_equal_count [of "from" to] lcsLen_self [of "from"] by auto
  have "length (sideOf ADDED al) = length (filter (\<lambda>x. fst x = EQUAL) al) + length (filter (\<lambda>x. fst x = REMOVED) al)"
    "length (sideOf REMOVED al) = length (filter (\<lambda>x. fst x = EQUAL) al) + length (filter (\<lambda>x. fst x = ADDED) al)" for al
  proof (induction al)
    case (Cons x al)
    obtain k y where "x = (k, y)" by (cases x)
    then show "length (sideOf ADDED (x # al)) = length (filter (\<lambda>x. fst x = EQUAL) (x # al)) + length (filter (\<lambda>x. fst x = REMOVED) (x # al))"
      and "length (sideOf REMOVED (x # al)) = length (filter (\<lambda>x. fst x = EQUAL) (x # al)) + length (filter (\<lambda>x. fst x = ADDED) (x # al))"
      using Cons by (cases k; simp)+
  qed simp_all
  then have "filter (\<lambda>x. fst x = REMOVED) (align from to) = [] \<and> filter (\<lambda>x. fst x = ADDED) (align from to) = []"
    using len by (metis add_cancel_right_right length_0_conv)
  then show "\<forall>x \<in> set (align from to). fst x = EQUAL"
    by (auto simp: filter_empty_conv) (metis aligned_kind.exhaust fst_conv)
qed

subsection \<open>Words\<close>

lemma increasing_sorted: "increasing i j ps \<Longrightarrow> sorted_wrt (<) (map fst ps) \<and> sorted_wrt (<) (map snd ps)"
proof (induction i j ps rule: increasing.induct)
  case (2 i j a b ps)
  then have "increasing (Suc a) (Suc b) ps" by simp
  then have "\<forall>q \<in> set ps. a < fst q \<and> b < snd q" using increasing_ge by (metis Suc_le_eq)
  then show ?case using 2 by auto
qed simp

lemma flagged_positions:
  assumes "sorted_wrt (<) ks" and "set ks \<subseteq> {0..<n}"
  shows "filter (\<lambda>k. k \<in> set ks) [0..<n] = ks"
proof (rule sorted_distinct_set_unique)
  show "sorted ks" "distinct ks" using assms(1) by (auto simp: strict_sorted_iff)
  show "sorted (filter (\<lambda>k. k \<in> set ks) [0..<n])" by (rule sorted_wrt_filter) simp
qed (use assms(2) in auto)

lemma markWords_texts: "map wsText (markWords ws flags) = ws"
  by (auto simp: markWords_def intro!: nth_equalityI)

lemma markWords_kept:
  assumes "sorted_wrt (<) ks" and "set ks \<subseteq> {0..<length ws}"
  shows "map wsText (filter (\<lambda>w. \<not> wsChanged w) (markWords ws (map (\<lambda>k. k \<in> set ks) [0..<length ws]))) = map ((!) ws) ks"
proof -
  have "markWords ws (map (\<lambda>k. k \<in> set ks) [0..<length ws])
      = map (\<lambda>k. \<lparr>wsText = ws ! k, wsChanged = k \<notin> set ks\<rparr>) [0..<length ws]"
    by (auto simp: markWords_def intro!: nth_equalityI)
  then show ?thesis using flagged_positions [OF assms] by (simp add: filter_map o_def)
qed

lemma joinStr_splitOn: "joinStr [c] (splitOn c s) = s"
proof (induction s)
  case (Cons x s)
  then show ?case by (cases "splitOn c s") (auto simp: joinStr_Cons split: if_splits)
qed simp

lemma kept_words:
  "map wsText (filter (\<lambda>w. \<not> wsChanged w) (markWords xs (fromMatched (lcs xs ys)))) = map (\<lambda>p. xs ! fst p) (lcsPairs (lcs xs ys)) \<and>
   map wsText (filter (\<lambda>w. \<not> wsChanged w) (markWords ys (toMatched (lcs xs ys)))) = map (\<lambda>p. xs ! fst p) (lcsPairs (lcs xs ys))"
proof -
  let ?ps = "lcsPairs (lcs xs ys)"
  note c = lcs_correct [of xs ys]
  have sorted: "sorted_wrt (<) (map fst ?ps)" "sorted_wrt (<) (map snd ?ps)" using increasing_sorted c by blast+
  have range: "set (map fst ?ps) \<subseteq> {0..<length xs}" "set (map snd ?ps) \<subseteq> {0..<length ys}"
    using c by (auto simp: matchingPairs_def)
  have same: "map (\<lambda>p. ys ! snd p) ?ps = map (\<lambda>p. xs ! fst p) ?ps" using c by (auto simp: matchingPairs_def)
  show ?thesis
    using markWords_kept [OF sorted(1) range(1)] markWords_kept [OF sorted(2) range(2)] c same by (simp add: o_def)
qed

subsection \<open>Properties\<close>

text \<open>
  C23: the pairs of \<open>lcs\<close> spell a common subsequence of the two sides, and no common subsequence is
  longer: the flat table, its fill order and the walk over it implement the specification.
\<close>

theorem lcs_longest:
  fixes xs ys :: "string list"
  assumes "subseq ws xs" and "subseq ws ys"
  shows "length ws \<le> length (lcsPairs (lcs xs ys)) \<and>
    map (\<lambda>p. xs ! fst p) (lcsPairs (lcs xs ys)) = map (\<lambda>p. ys ! snd p) (lcsPairs (lcs xs ys)) \<and>
    sorted_wrt (<) (map fst (lcsPairs (lcs xs ys))) \<and> sorted_wrt (<) (map snd (lcsPairs (lcs xs ys))) \<and>
    set (map fst (lcsPairs (lcs xs ys))) \<subseteq> {0..<length xs} \<and> set (map snd (lcsPairs (lcs xs ys))) \<subseteq> {0..<length ys}"
  using lcsLen_bound [OF assms] lcs_correct [of xs ys] increasing_sorted [of 0 0 "lcsPairs (lcs xs ys)"]
  by (auto simp: matchingPairs_def)

theorem lcs_longest_witness:
  "length (lcsPairs (lcs [''a'', ''b'', ''c''] [''b'', ''x'', ''c''])) \<ge> 2"
  using lcs_longest [of "[''b'', ''c'']" "[''a'', ''b'', ''c'']" "[''b'', ''x'', ''c'']"] by simp

definition spansOk :: "paragraph_change \<Rightarrow> bool" where
  "spansOk c \<longleftrightarrow>
     (case (pcFrom c, pcTo c, pcFromWords c, pcToWords c) of
        (Some a, Some b, Some u, Some w) \<Rightarrow>
          joinStr '' '' (map wsText u) = a \<and> joinStr '' '' (map wsText w) = b \<and>
          map wsText (filter (\<lambda>x. \<not> wsChanged x) u) = map wsText (filter (\<lambda>x. \<not> wsChanged x) w)
      | (_, _, None, None) \<Rightarrow> pcKind c \<noteq> CHANGED_P
      | _ \<Rightarrow> False)"

lemma changedPair_spansOk: "spansOk (changedPair a b)"
  using kept_words [of "splitOn (CHR '' '') a" "splitOn (CHR '' '') b"]
  by (simp add: spansOk_def changedPair_def Let_def markWords_texts joinStr_splitOn)

lemma pairUp_spansOk: "list_all spansOk (pairUp al)"
  by (induction al rule: pairUp.induct) (auto simp: changedPair_spansOk, auto simp: spansOk_def)

text \<open>
  C24: a comparison loses nothing: the left sides of its changes, in order, are the paragraphs of the
  old text up to the cap, the right sides those of the new one; the word spans of a changed paragraph
  join to that paragraph, and the words not marked as changed are the same on both sides.
\<close>

theorem comparison_reconstructs:
  "List.map_filter pcFrom (tcChanges (compareTexts a b)) = take MAX_COMPARED_PARAGRAPHS (splitParagraphs a) \<and>
   List.map_filter pcTo (tcChanges (compareTexts a b)) = take MAX_COMPARED_PARAGRAPHS (splitParagraphs b) \<and>
   list_all spansOk (tcChanges (compareTexts a b))"
  by (simp add: compareTexts_def Let_def pairUp_sides align_sides pairUp_spansOk)

text \<open>
  two texts are reported identical exactly when they have the same paragraphs and neither was cut.
\<close>

theorem identical_exact:
  "tcIdentical (compareTexts a b) \<longleftrightarrow>
     splitParagraphs a = splitParagraphs b \<and> length (splitParagraphs a) \<le> MAX_COMPARED_PARAGRAPHS"
  by (auto simp: compareTexts_def Let_def pairUp_all_equal align_all_equal)

end
