(* ===== verification/Audit_Chain.thy ===== *)
theory Audit_Chain
  imports Prelude "HOL-Library.Char_ord" "HOL-Library.List_Lexorder"
begin

text \<open>
  The hash chain of the audit trail, \<open>src/apps/api/src/core/audit/hash-chain.ts\<close>: the canonical
  serialisation of a payload, the digest of one event under the three versions, and the verifier.

  The digest function is the one of the platform's cryptography library; it is the parameter \<open>sha\<close>.
  An instant is represented by its ISO text, the only thing the digest reads of it; a number of a
  payload is an integer.
\<close>

subsection \<open>Canonical serialisation\<close>

datatype audit_json =
    ANull | AUndefined | ABool bool | ANum int | AStr string | ADate string
  | AArr "audit_json list" | AObj "(string \<times> audit_json) list"

definition hexDigit :: "nat \<Rightarrow> char" where
  "hexDigit d = (if d < 10 then digitChar d else char_of (87 + d))"

text \<open>\<open>JSON.stringify\<close> of a string, character by character.\<close>

definition escChar :: "char \<Rightarrow> string" where
  "escChar c =
     (let n = (of_char c :: nat) in
      if c = CHR 0x22 then [CHR 0x5C, CHR 0x22]
      else if c = CHR 0x5C then [CHR 0x5C, CHR 0x5C]
      else if n = 8 then CHR 0x5C # ''b''
      else if n = 9 then CHR 0x5C # ''t''
      else if n = 10 then CHR 0x5C # ''n''
      else if n = 12 then CHR 0x5C # ''f''
      else if n = 13 then CHR 0x5C # ''r''
      else if n < 32 then CHR 0x5C # ''u00'' @ [hexDigit (n div 16), hexDigit (n mod 16)]
      else [c])"

definition jsonString :: "string \<Rightarrow> string" where
  "jsonString s = CHR 0x22 # concat (map escChar s) @ [CHR 0x22]"

definition entriesOf :: "(string \<times> audit_json) list \<Rightarrow> (string \<times> audit_json) list" where
  "entriesOf es = sort_key fst (filter (\<lambda>(_, v). v \<noteq> AUndefined) es)"

lemma set_entriesOf: "set (entriesOf es) = {e \<in> set es. snd e \<noteq> AUndefined}"
  by (auto simp: entriesOf_def)

lemma size_entry: "(key, v) \<in> set es \<Longrightarrow> size v < Suc (size_list (size_prod (\<lambda>_. 0) size) es)"
  by (induction es) auto

function canonicalize :: "audit_json \<Rightarrow> string" where
  "canonicalize ANull = ''null''"
| "canonicalize AUndefined = ''null''"
| "canonicalize (ABool b) = (if b then ''true'' else ''false'')"
| "canonicalize (ANum i) = showInt i"
| "canonicalize (AStr s) = jsonString s"
| "canonicalize (ADate d) = jsonString d"
| "canonicalize (AArr vs) = ''['' @ joinStr '','' (map canonicalize vs) @ '']''"
| "canonicalize (AObj es) =
     ''{'' @ joinStr '','' (map (\<lambda>(key, v). jsonString key @ '':'' @ canonicalize v) (entriesOf es)) @ ''}''"
  by pat_completeness auto
termination
  by (relation "measure size") (auto simp: set_entriesOf less_Suc_eq_le size_list_estimation' dest: size_entry)

subsection \<open>The digest of one event\<close>

definition GENESIS_HASH :: string where
  "GENESIS_HASH = replicate 64 (CHR ''0'')"

definition CHAIN_HASH_V1 :: nat where
  "CHAIN_HASH_V1 = 1"

definition CHAIN_HASH_V2 :: nat where
  "CHAIN_HASH_V2 = 2"

definition CHAIN_HASH_V3 :: nat where
  "CHAIN_HASH_V3 = 3"

definition CURRENT_CHAIN_HASH_VERSION :: nat where
  "CURRENT_CHAIN_HASH_VERSION = CHAIN_HASH_V3"

definition isChainHashVersion :: "nat \<Rightarrow> bool" where
  "isChainHashVersion v \<longleftrightarrow> v = CHAIN_HASH_V1 \<or> v = CHAIN_HASH_V2 \<or> v = CHAIN_HASH_V3"

record chained_event =
  evEventId :: string
  evTenantId :: string
  evSequence :: nat
  evOccurredAt :: string
  evActorId :: "string option"
  evOnBehalfOfId :: "string option"
  evChannel :: string
  evAction :: string
  evSubjectType :: string
  evSubjectId :: string
  evOutcome :: string
  evPayload :: audit_json
  evReason :: "string option"
  evCorrelationId :: string
  evIpAddress :: "string option"
  evUserAgent :: "string option"
  evApiClientId :: "string option"

definition V1_FIELDS :: "string list" where
  "V1_FIELDS =
     [''previousHash'', ''eventId'', ''tenantId'', ''occurredAt'', ''actorId'', ''action'', ''subjectType'',
      ''subjectId'', ''outcome'', ''payload'']"

definition V2_FIELDS :: "string list" where
  "V2_FIELDS = V1_FIELDS @ [''sequence'', ''channel'', ''onBehalfOfId'', ''reason'', ''correlationId'', ''ipAddress'', ''userAgent'']"

definition V3_FIELDS :: "string list" where
  "V3_FIELDS = V2_FIELDS @ [''apiClientId'']"

definition attestedFields :: "nat \<Rightarrow> string list" where
  "attestedFields version =
     (if version = CHAIN_HASH_V3 then V3_FIELDS else if version = CHAIN_HASH_V2 then V2_FIELDS else V1_FIELDS)"

definition orBlank :: "string option \<Rightarrow> string" where
  "orBlank v = (case v of None \<Rightarrow> [] | Some s \<Rightarrow> s)"

definition materialOf :: "string \<Rightarrow> chained_event \<Rightarrow> nat \<Rightarrow> string list" where
  "materialOf previousHash e version =
     [previousHash, evEventId e, evTenantId e, evOccurredAt e, orBlank (evActorId e), evAction e,
      evSubjectType e, evSubjectId e, evOutcome e, canonicalize (evPayload e)]
     @ (if version = CHAIN_HASH_V2 \<or> version = CHAIN_HASH_V3
        then [showNat (evSequence e), evChannel e, orBlank (evOnBehalfOfId e), orBlank (evReason e),
              evCorrelationId e, orBlank (evIpAddress e), orBlank (evUserAgent e)]
        else [])
     @ (if version = CHAIN_HASH_V3 then [orBlank (evApiClientId e)] else [])"

definition chainHash :: "(string \<Rightarrow> string) \<Rightarrow> string \<Rightarrow> chained_event \<Rightarrow> nat \<Rightarrow> string" where
  "chainHash sha previousHash e version = sha (joinStr ''|'' (materialOf previousHash e version))"

subsection \<open>The verifier\<close>

record chain_link =
  lkHash :: string
  lkPreviousHash :: string
  lkVersion :: nat
  lkEvent :: chained_event

datatype break_reason = DIGEST_MISMATCH | LINK_MISMATCH | SEQUENCE_GAP

record verification_result =
  vrIntact :: bool
  vrBrokenAt :: "string option"
  vrReason :: "break_reason option"
  vrExpectedHash :: "string option"
  vrActualHash :: "string option"
  vrVerified :: nat

definition broken ::
  "chain_link \<Rightarrow> break_reason \<Rightarrow> string option \<Rightarrow> string option \<Rightarrow> nat \<Rightarrow> verification_result" where
  "broken link reason expectedHash actualHash verified =
     \<lparr>vrIntact = False, vrBrokenAt = Some (evEventId (lkEvent link)), vrReason = Some reason,
      vrExpectedHash = expectedHash, vrActualHash = actualHash, vrVerified = verified\<rparr>"

definition intactAfter :: "nat \<Rightarrow> verification_result" where
  "intactAfter verified =
     \<lparr>vrIntact = True, vrBrokenAt = None, vrReason = None, vrExpectedHash = None, vrActualHash = None,
      vrVerified = verified\<rparr>"

fun verifyLoop ::
  "(string \<Rightarrow> string) \<Rightarrow> string \<Rightarrow> nat option \<Rightarrow> nat \<Rightarrow> chain_link list \<Rightarrow> verification_result" where
  "verifyLoop sha previous expectedSequence verified [] = intactAfter verified"
| "verifyLoop sha previous expectedSequence verified (link # links) =
     (if expectedSequence \<noteq> None \<and> Some (evSequence (lkEvent link)) \<noteq> expectedSequence
      then broken link SEQUENCE_GAP None None verified
      else if lkPreviousHash link \<noteq> previous
      then broken link LINK_MISMATCH (Some previous) (Some (lkPreviousHash link)) verified
      else if chainHash sha previous (lkEvent link) (lkVersion link) \<noteq> lkHash link
      then broken link DIGEST_MISMATCH (Some (chainHash sha previous (lkEvent link) (lkVersion link)))
             (Some (lkHash link)) verified
      else verifyLoop sha (lkHash link) (Some (evSequence (lkEvent link) + 1)) (verified + 1) links)"

definition verifyChain ::
  "(string \<Rightarrow> string) \<Rightarrow> string \<Rightarrow> nat option \<Rightarrow> chain_link list \<Rightarrow> verification_result" where
  "verifyChain sha from fromSequence links = verifyLoop sha from fromSequence 0 links"

subsection \<open>The serialisation determines the payload\<close>

text \<open>What the serialisation keeps of a value: entries without a value are gone, keys are sorted.\<close>

function normal :: "audit_json \<Rightarrow> audit_json" where
  "normal ANull = ANull"
| "normal AUndefined = ANull"
| "normal (ABool b) = ABool b"
| "normal (ANum i) = ANum i"
| "normal (AStr s) = AStr s"
| "normal (ADate d) = AStr d"
| "normal (AArr vs) = AArr (map normal vs)"
| "normal (AObj es) = AObj (map (\<lambda>(key, v). (key, normal v)) (entriesOf es))"
  by pat_completeness auto
termination
  by (relation "measure size") (auto simp: set_entriesOf less_Suc_eq_le size_list_estimation' dest: size_entry)

definition hexVal :: "char \<Rightarrow> nat" where
  "hexVal h = (if isDigit h then digitVal h else of_char h - 87)"

lemma hexVal_hexDigit: "d < 16 \<Longrightarrow> hexVal (hexDigit d) = d"
  by (auto simp: hexVal_def hexDigit_def isDigit_def of_char_digitChar)

text \<open>Reading one escaped character back.\<close>

definition decodeChar :: "string \<Rightarrow> (char \<times> string) option" where
  "decodeChar s =
     (case s of
        [] \<Rightarrow> None
      | a # t \<Rightarrow>
          if a \<noteq> CHR 0x5C then Some (a, t)
          else (case t of
             [] \<Rightarrow> None
           | b # u \<Rightarrow>
               if b = CHR ''b'' then Some (char_of (8 :: nat), u)
               else if b = CHR ''t'' then Some (char_of (9 :: nat), u)
               else if b = CHR ''n'' then Some (char_of (10 :: nat), u)
               else if b = CHR ''f'' then Some (char_of (12 :: nat), u)
               else if b = CHR ''r'' then Some (char_of (13 :: nat), u)
               else if b = CHR ''u'' then Some (char_of (16 * hexVal (u ! 2) + hexVal (u ! 3)), drop 4 u)
               else Some (b, u)))"

lemma decode_escChar: "decodeChar (escChar c @ r) = Some (c, r)"
proof -
  have again: "char_of n = c" if "of_char c = n" for n :: nat using that by auto
  have hex: "16 * hexVal (hexDigit (n div 16)) + hexVal (hexDigit (n mod 16)) = n" if "n < 32" for n
    using that by (simp add: hexVal_hexDigit)
  show ?thesis
    by (auto simp: escChar_def Let_def decodeChar_def hex intro: again)
qed

lemma escChar_inject: "escChar c @ x = escChar d @ y \<Longrightarrow> c = d \<and> x = y"
  by (metis decode_escChar option.inject prod.inject)

lemma escChar_head: "\<exists>a t. escChar c = a # t \<and> a \<noteq> CHR 0x22"
  by (auto simp: escChar_def Let_def)

lemma jsonString_inject: "jsonString a @ r = jsonString b @ s \<Longrightarrow> a = b \<and> r = s"
proof -
  have "concat (map escChar a) @ CHR 0x22 # r = concat (map escChar b) @ CHR 0x22 # s \<Longrightarrow> a = b \<and> r = s"
  proof (induction a arbitrary: b)
    case Nil
    then show ?case using escChar_head by (cases b) (auto, metis append_Cons list.inject)
  next
    case (Cons c a)
    show ?case
    proof (cases b)
      case Nil
      then show ?thesis using Cons.prems escChar_head [of c] by auto
    next
      case (Cons d b')
      with Cons.prems have "c = d \<and> concat (map escChar a) @ CHR 0x22 # r = concat (map escChar b') @ CHR 0x22 # s"
        by (intro escChar_inject) simp
      then show ?thesis using Cons.IH Cons by simp
    qed
  qed
  then show "jsonString a @ r = jsonString b @ s \<Longrightarrow> a = b \<and> r = s" by (simp add: jsonString_def)
qed

text \<open>What may follow a value: the end, or a delimiter.\<close>

definition delimited :: "string \<Rightarrow> bool" where
  "delimited r \<longleftrightarrow> r = [] \<or> hd r \<in> {CHR '','', CHR '']'', CHR ''}''}"

lemma showNat_inject_delimited:
  assumes "showNat m @ r = showNat n @ s" and "delimited r" and "delimited s"
  shows "m = n \<and> r = s"
proof -
  have "takeWhile isDigit (showNat k @ q) = showNat k" if "delimited q" for k q
  proof -
    have "takeWhile isDigit q = []" using that by (cases q) (auto simp: delimited_def isDigit_def)
    then show ?thesis using showNat_digits by (simp add: takeWhile_append2)
  qed
  then have "showNat m = showNat n" using assms by metis
  then show ?thesis using assms(1) by auto
qed

lemma showNat_head: "\<exists>a t. showNat n = a # t \<and> isDigit a"
  using showNat_not_Nil [of n] showNat_digits [of _ n] by (metis list.exhaust list.set_intros(1))

lemma showInt_inject_delimited:
  assumes "showInt i @ r = showInt j @ s" and "delimited r" and "delimited s"
  shows "i = j \<and> r = s"
proof -
  have "hd (showInt k @ q) = CHR ''-'' \<longleftrightarrow> k < 0" for k q
    using showNat_head [of "nat k"] by (auto simp: showInt_def isDigit_def)
  then have sign: "i < 0 \<longleftrightarrow> j < 0" using assms(1) by metis
  show ?thesis
  proof (cases "i < 0")
    case True
    then have "showNat (nat (- i)) @ r = showNat (nat (- j)) @ s" using assms(1) sign by (simp add: showInt_def)
    from showNat_inject_delimited [OF this assms(2,3)] show ?thesis using True sign by auto
  next
    case False
    then have "showNat (nat i) @ r = showNat (nat j) @ s" using assms(1) sign by (simp add: showInt_def)
    from showNat_inject_delimited [OF this assms(2,3)] show ?thesis using False sign by auto
  qed
qed

lemma showInt_head: "\<exists>a t. showInt i = a # t \<and> (isDigit a \<or> a = CHR ''-'')"
  using showNat_head [of "nat i"] by (auto simp: showInt_def)

lemma head_append: "q # r = x @ z \<Longrightarrow> x \<noteq> [] \<Longrightarrow> hd x = q"
  by (cases x) auto

text \<open>The first character of a serialisation tells the kind of the value.\<close>

lemma canonicalize_first:
  "\<exists>a t. canonicalize j = a # t \<and>
     (case normal j of
        ANull \<Rightarrow> a = CHR ''n''
      | ABool b \<Rightarrow> a = (if b then CHR ''t'' else CHR ''f'')
      | ANum i \<Rightarrow> isDigit a \<or> a = CHR ''-''
      | AStr s \<Rightarrow> a = CHR 0x22
      | AArr vs \<Rightarrow> a = CHR ''[''
      | AObj es \<Rightarrow> a = CHR ''{''
      | _ \<Rightarrow> False)"
proof (cases j)
  case (ANum i)
  then show ?thesis using showInt_head [of i] by simp
qed (auto simp: jsonString_def)

text \<open>A separated list of texts, each read back up to its delimiter, closed by a bracket.\<close>

lemma joined_inject:
  assumes each: "\<And>x y r s. \<lbrakk>x \<in> set xs; y \<in> set ys; f x @ r = f y @ s; delimited r; delimited s\<rbrakk> \<Longrightarrow> n x = n y \<and> r = s"
    and heads: "\<And>x. x \<in> set xs \<union> set ys \<Longrightarrow> f x \<noteq> [] \<and> hd (f x) \<noteq> q" and q: "q \<in> {CHR '']'', CHR ''}''}"
    and eq: "joinStr '','' (map f xs) @ q # r = joinStr '','' (map f ys) @ q # s"
  shows "map n xs = map n ys \<and> r = s"
  using each heads eq
proof (induction xs arbitrary: ys)
  case Nil
  then show ?case
  proof (cases ys)
    case (Cons y ys')
    then obtain z where "q # r = f y @ z" using Nil.prems(3) by (auto simp: joinStr_Cons split: if_splits)
    then show ?thesis using head_append Nil.prems(2) [of y] Cons by fastforce
  qed simp
next
  case (Cons x xs)
  show ?case
  proof (cases ys)
    case Nil
    then obtain z where "f x @ z = q # s" using Cons.prems(3) by (auto simp: joinStr_Cons split: if_splits)
    then show ?thesis using head_append [OF sym] Cons.prems(2) [of x] by fastforce
  next
    case (Cons y ys')
    define rx where "rx = (if xs = [] then q # r else CHR '','' # joinStr '','' (map f xs) @ q # r)"
    define ry where "ry = (if ys' = [] then q # s else CHR '','' # joinStr '','' (map f ys') @ q # s)"
    have "f x @ rx = f y @ ry" using Cons.prems(3) Cons
      by (cases "xs = []"; cases "ys' = []") (simp_all add: joinStr_Cons rx_def ry_def)
    moreover have "delimited rx" "delimited ry" using q by (auto simp: delimited_def rx_def ry_def)
    ultimately have xy: "n x = n y" "rx = ry" using Cons.prems(1) [of x y] Cons by auto
    have "q \<noteq> CHR '',''" using q by auto
    then have "joinStr '','' (map f xs) @ q # r = joinStr '','' (map f ys') @ q # s"
      using xy(2) by (auto simp: rx_def ry_def split: if_splits)
    from Cons.IH [OF _ _ this] Cons.prems(1,2) Cons xy(1) show ?thesis by auto
  qed
qed

lemma canonicalize_nonempty: "canonicalize j \<noteq> [] \<and> hd (canonicalize j) \<notin> {CHR '']'', CHR ''}''}"
proof (cases j)
  case (ANum i)
  then show ?thesis using showInt_head [of i] by (auto simp: isDigit_def)
qed (auto simp: jsonString_def)

lemma entries_prefix:
  assumes "\<And>r s. \<lbrakk>canonicalize v @ r = canonicalize w @ s; delimited r; delimited s\<rbrakk> \<Longrightarrow> normal v = normal w \<and> r = s"
    and "(jsonString key @ '':'' @ canonicalize v) @ r = (jsonString key' @ '':'' @ canonicalize w) @ s"
    and "delimited r" and "delimited s"
  shows "(key, normal v) = (key', normal w) \<and> r = s"
proof -
  have k: "key = key' \<and> '':'' @ canonicalize v @ r = '':'' @ canonicalize w @ s"
    using assms(2) by (intro jsonString_inject) simp
  then show ?thesis using assms(1) [OF _ assms(3,4)] by simp
qed

definition sameHead :: "audit_json \<Rightarrow> audit_json \<Rightarrow> bool" where
  "sameHead j k \<longleftrightarrow>
     (case (normal j, normal k) of
        (ANull, ANull) \<Rightarrow> True
      | (ABool a, ABool b) \<Rightarrow> a = b
      | (ANum _, ANum _) \<Rightarrow> True
      | (AStr _, AStr _) \<Rightarrow> True
      | (AArr _, AArr _) \<Rightarrow> True
      | (AObj _, AObj _) \<Rightarrow> True
      | _ \<Rightarrow> False)"

lemma canonicalize_sameHead: "canonicalize j @ r = canonicalize k @ s \<Longrightarrow> sameHead j k"
  using canonicalize_first [of j] canonicalize_first [of k]
  by (cases j; cases k) (auto simp: sameHead_def isDigit_def split: if_splits)

lemma canonicalize_prefix:
  "\<lbrakk>canonicalize j @ r = canonicalize k @ s; delimited r; delimited s\<rbrakk> \<Longrightarrow> normal j = normal k \<and> r = s"
proof (induction j arbitrary: k r s rule: canonicalize.induct)
  case 1
  then show ?case using canonicalize_sameHead [OF 1(1)] by (cases k) (auto simp: sameHead_def)
next
  case 2
  then show ?case using canonicalize_sameHead [OF 2(1)] by (cases k) (auto simp: sameHead_def)
next
  case (3 b)
  then show ?case using canonicalize_sameHead [OF 3(1)] by (cases k) (auto simp: sameHead_def)
next
  case (4 i)
  obtain i' where k: "k = ANum i'" using canonicalize_sameHead [OF 4(1)] by (cases k) (auto simp: sameHead_def)
  then have "showInt i @ r = showInt i' @ s" using 4(1) by simp
  from showInt_inject_delimited [OF this 4(2,3)] show ?case using k by simp
next
  case (5 a)
  obtain b where k: "canonicalize k = jsonString b" "normal k = AStr b"
    using canonicalize_sameHead [OF 5(1)] by (cases k) (auto simp: sameHead_def)
  then have "jsonString a @ r = jsonString b @ s" using 5(1) by simp
  from jsonString_inject [OF this] show ?case using k by simp
next
  case (6 a)
  obtain b where k: "canonicalize k = jsonString b" "normal k = AStr b"
    using canonicalize_sameHead [OF 6(1)] by (cases k) (auto simp: sameHead_def)
  then have "jsonString a @ r = jsonString b @ s" using 6(1) by simp
  from jsonString_inject [OF this] show ?case using k by simp
next
  case (7 vs)
  obtain ws where k: "k = AArr ws" using canonicalize_sameHead [OF 7(2)] by (cases k) (auto simp: sameHead_def)
  have eq: "joinStr '','' (map canonicalize vs) @ CHR '']'' # r = joinStr '','' (map canonicalize ws) @ CHR '']'' # s"
    using 7(2) k by simp
  have "map normal vs = map normal ws \<and> r = s"
  proof (rule joined_inject [OF _ _ _ eq])
    show "normal x = normal y \<and> r = s"
      if "x \<in> set vs" "canonicalize x @ r = canonicalize y @ s" "delimited r" "delimited s" for x y r s
      by (rule "7.IH" [OF that])
    show "canonicalize x \<noteq> [] \<and> hd (canonicalize x) \<noteq> CHR '']''" for x using canonicalize_nonempty [of x] by simp
  qed simp
  then show ?case using k by simp
next
  case (8 es)
  obtain fs where k: "k = AObj fs" using canonicalize_sameHead [OF 8(2)] by (cases k) (auto simp: sameHead_def)
  let ?f = "\<lambda>(key, v). jsonString key @ '':'' @ canonicalize v"
  have eq: "joinStr '','' (map ?f (entriesOf es)) @ CHR ''}'' # r = joinStr '','' (map ?f (entriesOf fs)) @ CHR ''}'' # s"
    using 8(2) k by simp
  have "map (\<lambda>(key, v). (key, normal v)) (entriesOf es) = map (\<lambda>(key, v). (key, normal v)) (entriesOf fs) \<and> r = s"
  proof (rule joined_inject [OF _ _ _ eq])
    show "(case x of (key, v) \<Rightarrow> (key, normal v)) = (case y of (key, v) \<Rightarrow> (key, normal v)) \<and> r = s"
      if "x \<in> set (entriesOf es)" "y \<in> set (entriesOf fs)" "?f x @ r = ?f y @ s" "delimited r" "delimited s" for x y r s
    proof -
      obtain a v b w where xy: "x = (a, v)" "y = (b, w)" by (cases x, cases y) blast
      have "(a, normal v) = (b, normal w) \<and> r = s"
      proof (rule entries_prefix)
        show "normal v = normal w \<and> r = s"
          if "canonicalize v @ r = canonicalize w @ s" "delimited r" "delimited s" for r s
          by (rule "8.IH" [OF \<open>x \<in> set (entriesOf es)\<close> xy(1) [symmetric] that])
      qed (use that xy in simp_all)
      then show ?thesis using xy by simp
    qed
  qed (auto simp: jsonString_def)
  then show ?case using k by simp
qed

lemma canonicalize_inject: "canonicalize j = canonicalize k \<Longrightarrow> normal j = normal k"
  using canonicalize_prefix [of j "[]" k "[]"] by (simp add: delimited_def)

lemma canonicalize_normal: "canonicalize (normal j) = canonicalize j"
proof (induction j rule: canonicalize.induct)
  case (8 es)
  have "normal v \<noteq> AUndefined" for v by (cases v) auto
  then have f: "filter (\<lambda>(_, v). v \<noteq> AUndefined) (map (\<lambda>(key, v). (key, normal v)) xs) = map (\<lambda>(key, v). (key, normal v)) xs" for xs
    by (induction xs) auto
  have "entriesOf (map (\<lambda>(key, v). (key, normal v)) (entriesOf es)) = map (\<lambda>(key, v). (key, normal v)) (entriesOf es)"
    unfolding entriesOf_def [of "map _ _"] f
    by (rule sort_key_id_if_sorted) (simp add: entriesOf_def o_def case_prod_beta)
  then show ?case using 8 by (auto simp: case_prod_beta intro!: arg_cong [of _ _ "joinStr _"])
qed (auto intro!: arg_cong [of _ _ "joinStr _"])

subsection \<open>The digest determines the event\<close>

text \<open>
  The digest joins the fields with a bar. It determines them when no field but the payload contains a
  bar and no optional field holds the empty text.
\<close>

definition plainText :: "string \<Rightarrow> bool" where
  "plainText s \<longleftrightarrow> CHR ''|'' \<notin> set s"

definition plainOption :: "string option \<Rightarrow> bool" where
  "plainOption v \<longleftrightarrow> (case v of None \<Rightarrow> True | Some s \<Rightarrow> s \<noteq> [] \<and> plainText s)"

definition eventPlain :: "chained_event \<Rightarrow> bool" where
  "eventPlain e \<longleftrightarrow>
     plainText (evEventId e) \<and> plainText (evTenantId e) \<and> plainText (evOccurredAt e) \<and> plainOption (evActorId e) \<and>
     plainText (evAction e) \<and> plainText (evSubjectType e) \<and> plainText (evSubjectId e) \<and> plainText (evOutcome e) \<and>
     plainText (evChannel e) \<and> plainOption (evOnBehalfOfId e) \<and> plainOption (evReason e) \<and>
     plainText (evCorrelationId e) \<and> plainOption (evIpAddress e) \<and> plainOption (evUserAgent e) \<and> plainOption (evApiClientId e)"

definition attested :: "chained_event \<Rightarrow> chained_event" where
  "attested e = e\<lparr>evPayload := normal (evPayload e)\<rparr>"

lemma orBlank_inject: "plainOption v \<Longrightarrow> plainOption w \<Longrightarrow> orBlank v = orBlank w \<Longrightarrow> v = w"
  by (auto simp: plainOption_def orBlank_def split: option.splits)

lemma orBlank_plain: "plainOption v \<Longrightarrow> CHR ''|'' \<notin> set (orBlank v)"
  by (auto simp: plainOption_def orBlank_def plainText_def split: option.splits)

lemma showNat_plain: "CHR ''|'' \<notin> set (showNat n)"
  using showNat_digits [of "CHR ''|''" n] by (auto simp: isDigit_def)

definition fieldsBefore :: "string \<Rightarrow> chained_event \<Rightarrow> string list" where
  "fieldsBefore previousHash e =
     [previousHash, evEventId e, evTenantId e, evOccurredAt e, orBlank (evActorId e), evAction e,
      evSubjectType e, evSubjectId e, evOutcome e]"

definition fieldsAfter :: "chained_event \<Rightarrow> string list" where
  "fieldsAfter e =
     [showNat (evSequence e), evChannel e, orBlank (evOnBehalfOfId e), orBlank (evReason e),
      evCorrelationId e, orBlank (evIpAddress e), orBlank (evUserAgent e), orBlank (evApiClientId e)]"

lemma material_current:
  "materialOf previousHash e CURRENT_CHAIN_HASH_VERSION = fieldsBefore previousHash e @ canonicalize (evPayload e) # fieldsAfter e"
  by (simp add: materialOf_def CURRENT_CHAIN_HASH_VERSION_def fieldsBefore_def fieldsAfter_def)

lemma fields_plain:
  assumes "eventPlain e" and "plainText previousHash"
  shows "\<forall>x \<in> set (fieldsBefore previousHash e @ fieldsAfter e). CHR ''|'' \<notin> set x"
  using assms by (simp add: fieldsBefore_def fieldsAfter_def eventPlain_def plainText_def orBlank_plain showNat_plain)

lemma material_inject:
  assumes eq: "joinStr ''|'' (materialOf p e CURRENT_CHAIN_HASH_VERSION) = joinStr ''|'' (materialOf q f CURRENT_CHAIN_HASH_VERSION)"
    and plain: "eventPlain e" "eventPlain f" "plainText p" "plainText q"
  shows "p = q \<and> attested e = attested f"
proof -
  have parts: "fieldsBefore p e = fieldsBefore q f \<and> canonicalize (evPayload e) = canonicalize (evPayload f) \<and> fieldsAfter e = fieldsAfter f"
  proof (rule joinStr_around_inject)
    show "\<forall>x \<in> set (fieldsBefore p e @ fieldsBefore q f @ fieldsAfter e @ fieldsAfter f). CHR ''|'' \<notin> set x"
      using fields_plain [OF plain(1,3)] fields_plain [OF plain(2,4)] by auto
  qed (use eq material_current in \<open>simp_all add: fieldsBefore_def fieldsAfter_def\<close>)
  then have "normal (evPayload e) = normal (evPayload f)" using canonicalize_inject by blast
  moreover have "evActorId e = evActorId f" "evOnBehalfOfId e = evOnBehalfOfId f" "evReason e = evReason f"
    "evIpAddress e = evIpAddress f" "evUserAgent e = evUserAgent f" "evApiClientId e = evApiClientId f"
    using parts plain(1,2) unfolding eventPlain_def by (auto simp: fieldsBefore_def fieldsAfter_def intro: orBlank_inject)
  ultimately show ?thesis
    using parts by (cases e; cases f) (auto simp: attested_def fieldsBefore_def fieldsAfter_def)
qed

subsection \<open>What the verifier checks\<close>

fun wellChained :: "(string \<Rightarrow> string) \<Rightarrow> string \<Rightarrow> nat option \<Rightarrow> chain_link list \<Rightarrow> bool" where
  "wellChained sha previous expected [] = True"
| "wellChained sha previous expected (link # links) =
     ((expected = None \<or> Some (evSequence (lkEvent link)) = expected) \<and> lkPreviousHash link = previous \<and>
      chainHash sha previous (lkEvent link) (lkVersion link) = lkHash link \<and>
      wellChained sha (lkHash link) (Some (evSequence (lkEvent link) + 1)) links)"

definition endHash :: "string \<Rightarrow> chain_link list \<Rightarrow> string" where
  "endHash previous links = (if links = [] then previous else lkHash (last links))"

definition endSequence :: "nat option \<Rightarrow> chain_link list \<Rightarrow> nat option" where
  "endSequence expected links = (if links = [] then expected else Some (evSequence (lkEvent (last links)) + 1))"

lemma verifyLoop_intact:
  "vrIntact (verifyLoop sha previous expected n links) \<longleftrightarrow> wellChained sha previous expected links"
  by (induction sha previous expected n links rule: verifyLoop.induct) (auto simp: intactAfter_def broken_def)

lemma verifyLoop_verified:
  "wellChained sha previous expected links \<Longrightarrow> verifyLoop sha previous expected n links = intactAfter (n + length links)"
  by (induction sha previous expected n links rule: verifyLoop.induct) auto

lemma verifyChain_intact:
  "vrIntact (verifyChain sha previous expected links) \<longleftrightarrow> wellChained sha previous expected links"
  by (simp add: verifyChain_def verifyLoop_intact)

lemma wellChained_append:
  "wellChained sha previous expected (xs @ ys) \<longleftrightarrow>
     wellChained sha previous expected xs \<and> wellChained sha (endHash previous xs) (endSequence expected xs) ys"
  by (induction xs arbitrary: previous expected) (auto simp: endHash_def endSequence_def)

lemma wellChained_sequence:
  "wellChained sha previous (Some n) xs \<Longrightarrow> endSequence (Some n) xs = Some (n + length xs)"
proof (induction xs rule: rev_induct)
  case (snoc x xs)
  then show ?case by (simp add: wellChained_append endSequence_def split: if_splits)
qed (simp add: endSequence_def)

definition materials :: "chain_link list \<Rightarrow> string set" where
  "materials links = (\<lambda>l. joinStr ''|'' (materialOf (lkPreviousHash l) (lkEvent l) (lkVersion l))) ` set links"

definition attestedLink :: "chain_link \<Rightarrow> chain_link" where
  "attestedLink l = l\<lparr>lkEvent := attested (lkEvent l)\<rparr>"

definition currentPlain :: "chain_link \<Rightarrow> bool" where
  "currentPlain l \<longleftrightarrow> lkVersion l = CURRENT_CHAIN_HASH_VERSION \<and> eventPlain (lkEvent l)"

lemma wellChained_hash_plain:
  assumes "wellChained sha previous expected links" and "\<And>m. plainText (sha m)" and "plainText previous"
  shows "plainText (endHash previous links)"
  using assms
  by (induction links arbitrary: previous expected rule: rev_induct)
    (auto simp: endHash_def wellChained_append chainHash_def dest: sym)

text \<open>One step back from equal digests.\<close>

lemma last_link_determined:
  assumes xs: "wellChained sha g (Some s) (xs @ [x])" and ys: "wellChained sha g (Some s) (ys @ [y])"
    and hash: "lkHash x = lkHash y" and coll: "inj_on sha (materials (xs @ [x]) \<union> materials (ys @ [y]))"
    and plain: "currentPlain x" "currentPlain y" and hex: "\<And>m. plainText (sha m)" and g: "plainText g"
  shows "attestedLink x = attestedLink y \<and> endHash g xs = endHash g ys"
proof -
  have x: "lkPreviousHash x = endHash g xs" "chainHash sha (endHash g xs) (lkEvent x) (lkVersion x) = lkHash x"
    and y: "lkPreviousHash y = endHash g ys" "chainHash sha (endHash g ys) (lkEvent y) (lkVersion y) = lkHash y"
    and pre: "wellChained sha g (Some s) xs" "wellChained sha g (Some s) ys"
    using xs ys by (auto simp: wellChained_append)
  let ?m = "\<lambda>p l. joinStr ''|'' (materialOf p (lkEvent l) CURRENT_CHAIN_HASH_VERSION)"
  have v: "lkVersion x = CURRENT_CHAIN_HASH_VERSION" "lkVersion y = CURRENT_CHAIN_HASH_VERSION"
    using plain by (simp_all add: currentPlain_def)
  have sha: "sha (?m (endHash g xs) x) = sha (?m (endHash g ys) y)"
    using x(2) y(2) hash unfolding v chainHash_def by metis
  have "?m (endHash g xs) x \<in> materials (xs @ [x])" "?m (endHash g ys) y \<in> materials (ys @ [y])"
    using x(1) y(1) v by (simp_all add: materials_def)
  then have "?m (endHash g xs) x = ?m (endHash g ys) y" by (intro inj_onD [OF coll sha]) simp_all
  then have "endHash g xs = endHash g ys \<and> attested (lkEvent x) = attested (lkEvent y)"
    by (rule material_inject)
      (use plain wellChained_hash_plain [OF pre(1) hex g] wellChained_hash_plain [OF pre(2) hex g] in
        \<open>simp_all add: currentPlain_def\<close>)
  then show ?thesis using hash plain x(1) y(1) by (cases x; cases y) (simp add: attestedLink_def currentPlain_def)
qed

lemma equal_length_chains:
  assumes "length xs = length ys" and "endHash g xs = endHash g ys"
    and "wellChained sha g (Some s) xs" and "wellChained sha g (Some s) ys"
    and "inj_on sha (materials xs \<union> materials ys)" and "list_all currentPlain xs" and "list_all currentPlain ys"
    and hex: "\<And>m. plainText (sha m)" and g: "plainText g"
  shows "map attestedLink xs = map attestedLink ys"
  using assms(1-7)
proof (induction xs arbitrary: ys rule: rev_induct)
  case (snoc x xs)
  then obtain zs z where z: "ys = zs @ [z]" by (cases ys rule: rev_cases) auto
  have "lkHash x = lkHash z" using snoc.prems(2) z by (simp add: endHash_def)
  with snoc.prems z have step: "attestedLink x = attestedLink z \<and> endHash g xs = endHash g zs"
    by (intro last_link_determined [OF _ _ _ _ _ _ hex g]) auto
  have "map attestedLink xs = map attestedLink zs"
  proof (rule snoc.IH)
    show "inj_on sha (materials xs \<union> materials zs)"
      by (rule inj_on_subset [OF snoc.prems(5)]) (auto simp: materials_def z)
  qed (use snoc.prems z step in \<open>auto simp: wellChained_append\<close>)
  then show ?case using step z by simp
qed simp

subsection \<open>A sample chain\<close>

text \<open>A digest function for the witnesses: the text in hexadecimal.\<close>

definition hexText :: "string \<Rightarrow> string" where
  "hexText m = concat (map (\<lambda>c. [hexDigit (of_char c div 16), hexDigit (of_char c mod 16)]) m)"

lemma hexDigit_not_bar: "d < 16 \<Longrightarrow> hexDigit d \<noteq> CHR ''|''"
proof
  assume "d < 16" and "hexDigit d = CHR ''|''"
  then have "d = hexVal (CHR ''|'')" using hexVal_hexDigit by metis
  then show False using \<open>d < 16\<close> by (simp add: hexVal_def isDigit_def)
qed

lemma hexText_plain: "plainText (hexText m)"
proof -
  have "(of_char c :: nat) div 16 < 16" for c :: char using nat_of_char_less_256 [of c] by linarith
  then have "hexDigit (of_char c div 16) \<noteq> CHR ''|''" "hexDigit (of_char c mod 16) \<noteq> CHR ''|''" for c :: char
    using hexDigit_not_bar [of "of_char c div 16"] hexDigit_not_bar [of "of_char c mod 16"] by simp_all
  then show ?thesis by (induction m) (auto simp: hexText_def plainText_def dest: sym)
qed

definition sampleEvent :: "nat \<Rightarrow> audit_json \<Rightarrow> chained_event" where
  "sampleEvent n payload =
     \<lparr>evEventId = ''e'' @ showNat n, evTenantId = ''t'', evSequence = n, evOccurredAt = ''2026-01-01T00:00:00.000Z'',
      evActorId = Some ''ana'', evOnBehalfOfId = None, evChannel = ''WEB'', evAction = ''document.updated'',
      evSubjectType = ''DOCUMENT'', evSubjectId = ''d'', evOutcome = ''SUCCESS'', evPayload = payload, evReason = None,
      evCorrelationId = ''c'', evIpAddress = None, evUserAgent = None, evApiClientId = None\<rparr>"

definition sampleLink :: "string \<Rightarrow> chained_event \<Rightarrow> chain_link" where
  "sampleLink previous e =
     \<lparr>lkHash = chainHash hexText previous e CURRENT_CHAIN_HASH_VERSION, lkPreviousHash = previous,
      lkVersion = CURRENT_CHAIN_HASH_VERSION, lkEvent = e\<rparr>"

subsection \<open>Properties\<close>



text \<open>
  the digest does not separate its fields. Text moved across the bar between the stated reason
  and the correlation identifier leaves every digest as it was, so the verifier reports the altered
  trail exactly as it reports the original, whatever the digest function.
\<close>

theorem field_shift_undetected:
  "verifyChain sha g s (before @ l\<lparr>lkVersion := CURRENT_CHAIN_HASH_VERSION,
       lkEvent := e\<lparr>evReason := Some (a @ ''|'' @ b), evCorrelationId := c\<rparr>\<rparr> # after)
   = verifyChain sha g s (before @ l\<lparr>lkVersion := CURRENT_CHAIN_HASH_VERSION,
       lkEvent := e\<lparr>evReason := Some a, evCorrelationId := b @ ''|'' @ c\<rparr>\<rparr> # after)"
proof -
  have "joinStr ''|'' (materialOf p (e\<lparr>evReason := Some (a @ ''|'' @ b), evCorrelationId := c\<rparr>) CURRENT_CHAIN_HASH_VERSION)
      = joinStr ''|'' (materialOf p (e\<lparr>evReason := Some a, evCorrelationId := b @ ''|'' @ c\<rparr>) CURRENT_CHAIN_HASH_VERSION)" for p
    by (simp add: materialOf_def CURRENT_CHAIN_HASH_VERSION_def orBlank_def)
  then have "verifyLoop sha g s n (before @ l\<lparr>lkVersion := CURRENT_CHAIN_HASH_VERSION,
       lkEvent := e\<lparr>evReason := Some (a @ ''|'' @ b), evCorrelationId := c\<rparr>\<rparr> # after)
   = verifyLoop sha g s n (before @ l\<lparr>lkVersion := CURRENT_CHAIN_HASH_VERSION,
       lkEvent := e\<lparr>evReason := Some a, evCorrelationId := b @ ''|'' @ c\<rparr>\<rparr> # after)" for n
    by (induction before arbitrary: g s n) (simp_all add: chainHash_def broken_def)
  then show ?thesis by (simp add: verifyChain_def)
qed

text \<open>
  removing events from the end of the trail is not detected: every prefix of a trail that
  verifies verifies, contiguity of the sequence included.
\<close>

theorem tail_removal_undetected:
  assumes "vrIntact (verifyChain sha g s links)"
  shows "vrIntact (verifyChain sha g s (take n links))"
  using assms wellChained_append [of sha g s "take n links" "drop n links"] by (simp add: verifyChain_intact)

theorem tail_removal_undetected_witness:
  "vrIntact (verifyChain hexText ''0'' (Some 1) (take 0 [sampleLink ''0'' (sampleEvent 1 ANull)]))"
proof -
  have "vrIntact (verifyChain hexText ''0'' (Some 1) [sampleLink ''0'' (sampleEvent 1 ANull)])"
    by (simp add: verifyChain_intact sampleLink_def sampleEvent_def)
  then show ?thesis by (rule tail_removal_undetected)
qed

end
