(* ===== verification/Audit_Trail.thy ===== *)
theory Audit_Trail
  imports Audit_Chain Transaction
begin

text \<open>
  The writers and the verifier of the audit trail:
  \<open>src/apps/api/src/modules/audit/infrastructure/chained-audit.writer.ts\<close>,
  \<open>buffered-read-audit.writer.ts\<close>, the repository reads they use, and
  \<open>src/apps/api/src/modules/audit/application/audit-verification.service.ts\<close>.

  A tenant's trail is the list of its rows in the order of insertion. An append takes the tenant's
  advisory lock and is atomic, so the steps of the writers interleave but do not overlap; a flush of
  the read buffer is split where the code awaits: the batch is taken, and later committed or put back.
\<close>

subsection \<open>Rows and the repository\<close>

record audit_record =
  arEvent :: chained_event
  arHash :: string
  arPreviousHash :: string
  arChainHashVersion :: nat

type_synonym trail = "audit_record list"

definition bySequence :: "trail \<Rightarrow> trail" where
  "bySequence rows = sort_key (\<lambda>r. evSequence (arEvent r)) rows"

definition readTail :: "trail \<Rightarrow> nat \<times> string" where
  "readTail rows =
     (case rev (bySequence rows) of
        [] \<Rightarrow> (0, GENESIS_HASH)
      | r # _ \<Rightarrow> (evSequence (arEvent r), arHash r))"

definition sliceBySequence :: "trail \<Rightarrow> nat \<Rightarrow> nat \<Rightarrow> trail" where
  "sliceBySequence rows afterSequence limit =
     take limit (bySequence (filter (\<lambda>r. evSequence (arEvent r) > afterSequence) rows))"

definition toLink :: "audit_record \<Rightarrow> chain_link" where
  "toLink r =
     \<lparr>lkHash = arHash r, lkPreviousHash = arPreviousHash r,
      lkVersion = (if isChainHashVersion (arChainHashVersion r) then arChainHashVersion r else CURRENT_CHAIN_HASH_VERSION),
      lkEvent = arEvent r\<rparr>"

subsection \<open>The writers\<close>

record audit_actor =
  aaTenantId :: ident
  aaUserId :: "string option"
  aaChannel :: string
  aaCorrelationId :: string
  aaIpAddress :: "string option"
  aaUserAgent :: "string option"
  aaApiClientId :: "string option"

record audit_entry =
  aeOnBehalfOfId :: "string option"
  aeAction :: string
  aeSubjectType :: string
  aeSubjectId :: string
  aeOutcome :: string
  aePayload :: audit_json
  aeReason :: "string option"

record buffered_event =
  beEventId :: ident
  beOccurredAt :: string
  beActor :: audit_actor
  beEntry :: audit_entry

definition materialEvent :: "buffered_event \<Rightarrow> nat \<Rightarrow> chained_event" where
  "materialEvent b n =
     (let actor = beActor b; entry = beEntry b in
      \<lparr>evEventId = beEventId b, evTenantId = aaTenantId actor, evSequence = n, evOccurredAt = beOccurredAt b,
       evActorId = aaUserId actor, evOnBehalfOfId = aeOnBehalfOfId entry, evChannel = aaChannel actor,
       evAction = aeAction entry, evSubjectType = aeSubjectType entry, evSubjectId = aeSubjectId entry,
       evOutcome = aeOutcome entry, evPayload = aePayload entry, evReason = aeReason entry,
       evCorrelationId = aaCorrelationId actor, evIpAddress = aaIpAddress actor,
       evUserAgent = aaUserAgent actor, evApiClientId = aaApiClientId actor\<rparr>)"

definition recordFor :: "(string \<Rightarrow> string) \<Rightarrow> string \<Rightarrow> chained_event \<Rightarrow> audit_record" where
  "recordFor sha previousHash e =
     \<lparr>arEvent = e, arHash = chainHash sha previousHash e CURRENT_CHAIN_HASH_VERSION,
      arPreviousHash = previousHash, arChainHashVersion = CURRENT_CHAIN_HASH_VERSION\<rparr>"

text \<open>\<open>append\<close>: the identifier and the instant are drawn by the caller of this definition.\<close>

definition appendAudit :: "(string \<Rightarrow> string) \<Rightarrow> buffered_event \<Rightarrow> trail \<Rightarrow> trail" where
  "appendAudit sha b rows =
     (case readTail rows of (tailSequence, tailHash) \<Rightarrow>
        rows @ [recordFor sha tailHash (materialEvent b (tailSequence + 1))])"

definition writeAudit :: "(string \<Rightarrow> string) \<Rightarrow> bool \<Rightarrow> buffered_event \<Rightarrow> trail \<Rightarrow> string + trail" where
  "writeAudit sha inTransaction b rows =
     (if \<not> inTransaction
      then Inl ''AuditWriter.write() must run inside the transaction it is recording. Use writeStandalone() for an event with nothing to commit alongside it.''
      else Inr (appendAudit sha b rows))"

text \<open>The loop of a flush: one run of chained rows.\<close>

fun chainBatch :: "(string \<Rightarrow> string) \<Rightarrow> string \<Rightarrow> nat \<Rightarrow> buffered_event list \<Rightarrow> trail" where
  "chainBatch sha previousHash n [] = []"
| "chainBatch sha previousHash n (b # bs) =
     (let r = recordFor sha previousHash (materialEvent b (n + 1))
      in r # chainBatch sha (arHash r) (n + 1) bs)"

definition flushTenant :: "(string \<Rightarrow> string) \<Rightarrow> buffered_event list \<Rightarrow> trail \<Rightarrow> trail" where
  "flushTenant sha batch rows =
     (if batch = [] then rows
      else case readTail rows of (tailSequence, tailHash) \<Rightarrow> rows @ chainBatch sha tailHash tailSequence batch)"

subsection \<open>The read buffer\<close>

record audit_config =
  readBufferMax :: nat
  readBufferSize :: nat
  verifyMaxEvents :: nat
  verifyBatchSize :: nat

text \<open>
  The buffers and the trails by tenant, and the batch of the flush in flight. \<open>accepted\<close> and
  \<open>committed\<close> are what entered the buffer and what a flush wrote; the code does not keep them.
\<close>

record audit_state =
  buffers :: "ident \<Rightarrow> buffered_event list"
  inFlight :: "(ident \<times> buffered_event list) option"
  trails :: "ident \<Rightarrow> trail"
  accepted :: "ident \<Rightarrow> buffered_event list"
  committed :: "ident \<Rightarrow> buffered_event list"

text \<open>\<open>record\<close>: the flag says that the arrival asks for a flush.\<close>

definition recordRead ::
  "(string \<Rightarrow> string) \<Rightarrow> audit_config \<Rightarrow> buffered_event \<Rightarrow> audit_state \<Rightarrow> audit_state \<times> bool" where
  "recordRead sha cfg b s =
     (let tenant = aaTenantId (beActor b); buffer = buffers s tenant in
      if length buffer \<ge> readBufferMax cfg
      then (s\<lparr>trails := (trails s)(tenant := appendAudit sha b (trails s tenant))\<rparr>, False)
      else (s\<lparr>buffers := (buffers s)(tenant := buffer @ [b]), accepted := (accepted s)(tenant := accepted s tenant @ [b])\<rparr>,
            length (buffer @ [b]) \<ge> readBufferSize cfg))"

text \<open>The three moments of one tenant's turn in \<open>flushAll\<close>.\<close>

definition takeBuffer :: "ident \<Rightarrow> audit_state \<Rightarrow> audit_state" where
  "takeBuffer tenant s =
     s\<lparr>buffers := (buffers s)(tenant := []), inFlight := Some (tenant, buffers s tenant)\<rparr>"

definition flushCommitted :: "(string \<Rightarrow> string) \<Rightarrow> audit_state \<Rightarrow> audit_state" where
  "flushCommitted sha s =
     (case inFlight s of
        None \<Rightarrow> s
      | Some (tenant, batch) \<Rightarrow>
          s\<lparr>inFlight := None, trails := (trails s)(tenant := flushTenant sha batch (trails s tenant)),
            committed := (committed s)(tenant := committed s tenant @ batch)\<rparr>)"

definition flushFailed :: "audit_state \<Rightarrow> audit_state" where
  "flushFailed s =
     (case inFlight s of
        None \<Rightarrow> s
      | Some (tenant, batch) \<Rightarrow>
          s\<lparr>inFlight := None, buffers := (buffers s)(tenant := batch @ buffers s tenant)\<rparr>)"

definition writeStandalone :: "(string \<Rightarrow> string) \<Rightarrow> buffered_event \<Rightarrow> audit_state \<Rightarrow> audit_state" where
  "writeStandalone sha b s =
     s\<lparr>trails := (trails s)(aaTenantId (beActor b) := appendAudit sha b (trails s (aaTenantId (beActor b))))\<rparr>"

definition pending :: "ident list \<Rightarrow> audit_state \<Rightarrow> nat" where
  "pending tenants s = sum_list (map (\<lambda>t. length (buffers s t)) tenants)"

inductive audit_step :: "(string \<Rightarrow> string) \<Rightarrow> audit_config \<Rightarrow> audit_state \<Rightarrow> audit_state \<Rightarrow> bool"
  for sha cfg where
  read: "audit_step sha cfg s (fst (recordRead sha cfg b s))"
| write_now: "audit_step sha cfg s (writeStandalone sha b s)"
| take_batch: "\<lbrakk>inFlight s = None; buffers s tenant \<noteq> []\<rbrakk> \<Longrightarrow> audit_step sha cfg s (takeBuffer tenant s)"
| commit: "inFlight s \<noteq> None \<Longrightarrow> audit_step sha cfg s (flushCommitted sha s)"
| fail: "inFlight s \<noteq> None \<Longrightarrow> audit_step sha cfg s (flushFailed s)"

inductive_cases audit_stepE: "audit_step sha cfg s s'"

definition audit_start :: "audit_state \<Rightarrow> bool" where
  "audit_start s \<longleftrightarrow> s = \<lparr>buffers = (\<lambda>_. []), inFlight = None, trails = (\<lambda>_. []), accepted = (\<lambda>_. []), committed = (\<lambda>_. [])\<rparr>"

subsection \<open>Verification\<close>

record walk_result =
  wrResult :: verification_result
  wrLastSequence :: nat
  wrLastHash :: string

text \<open>The batched walk; each round that continues has verified at least one event of the budget.\<close>

function walkLoop ::
  "(string \<Rightarrow> string) \<Rightarrow> audit_config \<Rightarrow> trail \<Rightarrow> nat \<Rightarrow> string \<Rightarrow> nat \<Rightarrow> walk_result" where
  "walkLoop sha cfg rows cursor previousHash verified =
     (if verifyMaxEvents cfg \<le> verified
      then \<lparr>wrResult = intactAfter verified, wrLastSequence = cursor, wrLastHash = previousHash\<rparr>
      else
       let slice = sliceBySequence rows cursor (min (verifyBatchSize cfg) (verifyMaxEvents cfg - verified)) in
       if slice = []
       then \<lparr>wrResult = intactAfter verified, wrLastSequence = cursor, wrLastHash = previousHash\<rparr>
       else
        let result = verifyChain sha previousHash (Some (cursor + 1)) (map toLink slice) in
        if \<not> vrIntact result
        then \<lparr>wrResult = result\<lparr>vrVerified := verified + vrVerified result\<rparr>, wrLastSequence = cursor, wrLastHash = previousHash\<rparr>
        else walkLoop sha cfg rows (evSequence (arEvent (last slice))) (arHash (last slice)) (verified + vrVerified result))"
  by pat_completeness auto
termination
proof (relation "measure (\<lambda>(sha, cfg, rows, cursor, previousHash, verified). verifyMaxEvents cfg - verified)")
  fix sha :: "string \<Rightarrow> string" and cfg rows cursor previousHash verified slice result
  assume budget: "\<not> verifyMaxEvents cfg \<le> verified" and slice: "slice = sliceBySequence rows cursor (min (verifyBatchSize cfg) (verifyMaxEvents cfg - verified))"
    and ne: "slice \<noteq> []" and result: "result = verifyChain sha previousHash (Some (cursor + 1)) (map toLink slice)"
    and ok: "\<not> \<not> vrIntact result"
  have "result = intactAfter (length slice)"
    using ok result verifyLoop_verified [of sha previousHash "Some (cursor + 1)" "map toLink slice" 0]
    by (simp add: verifyChain_def verifyLoop_intact)
  then have "vrVerified result > 0" using ne by (simp add: intactAfter_def)
  then show "((sha, cfg, rows, evSequence (arEvent (last slice)), arHash (last slice), verified + vrVerified result),
      (sha, cfg, rows, cursor, previousHash, verified))
    \<in> measure (\<lambda>(sha, cfg, rows, cursor, previousHash, verified). verifyMaxEvents cfg - verified)"
    using budget by simp
qed simp

declare walkLoop.simps [simp del]

definition walkFrom :: "(string \<Rightarrow> string) \<Rightarrow> audit_config \<Rightarrow> trail \<Rightarrow> nat \<Rightarrow> string \<Rightarrow> walk_result" where
  "walkFrom sha cfg rows startSequence startHash = walkLoop sha cfg rows startSequence startHash 0"

definition verifyRange :: "(string \<Rightarrow> string) \<Rightarrow> trail \<Rightarrow> string \<Rightarrow> verification_result" where
  "verifyRange sha events from =
     verifyChain sha from (case events of [] \<Rightarrow> None | r # _ \<Rightarrow> Some (evSequence (arEvent r))) (map toLink events)"

subsection \<open>Every trail the writers build verifies\<close>

definition trailOk :: "(string \<Rightarrow> string) \<Rightarrow> trail \<Rightarrow> bool" where
  "trailOk sha rows \<longleftrightarrow> wellChained sha GENESIS_HASH (Some 1) (map toLink rows)"

lemma toLink_fields: "lkHash (toLink r) = arHash r" "lkEvent (toLink r) = arEvent r"
  by (simp_all add: toLink_def)

lemma toLink_recordFor [simp]:
  "toLink (recordFor sha h e) = \<lparr>lkHash = chainHash sha h e CURRENT_CHAIN_HASH_VERSION, lkPreviousHash = h,
     lkVersion = CURRENT_CHAIN_HASH_VERSION, lkEvent = e\<rparr>"
  by (simp add: toLink_def recordFor_def isChainHashVersion_def CURRENT_CHAIN_HASH_VERSION_def)

lemma trail_sequences: "trailOk sha rows \<Longrightarrow> map (\<lambda>r. evSequence (arEvent r)) rows = [1..<length rows + 1]"
proof (induction rows rule: rev_induct)
  case (snoc r rows)
  then have ok: "trailOk sha rows" and "Some (evSequence (arEvent r)) = endSequence (Some 1) (map toLink rows)"
    by (auto simp: trailOk_def wellChained_append toLink_def endSequence_def split: if_splits)
  then have "evSequence (arEvent r) = 1 + length rows"
    using wellChained_sequence [of sha GENESIS_HASH 1 "map toLink rows"] by (simp add: trailOk_def)
  then show ?case using snoc.IH [OF ok] by simp
qed simp

lemma trail_sorted: "trailOk sha rows \<Longrightarrow> bySequence rows = rows"
  unfolding bySequence_def by (rule sort_key_id_if_sorted) (simp only: trail_sequences sorted_upt)

lemma readTail_trail: "trailOk sha rows \<Longrightarrow> readTail rows = (length rows, endHash GENESIS_HASH (map toLink rows))"
proof (cases rows rule: rev_cases)
  case (snoc rs r)
  assume ok: "trailOk sha rows"
  then have "evSequence (arEvent r) = length rows" using trail_sequences [OF ok] snoc by simp
  then show ?thesis using trail_sorted [OF ok] snoc by (simp add: readTail_def endHash_def toLink_def)
qed (simp add: readTail_def bySequence_def endHash_def)

lemma chainBatch_chained: "wellChained sha h (Some (n + 1)) (map toLink (chainBatch sha h n bs))"
  by (induction bs arbitrary: h n) (auto simp: Let_def materialEvent_def recordFor_def toLink_def isChainHashVersion_def CURRENT_CHAIN_HASH_VERSION_def)

lemma trail_grows:
  assumes "trailOk sha rows" and "wellChained sha (endHash GENESIS_HASH (map toLink rows)) (Some (length rows + 1)) (map toLink new)"
  shows "trailOk sha (rows @ new)"
  using assms wellChained_sequence [of sha GENESIS_HASH 1 "map toLink rows"] by (simp add: trailOk_def wellChained_append)

lemma trailOk_append: "trailOk sha rows \<Longrightarrow> trailOk sha (appendAudit sha b rows)"
  using trail_grows [of sha rows "chainBatch sha _ (length rows) [b]"] chainBatch_chained [of sha _ "length rows" "[b]"]
  by (simp add: appendAudit_def readTail_trail Let_def)

lemma trailOk_flush: "trailOk sha rows \<Longrightarrow> trailOk sha (flushTenant sha batch rows)"
  using trail_grows [of sha rows] chainBatch_chained [of sha _ "length rows" batch]
  by (simp add: flushTenant_def readTail_trail)

lemma chainBatch_ids: "map (\<lambda>r. evEventId (arEvent r)) (chainBatch sha h n bs) = map beEventId bs"
  by (induction bs arbitrary: h n) (auto simp: Let_def recordFor_def materialEvent_def)

subsection \<open>Nothing a reader did is lost\<close>

definition flightOf :: "audit_state \<Rightarrow> ident \<Rightarrow> buffered_event list" where
  "flightOf s tenant = (case inFlight s of Some (t, batch) \<Rightarrow> if t = tenant then batch else [] | None \<Rightarrow> [])"

definition idsOfTrail :: "trail \<Rightarrow> ident list" where
  "idsOfTrail rows = map (\<lambda>r. evEventId (arEvent r)) rows"

definition audit_inv :: "(string \<Rightarrow> string) \<Rightarrow> audit_state \<Rightarrow> bool" where
  "audit_inv sha s \<longleftrightarrow>
     (\<forall>t. trailOk sha (trails s t)) \<and>
     (\<forall>t. accepted s t = committed s t @ flightOf s t @ buffers s t) \<and>
     (\<forall>t. subseq (map beEventId (committed s t)) (idsOfTrail (trails s t)))"

lemma subseq_appendAudit: "subseq xs (idsOfTrail rows) \<Longrightarrow> subseq xs (idsOfTrail (appendAudit sha b rows))"
  by (auto simp: appendAudit_def idsOfTrail_def split: prod.splits intro: subseq_append_iff [THEN iffD2] list_emb_append2)

lemma subseq_flushTenant:
  "subseq xs (idsOfTrail rows) \<Longrightarrow> subseq (xs @ map beEventId batch) (idsOfTrail (flushTenant sha batch rows))"
  by (auto simp: flushTenant_def idsOfTrail_def chainBatch_ids list_emb_append_mono split: prod.splits)

lemma audit_inv_step:
  assumes "audit_inv sha s" and "audit_step sha cfg s s'"
  shows "audit_inv sha s'"
  using assms(2)
proof cases
  case (read b)
  then show ?thesis
    using assms(1) by (auto simp: audit_inv_def recordRead_def Let_def flightOf_def trailOk_append subseq_appendAudit split: option.splits)
next
  case (write_now b)
  then show ?thesis
    using assms(1) by (auto simp: audit_inv_def writeStandalone_def flightOf_def trailOk_append subseq_appendAudit)
next
  case (take_batch tenant)
  then show ?thesis using assms(1) by (auto simp: audit_inv_def takeBuffer_def flightOf_def)
next
  case commit
  then show ?thesis
    using assms(1) by (auto simp: audit_inv_def flushCommitted_def flightOf_def trailOk_flush subseq_flushTenant split: option.splits prod.splits if_splits)
next
  case fail
  then show ?thesis using assms(1) by (auto simp: audit_inv_def flushFailed_def flightOf_def split: option.splits prod.splits if_splits)
qed

interpretation audit: transactional audit_start "audit_step sha cfg" "audit_inv sha" for sha cfg
proof
  show "audit_start s \<Longrightarrow> audit_inv sha s" for s
    by (simp add: audit_start_def audit_inv_def trailOk_def flightOf_def idsOfTrail_def)
  show "\<lbrakk>audit_inv sha s; audit_step sha cfg s s'\<rbrakk> \<Longrightarrow> audit_inv sha s'" for s s' by (rule audit_inv_step)
qed

subsection \<open>The batched walk\<close>

lemma verifyLoop_append:
  "verifyLoop sha previous expected n (xs @ ys) =
     (if wellChained sha previous expected xs
      then verifyLoop sha (endHash previous xs) (endSequence expected xs) (n + length xs) ys
      else verifyLoop sha previous expected n xs)"
  by (induction sha previous expected n xs rule: verifyLoop.induct) (auto simp: endHash_def endSequence_def)

lemma verifyLoop_offset:
  "verifyLoop sha previous expected (m + n) xs =
     (verifyLoop sha previous expected n xs)\<lparr>vrVerified := m + vrVerified (verifyLoop sha previous expected n xs)\<rparr>"
  by (induction sha previous expected n xs rule: verifyLoop.induct) (auto simp: intactAfter_def broken_def)

definition restAfter :: "trail \<Rightarrow> nat \<Rightarrow> trail" where
  "restAfter rows cursor = bySequence (filter (\<lambda>r. evSequence (arEvent r) > cursor) rows)"

lemma sorted_filter_above:
  assumes "sorted_wrt (<) (map f (xs @ ys))" and "xs \<noteq> []"
  shows "filter (\<lambda>r. f r > (f (last xs) :: nat)) (xs @ ys) = ys"
proof -
  have "\<forall>x \<in> set xs. f x \<le> f (last xs)"
    using assms by (cases xs rule: rev_cases) (auto simp: sorted_wrt_append)
  moreover have "\<forall>y \<in> set ys. f (last xs) < f y" using assms by (auto simp: sorted_wrt_append)
  ultimately show ?thesis by (auto simp: filter_empty_conv filter_id_conv)
qed

lemma restAfter_strict:
  assumes "distinct (map (\<lambda>r. evSequence (arEvent r)) rows)"
  shows "sorted_wrt (<) (map (\<lambda>r. evSequence (arEvent r)) (restAfter rows cursor))"
proof -
  have "distinct (map (\<lambda>r. evSequence (arEvent r)) (restAfter rows cursor))"
    using assms by (auto simp: restAfter_def bySequence_def distinct_map intro: inj_on_subset)
  then show ?thesis by (simp add: strict_sorted_iff restAfter_def bySequence_def)
qed

lemma restAfter_next:
  assumes d: "distinct (map (\<lambda>r. evSequence (arEvent r)) rows)" and split: "restAfter rows cursor = xs @ ys" and ne: "xs \<noteq> []"
  shows "restAfter rows (evSequence (arEvent (last xs))) = ys"
proof -
  let ?seq = "\<lambda>r. evSequence (arEvent r)"
  have "last xs \<in> set (restAfter rows cursor)" using split ne by simp
  then have gt: "?seq (last xs) > cursor" by (simp add: restAfter_def bySequence_def)
  have "restAfter rows (?seq (last xs)) = filter (\<lambda>r. ?seq r > ?seq (last xs)) (restAfter rows cursor)"
    using gt by (auto simp: restAfter_def bySequence_def filter_sort [symmetric] intro!: arg_cong [of _ _ "sort_key _"] filter_cong)
  then show ?thesis
    using sorted_filter_above [of ?seq xs ys] restAfter_strict [OF d, of cursor] split ne by simp
qed

lemma walkLoop_one_pass:
  assumes "distinct (map (\<lambda>r. evSequence (arEvent r)) rows)" and "0 < verifyBatchSize cfg"
  shows "wrResult (walkLoop sha cfg rows cursor previousHash verified) =
    verifyLoop sha previousHash (Some (cursor + 1)) verified
      (map toLink (take (verifyMaxEvents cfg - verified) (restAfter rows cursor)))"
  using assms
proof (induction sha cfg rows cursor previousHash verified rule: walkLoop.induct)
  case (1 sha cfg rows cursor previousHash verified)
  let ?room = "verifyMaxEvents cfg - verified"
  define m where "m = min (verifyBatchSize cfg) ?room"
  define slice where "slice = take m (restAfter rows cursor)"
  have sl: "sliceBySequence rows cursor (min (verifyBatchSize cfg) ?room) = slice"
    by (simp add: sliceBySequence_def slice_def m_def restAfter_def)
  show ?case
  proof (cases "verifyMaxEvents cfg \<le> verified \<or> slice = []")
    case True
    then have "take ?room (restAfter rows cursor) = []"
      using "1.prems"(2) by (auto simp: slice_def m_def min_def split: if_splits)
    then show ?thesis using True sl by (subst walkLoop.simps) (auto simp: Let_def)
  next
    case False
    then have go: "\<not> verifyMaxEvents cfg \<le> verified" "slice \<noteq> []" by auto
    define rest where "rest = drop (length slice) (restAfter rows cursor)"
    have whole: "restAfter rows cursor = slice @ rest" unfolding rest_def slice_def by (simp add: min_def)
    have parts: "take ?room (restAfter rows cursor) = slice @ take (?room - length slice) rest"
      unfolding whole by (simp add: slice_def m_def min_def)
    show ?thesis
    proof (cases "wellChained sha previousHash (Some (cursor + 1)) (map toLink slice)")
      case False
      then show ?thesis
        using go sl verifyLoop_offset [of sha previousHash "Some (cursor + 1)" verified 0 "map toLink slice"]
        by (subst walkLoop.simps) (simp add: Let_def verifyChain_def verifyLoop_intact parts verifyLoop_append)
    next
      case True
      then have ok: "verifyChain sha previousHash (Some (cursor + 1)) (map toLink slice) = intactAfter (length slice)"
        using verifyLoop_verified [OF True, of 0] by (simp add: verifyChain_def)
      have "wrResult (walkLoop sha cfg rows (evSequence (arEvent (last slice))) (arHash (last slice)) (verified + length slice)) =
          verifyLoop sha (arHash (last slice)) (Some (evSequence (arEvent (last slice)) + 1)) (verified + length slice)
            (map toLink (take (verifyMaxEvents cfg - (verified + length slice)) (restAfter rows (evSequence (arEvent (last slice))))))"
        using "1.IH" [OF go(1) sl [symmetric] go(2) ok [symmetric] _ "1.prems"] by (simp add: intactAfter_def)
      moreover have "restAfter rows (evSequence (arEvent (last slice))) = rest"
        by (rule restAfter_next [OF "1.prems"(1) whole go(2)])
      moreover have "walkLoop sha cfg rows cursor previousHash verified =
          walkLoop sha cfg rows (evSequence (arEvent (last slice))) (arHash (last slice)) (verified + length slice)"
        using go sl ok by (subst walkLoop.simps) (simp add: Let_def intactAfter_def)
      ultimately show ?thesis
        using True go(2) by (simp add: parts verifyLoop_append endHash_def endSequence_def last_map toLink_fields)
    qed
  qed
qed

subsection \<open>Properties\<close>

text \<open>A run for the witnesses: a view is buffered, a second event is written at once, then the buffer is flushed.\<close>

definition sampleBuffered :: "ident \<Rightarrow> buffered_event" where
  "sampleBuffered i =
     \<lparr>beEventId = i, beOccurredAt = ''2026-01-01T00:00:00.000Z'',
      beActor = \<lparr>aaTenantId = ''t'', aaUserId = Some ''ana'', aaChannel = ''WEB'', aaCorrelationId = ''c'', aaIpAddress = None,
        aaUserAgent = None, aaApiClientId = None\<rparr>,
      beEntry = \<lparr>aeOnBehalfOfId = None, aeAction = ''document.viewed'', aeSubjectType = ''DOCUMENT'', aeSubjectId = ''d'',
        aeOutcome = ''SUCCESS'', aePayload = AObj [], aeReason = None\<rparr>\<rparr>"

definition sampleConfig :: audit_config where
  "sampleConfig = \<lparr>readBufferMax = 10, readBufferSize = 5, verifyMaxEvents = 100, verifyBatchSize = 1\<rparr>"

definition emptyAudit :: audit_state where
  "emptyAudit = \<lparr>buffers = (\<lambda>_. []), inFlight = None, trails = (\<lambda>_. []), accepted = (\<lambda>_. []), committed = (\<lambda>_. [])\<rparr>"

definition sampleAudit :: audit_state where
  "sampleAudit =
     flushCommitted hexText (takeBuffer ''t''
       (writeStandalone hexText (sampleBuffered ''w'')
         (fst (recordRead hexText sampleConfig (sampleBuffered ''r'') emptyAudit))))"

lemma sampleAudit_reached: "(audit_step hexText sampleConfig)\<^sup>*\<^sup>* emptyAudit sampleAudit"
proof -
  let ?s1 = "fst (recordRead hexText sampleConfig (sampleBuffered ''r'') emptyAudit)"
  let ?s2 = "writeStandalone hexText (sampleBuffered ''w'') ?s1"
  have "audit_step hexText sampleConfig emptyAudit ?s1" by (rule audit_step.read)
  moreover have "audit_step hexText sampleConfig ?s1 ?s2" by (rule audit_step.write_now)
  moreover have "audit_step hexText sampleConfig ?s2 (takeBuffer ''t'' ?s2)"
    by (rule audit_step.take_batch)
      (simp_all add: writeStandalone_def recordRead_def Let_def emptyAudit_def sampleConfig_def sampleBuffered_def)
  moreover have "audit_step hexText sampleConfig (takeBuffer ''t'' ?s2) sampleAudit"
    unfolding sampleAudit_def by (rule audit_step.commit) (simp add: takeBuffer_def)
  ultimately show ?thesis by (meson converse_rtranclp_into_rtranclp rtranclp.rtrancl_refl)
qed

lemma emptyAudit_start: "audit_start emptyAudit"
  by (simp add: audit_start_def emptyAudit_def)





text \<open>
  C15: the nightly walk in batches gives, to the last field of its result, what one pass over the
  events after the starting point gives, up to the budget.
\<close>

theorem batched_walk_is_one_pass:
  assumes "distinct (map (\<lambda>r. evSequence (arEvent r)) rows)" and "0 < verifyBatchSize cfg"
  shows "wrResult (walkFrom sha cfg rows startSequence startHash) =
    verifyChain sha startHash (Some (startSequence + 1))
      (map toLink (sliceBySequence rows startSequence (verifyMaxEvents cfg)))"
  using walkLoop_one_pass [OF assms, of sha startSequence startHash 0]
  by (simp add: walkFrom_def verifyChain_def sliceBySequence_def restAfter_def)

theorem batched_walk_is_one_pass_witness:
  "wrResult (walkFrom hexText sampleConfig (trails sampleAudit ''t'') 0 GENESIS_HASH) =
    verifyChain hexText GENESIS_HASH (Some 1) (map toLink (sliceBySequence (trails sampleAudit ''t'') 0 100))"
proof -
  have "trailOk hexText (trails sampleAudit ''t'')"
    using audit.reachable_keeps [OF emptyAudit_start sampleAudit_reached] by (simp add: audit_inv_def)
  then have "distinct (map (\<lambda>r. evSequence (arEvent r)) (trails sampleAudit ''t''))" by (simp only: trail_sequences distinct_upt)
  from batched_walk_is_one_pass [OF this, of sampleConfig hexText 0 GENESIS_HASH] show ?thesis
    by (simp add: sampleConfig_def)
qed

end
