(* ===== verification/Numbering.thy ===== *)
theory Numbering
  imports Prelude
begin

text \<open>
  The document-number recipe: \<open>src/apps/api/src/modules/administration/domain/numbering.ts\<close>, with the
  enumerations of \<open>src/packages/domain/src/enums/administration.ts\<close>. Rules and their validation, the
  formatter, the key of the series a number is drawn from, and the matcher for numbers typed by hand.

  A date is the pair the code reads of it: the year and the month, from one. The matcher builds a regular
  expression with named holes; the model keeps the holes as data and matches them with the backtracking
  order of the language, the widest counter first. Two holes of one name are refused by the language when
  the expression is built.
\<close>

subsection \<open>Rules\<close>

datatype number_segment =
    LITERAL string
  | COMPANY_CODE bool
  | ENTITY_CODE bool
  | BRANCH_CODE bool
  | DEPARTMENT_CODE bool
  | DOCUMENT_TYPE_CODE bool
  | CATEGORY_CODE bool
  | YEAR "nat option"
  | MONTH
  | SEQUENCE "nat option"

datatype segment_kind =
    KLITERAL | KCOMPANY_CODE | KENTITY_CODE | KBRANCH_CODE | KDEPARTMENT_CODE | KDOCUMENT_TYPE_CODE
  | KCATEGORY_CODE | KYEAR | KMONTH | KSEQUENCE

fun kindOf :: "number_segment \<Rightarrow> segment_kind" where
  "kindOf (LITERAL _) = KLITERAL"
| "kindOf (COMPANY_CODE _) = KCOMPANY_CODE"
| "kindOf (ENTITY_CODE _) = KENTITY_CODE"
| "kindOf (BRANCH_CODE _) = KBRANCH_CODE"
| "kindOf (DEPARTMENT_CODE _) = KDEPARTMENT_CODE"
| "kindOf (DOCUMENT_TYPE_CODE _) = KDOCUMENT_TYPE_CODE"
| "kindOf (CATEGORY_CODE _) = KCATEGORY_CODE"
| "kindOf (YEAR _) = KYEAR"
| "kindOf MONTH = KMONTH"
| "kindOf (SEQUENCE _) = KSEQUENCE"

datatype reset_scope =
    NEVER | YEARLY | MONTHLY | PER_COMPANY | PER_ENTITY | PER_BRANCH | PER_DEPARTMENT
  | PER_DOCUMENT_TYPE | PER_CATEGORY

text \<open>The scopes in the alphabetical order of their names, which is the order \<open>sort\<close> puts them in.\<close>

fun scopeRank :: "reset_scope \<Rightarrow> nat" where
  "scopeRank MONTHLY = 0"
| "scopeRank NEVER = 1"
| "scopeRank PER_BRANCH = 2"
| "scopeRank PER_CATEGORY = 3"
| "scopeRank PER_COMPANY = 4"
| "scopeRank PER_DEPARTMENT = 5"
| "scopeRank PER_DOCUMENT_TYPE = 6"
| "scopeRank PER_ENTITY = 7"
| "scopeRank YEARLY = 8"

lemma scopeRank_inject [simp]: "scopeRank a = scopeRank b \<longleftrightarrow> a = b"
  by (cases a; cases b) simp_all

instantiation reset_scope :: linorder
begin

definition less_eq_reset_scope :: "reset_scope \<Rightarrow> reset_scope \<Rightarrow> bool" where
  "less_eq_reset_scope a b \<longleftrightarrow> scopeRank a \<le> scopeRank b"

definition less_reset_scope :: "reset_scope \<Rightarrow> reset_scope \<Rightarrow> bool" where
  "less_reset_scope a b \<longleftrightarrow> scopeRank a < scopeRank b"

instance
  by standard (auto simp: less_eq_reset_scope_def less_reset_scope_def simp flip: scopeRank_inject)

end

record numbering_rule =
  nrSeparator :: string
  nrSegments :: "number_segment list"
  nrResetScope :: "reset_scope list"
  nrReserveOnSubmit :: bool
  nrStrictGapless :: bool

record numbering_codes =
  companyCode :: "string option"
  entityCode :: "string option"
  branchCode :: "string option"
  departmentCode :: "string option"
  documentTypeCode :: "string option"
  categoryCode :: "string option"

record calendar_month =
  cYear :: nat
  cMonth :: nat

record numbering_context = numbering_codes +
  assignedAt :: calendar_month

subsection \<open>Validation\<close>

datatype rule_rejection =
    NO_SEQUENCE | MULTIPLE_SEQUENCES | AMBIGUOUS_OPTIONAL_SEGMENTS | OPTIONAL_WITHOUT_SEPARATOR
  | EMPTY_RULE | RESET_SCOPE_EMPTY | RESET_SCOPE_NEVER_COMBINED | RESET_SCOPE_DUPLICATED
  | RESET_SCOPE_MONTHLY_AND_YEARLY | RESET_SCOPE_WITHOUT_SEGMENT | GAPLESS_CANNOT_RESERVE
  | PADDING_OUT_OF_RANGE

definition MINIMUM_PADDING :: nat where
  "MINIMUM_PADDING = 1"

definition MAXIMUM_PADDING :: nat where
  "MAXIMUM_PADDING = 12"

fun SCOPE_REQUIRES_SEGMENT :: "reset_scope \<Rightarrow> segment_kind list" where
  "SCOPE_REQUIRES_SEGMENT PER_COMPANY = [KCOMPANY_CODE]"
| "SCOPE_REQUIRES_SEGMENT PER_ENTITY = [KENTITY_CODE]"
| "SCOPE_REQUIRES_SEGMENT PER_BRANCH = [KBRANCH_CODE]"
| "SCOPE_REQUIRES_SEGMENT PER_DOCUMENT_TYPE = [KDOCUMENT_TYPE_CODE]"
| "SCOPE_REQUIRES_SEGMENT PER_CATEGORY = [KCATEGORY_CODE]"
| "SCOPE_REQUIRES_SEGMENT YEARLY = [KYEAR]"
| "SCOPE_REQUIRES_SEGMENT MONTHLY = [KMONTH, KYEAR]"
| "SCOPE_REQUIRES_SEGMENT _ = []"

fun isOptional :: "number_segment \<Rightarrow> bool" where
  "isOptional (COMPANY_CODE opt) = opt"
| "isOptional (ENTITY_CODE opt) = opt"
| "isOptional (BRANCH_CODE opt) = opt"
| "isOptional (DEPARTMENT_CODE opt) = opt"
| "isOptional (DOCUMENT_TYPE_CODE opt) = opt"
| "isOptional (CATEGORY_CODE opt) = opt"
| "isOptional _ = False"

fun paddingOf :: "number_segment \<Rightarrow> nat" where
  "paddingOf (SEQUENCE p) = (case p of None \<Rightarrow> 4 | Some n \<Rightarrow> n)"
| "paddingOf _ = 4"

definition isSequence :: "number_segment \<Rightarrow> bool" where
  "isSequence g \<longleftrightarrow> kindOf g = KSEQUENCE"

definition checkResetScope :: "numbering_rule \<Rightarrow> rule_rejection list" where
  "checkResetScope rule =
     (let scope = nrResetScope rule;
          kinds = set (map kindOf (nrSegments rule))
      in if scope = [] then [RESET_SCOPE_EMPTY]
         else (if card (set scope) \<noteq> length scope then [RESET_SCOPE_DUPLICATED] else [])
            @ (if length scope > 1 \<and> NEVER \<in> set scope then [RESET_SCOPE_NEVER_COMBINED] else [])
            @ (if YEARLY \<in> set scope \<and> MONTHLY \<in> set scope then [RESET_SCOPE_MONTHLY_AND_YEARLY] else [])
            @ concat (map (\<lambda>entry.
                if list_ex (\<lambda>kind. kind \<notin> kinds) (SCOPE_REQUIRES_SEGMENT entry)
                then [RESET_SCOPE_WITHOUT_SEGMENT] else []) scope))"

definition checkRule :: "numbering_rule \<Rightarrow> rule_rejection list" where
  "checkRule rule =
     (if nrSegments rule = [] then [EMPTY_RULE]
      else
        (let sequences = filter isSequence (nrSegments rule);
             optional = filter isOptional (nrSegments rule)
         in (if length sequences = 0 then [NO_SEQUENCE] else [])
          @ (if length sequences > 1 then [MULTIPLE_SEQUENCES] else [])
          @ concat (map (\<lambda>g.
              if paddingOf g < MINIMUM_PADDING \<or> paddingOf g > MAXIMUM_PADDING
              then [PADDING_OUT_OF_RANGE] else []) sequences)
          @ (if length optional > 1 then [AMBIGUOUS_OPTIONAL_SEGMENTS] else [])
          @ (if length optional > 0 \<and> length (nrSeparator rule) = 0 then [OPTIONAL_WITHOUT_SEPARATOR] else [])
          @ checkResetScope rule
          @ (if nrStrictGapless rule \<and> nrReserveOnSubmit rule then [GAPLESS_CANNOT_RESERVE] else [])))"

subsection \<open>Formatting\<close>

definition codeOr :: "number_segment \<Rightarrow> string option \<Rightarrow> string option" where
  "codeOr segment code =
     (if code \<noteq> None \<and> length (the code) > 0 then code
      else if isOptional segment then None else Some '''')"

definition twoDigits :: "nat \<Rightarrow> string" where
  "twoDigits n = padStart 2 (CHR ''0'') (showNat n)"

fun renderSegment :: "number_segment \<Rightarrow> numbering_context \<Rightarrow> nat \<Rightarrow> string option" where
  "renderSegment (LITERAL v) cx n = Some v"
| "renderSegment (COMPANY_CODE opt) cx n = codeOr (COMPANY_CODE opt) (companyCode cx)"
| "renderSegment (ENTITY_CODE opt) cx n = codeOr (ENTITY_CODE opt) (entityCode cx)"
| "renderSegment (BRANCH_CODE opt) cx n = codeOr (BRANCH_CODE opt) (branchCode cx)"
| "renderSegment (DEPARTMENT_CODE opt) cx n = codeOr (DEPARTMENT_CODE opt) (departmentCode cx)"
| "renderSegment (DOCUMENT_TYPE_CODE opt) cx n = codeOr (DOCUMENT_TYPE_CODE opt) (documentTypeCode cx)"
| "renderSegment (CATEGORY_CODE opt) cx n = codeOr (CATEGORY_CODE opt) (categoryCode cx)"
| "renderSegment (YEAR digits) cx n =
     Some (if (case digits of None \<Rightarrow> 4 | Some d \<Rightarrow> d) = 2
           then twoDigits (cYear (assignedAt cx) mod 100)
           else showNat (cYear (assignedAt cx)))"
| "renderSegment MONTH cx n = Some (twoDigits (cMonth (assignedAt cx)))"
| "renderSegment (SEQUENCE p) cx n = Some (padStart (paddingOf (SEQUENCE p)) (CHR ''0'') (showNat n))"

fun renderedParts :: "number_segment list \<Rightarrow> numbering_context \<Rightarrow> nat \<Rightarrow> string list" where
  "renderedParts [] cx n = []"
| "renderedParts (g # gs) cx n =
     (case renderSegment g cx n of
        None \<Rightarrow> renderedParts gs cx n
      | Some t \<Rightarrow> t # renderedParts gs cx n)"

definition omittedKinds :: "number_segment list \<Rightarrow> numbering_context \<Rightarrow> nat \<Rightarrow> segment_kind list" where
  "omittedKinds gs cx n = map kindOf (filter (\<lambda>g. renderSegment g cx n = None) gs)"

definition formatNumber :: "numbering_rule \<Rightarrow> numbering_context \<Rightarrow> nat \<Rightarrow> string \<times> segment_kind list" where
  "formatNumber rule cx n =
     (joinStr (nrSeparator rule) (renderedParts (nrSegments rule) cx n),
      omittedKinds (nrSegments rule) cx n)"

subsection \<open>The series\<close>

definition orEmpty :: "string option \<Rightarrow> string" where
  "orEmpty v = (case v of None \<Rightarrow> '''' | Some t \<Rightarrow> t)"

fun scopeComponent :: "numbering_context \<Rightarrow> reset_scope \<Rightarrow> string" where
  "scopeComponent cx NEVER = ''ALL''"
| "scopeComponent cx YEARLY = ''YEAR:'' @ showNat (cYear (assignedAt cx))"
| "scopeComponent cx MONTHLY =
     ''MONTH:'' @ showNat (cYear (assignedAt cx)) @ ''-'' @ twoDigits (cMonth (assignedAt cx))"
| "scopeComponent cx PER_COMPANY = ''COMPANY:'' @ orEmpty (companyCode cx)"
| "scopeComponent cx PER_ENTITY = ''ENTITY:'' @ orEmpty (entityCode cx)"
| "scopeComponent cx PER_BRANCH = ''BRANCH:'' @ orEmpty (branchCode cx)"
| "scopeComponent cx PER_DEPARTMENT = ''DEPARTMENT:'' @ orEmpty (departmentCode cx)"
| "scopeComponent cx PER_DOCUMENT_TYPE = ''TYPE:'' @ orEmpty (documentTypeCode cx)"
| "scopeComponent cx PER_CATEGORY = ''CATEGORY:'' @ orEmpty (categoryCode cx)"

definition scopeKeyFor :: "numbering_rule \<Rightarrow> numbering_context \<Rightarrow> string" where
  "scopeKeyFor rule cx = joinStr ''|'' (map (scopeComponent cx) (sort (nrResetScope rule)))"

subsection \<open>Numbers typed by hand\<close>

datatype manual_rejection = SHAPE_MISMATCH | REQUIRED_CODE_MISSING | SEQUENCE_OUT_OF_RANGE

record manual_match =
  mSequenceValue :: nat
  mEncodedDate :: "calendar_month option"

datatype hole = Exact string | YearHole nat | MonthHole | SequenceHole nat

record hole_groups =
  gYear :: "string option"
  gMonth :: "string option"
  gSequence :: "string option"

fun firstSome :: "('a \<Rightarrow> 'b option) \<Rightarrow> 'a list \<Rightarrow> 'b option" where
  "firstSome f [] = None"
| "firstSome f (x # xs) = (case f x of None \<Rightarrow> firstSome f xs | Some y \<Rightarrow> Some y)"

definition isMonthText :: "string \<Rightarrow> bool" where
  "isMonthText t \<longleftrightarrow> length t = 2 \<and> list_all isDigit t \<and> 1 \<le> readNat t \<and> readNat t \<le> 12"

fun matchHoles :: "hole list \<Rightarrow> string \<Rightarrow> hole_groups \<Rightarrow> hole_groups option" where
  "matchHoles [] s g = (if s = [] then Some g else None)"
| "matchHoles (Exact t # hs) s g =
     (if startsWith s t then matchHoles hs (drop (length t) s) g else None)"
| "matchHoles (YearHole k # hs) s g =
     (if k \<le> length s \<and> list_all isDigit (take k s)
      then matchHoles hs (drop k s) (g\<lparr>gYear := Some (take k s)\<rparr>) else None)"
| "matchHoles (MonthHole # hs) s g =
     (if isMonthText (take 2 s)
      then matchHoles hs (drop 2 s) (g\<lparr>gMonth := Some (take 2 s)\<rparr>) else None)"
| "matchHoles (SequenceHole p # hs) s g =
     firstSome (\<lambda>k. matchHoles hs (drop k s) (g\<lparr>gSequence := Some (take k s)\<rparr>))
       (rev [p ..< Suc (length (takeWhile isDigit s))])"

fun holesOf :: "number_segment list \<Rightarrow> numbering_context \<Rightarrow> manual_rejection + hole list" where
  "holesOf [] cx = Inr []"
| "holesOf (g # gs) cx =
     (let continue = (\<lambda>h. case holesOf gs cx of Inl e \<Rightarrow> Inl e | Inr hs \<Rightarrow> Inr (h # hs))
      in case g of
           YEAR digits \<Rightarrow> continue (YearHole (case digits of None \<Rightarrow> 4 | Some d \<Rightarrow> d))
         | MONTH \<Rightarrow> continue MonthHole
         | SEQUENCE p \<Rightarrow> continue (SequenceHole (paddingOf (SEQUENCE p)))
         | _ \<Rightarrow> (case renderSegment g cx 0 of
                  None \<Rightarrow> holesOf gs cx
                | Some t \<Rightarrow> if t = [] then Inl REQUIRED_CODE_MISSING else continue (Exact t)))"

fun joinHoles :: "string \<Rightarrow> hole list \<Rightarrow> hole list" where
  "joinHoles sep [] = []"
| "joinHoles sep [h] = [h]"
| "joinHoles sep (h # hs) = h # Exact sep # joinHoles sep hs"

fun isNamed :: "hole \<Rightarrow> bool" where
  "isNamed (Exact _) = False"
| "isNamed _ = True"

fun holeName :: "hole \<Rightarrow> string" where
  "holeName (Exact _) = ''''"
| "holeName (YearHole _) = ''year''"
| "holeName MonthHole = ''month''"
| "holeName (SequenceHole _) = ''sequence''"

definition lastYearDigits :: "number_segment list \<Rightarrow> nat option" where
  "lastYearDigits gs =
     fold (\<lambda>g acc. case g of YEAR digits \<Rightarrow> Some (case digits of None \<Rightarrow> 4 | Some d \<Rightarrow> d) | _ \<Rightarrow> acc) gs None"

text \<open>\<open>Date.UTC\<close> reads a year below one hundred as one of the twentieth century.\<close>

definition utcYear :: "nat \<Rightarrow> nat" where
  "utcYear y = (if y \<le> 99 then 1900 + y else y)"

definition readMatch :: "nat option \<Rightarrow> hole_groups \<Rightarrow> manual_rejection + manual_match" where
  "readMatch yearDigits g =
     (let sequenceValue = readNat (orEmpty (gSequence g))
      in if sequenceValue < 1 then Inl SEQUENCE_OUT_OF_RANGE
         else if gYear g = None \<and> gMonth g = None
         then Inr \<lparr>mSequenceValue = sequenceValue, mEncodedDate = None\<rparr>
         else
           (let year = (case gYear g of
                  None \<Rightarrow> 1970
                | Some t \<Rightarrow> readNat t + (if yearDigits = Some 2 then 2000 else 0));
                month = (case gMonth g of None \<Rightarrow> 1 | Some t \<Rightarrow> readNat t)
            in Inr \<lparr>mSequenceValue = sequenceValue,
                    mEncodedDate = Some \<lparr>cYear = utcYear year, cMonth = month\<rparr>\<rparr>))"

definition EPOCH_MONTH :: calendar_month where
  "EPOCH_MONTH = \<lparr>cYear = 1970, cMonth = 1\<rparr>"

definition dated :: "numbering_codes \<Rightarrow> calendar_month \<Rightarrow> numbering_context" where
  "dated codes at =
     \<lparr>companyCode = companyCode codes, entityCode = entityCode codes, branchCode = branchCode codes,
      departmentCode = departmentCode codes, documentTypeCode = documentTypeCode codes,
      categoryCode = categoryCode codes, assignedAt = at\<rparr>"

definition matchManualNumber ::
  "numbering_rule \<Rightarrow> numbering_codes \<Rightarrow> string \<Rightarrow> (manual_rejection + manual_match) result" where
  "matchManualNumber rule codes candidate =
     (case holesOf (nrSegments rule) (dated codes EPOCH_MONTH) of
        Inl rejection \<Rightarrow> Inr (Inl rejection)
      | Inr parts \<Rightarrow>
          if \<not> distinct (map holeName (filter isNamed parts)) then Inl RegExpSyntaxError
          else
            (case matchHoles (joinHoles (nrSeparator rule) parts) candidate
                    \<lparr>gYear = None, gMonth = None, gSequence = None\<rparr> of
               None \<Rightarrow> Inr (Inl SHAPE_MISMATCH)
             | Some groups \<Rightarrow>
                 if filter isNamed parts = [] then Inr (Inl SHAPE_MISMATCH)
                 else Inr (readMatch (lastYearDigits (nrSegments rule)) groups)))"

subsection \<open>Previews\<close>

definition PREVIEW_SEQUENCE_VALUE :: nat where
  "PREVIEW_SEQUENCE_VALUE = 42"

definition PREVIEW_PLACEHOLDERS :: numbering_codes where
  "PREVIEW_PLACEHOLDERS =
     \<lparr>companyCode = Some ''CO'', entityCode = Some ''EN'', branchCode = Some ''BR'',
      departmentCode = Some ''DE'', documentTypeCode = Some ''TY'', categoryCode = Some ''CA''\<rparr>"

subsection \<open>What a rule that may be saved looks like\<close>

lemma checkRule_accepted:
  assumes "checkRule rule = []"
  shows "length (filter isSequence (nrSegments rule)) = 1"
    and "length (filter isOptional (nrSegments rule)) \<le> 1"
    and "checkResetScope rule = []"
    and "nrSeparator rule = [] \<Longrightarrow> filter isOptional (nrSegments rule) = []"
  using assms by (auto simp: checkRule_def Let_def Suc_lessI split: if_splits)

lemma concat_reasons_Nil: "concat (map (\<lambda>x. if P x then [r] else []) xs) = [] \<longleftrightarrow> (\<forall>x \<in> set xs. \<not> P x)"
  by (induction xs) auto

lemma checkResetScope_accepted:
  assumes ok: "checkResetScope rule = []" and entry: "entry \<in> set (nrResetScope rule)"
    and kind: "kind \<in> set (SCOPE_REQUIRES_SEGMENT entry)"
  shows "\<exists>g \<in> set (nrSegments rule). kindOf g = kind"
proof -
  have "nrResetScope rule \<noteq> []" using entry by auto
  then have "\<forall>e \<in> set (nrResetScope rule).
      \<not> list_ex (\<lambda>k. k \<notin> set (map kindOf (nrSegments rule))) (SCOPE_REQUIRES_SEGMENT e)"
    using ok unfolding checkResetScope_def Let_def
    by (simp only: if_False append_is_Nil_conv concat_reasons_Nil) blast
  then show ?thesis using entry kind by (fastforce simp: list_ex_iff image_iff)
qed

lemma accepted_has_segment:
  assumes "checkRule rule = []" and "entry \<in> set (nrResetScope rule)"
    and "kind \<in> set (SCOPE_REQUIRES_SEGMENT entry)"
  shows "\<exists>g \<in> set (nrSegments rule). kindOf g = kind"
  using assms checkRule_accepted(3) checkResetScope_accepted by blast

lemma kindOf_iff [simp]:
  "kindOf g = KLITERAL \<longleftrightarrow> (\<exists>v. g = LITERAL v)"
  "kindOf g = KCOMPANY_CODE \<longleftrightarrow> (\<exists>b. g = COMPANY_CODE b)"
  "kindOf g = KENTITY_CODE \<longleftrightarrow> (\<exists>b. g = ENTITY_CODE b)"
  "kindOf g = KBRANCH_CODE \<longleftrightarrow> (\<exists>b. g = BRANCH_CODE b)"
  "kindOf g = KDEPARTMENT_CODE \<longleftrightarrow> (\<exists>b. g = DEPARTMENT_CODE b)"
  "kindOf g = KDOCUMENT_TYPE_CODE \<longleftrightarrow> (\<exists>b. g = DOCUMENT_TYPE_CODE b)"
  "kindOf g = KCATEGORY_CODE \<longleftrightarrow> (\<exists>b. g = CATEGORY_CODE b)"
  "kindOf g = KYEAR \<longleftrightarrow> (\<exists>d. g = YEAR d)"
  "kindOf g = KMONTH \<longleftrightarrow> g = MONTH"
  "kindOf g = KSEQUENCE \<longleftrightarrow> (\<exists>p. g = SEQUENCE p)"
  by (cases g; simp)+

lemma isSequence_simp [simp]: "isSequence g \<longleftrightarrow> (\<exists>p. g = SEQUENCE p)"
  by (simp add: isSequence_def)

lemma renderSegment_None: "renderSegment g cx n = None \<Longrightarrow> isOptional g"
  by (cases g) (auto simp: codeOr_def split: if_splits)

subsection \<open>Numerals of a fixed width\<close>

lemma showNat_length:
  "n < 10 \<Longrightarrow> length (showNat n) = 1"
  "10 \<le> n \<Longrightarrow> length (showNat n) = Suc (length (showNat (n div 10)))"
  by (subst showNat.simps, simp)+

lemma showNat_length_4: "1000 \<le> y \<Longrightarrow> y \<le> 9999 \<Longrightarrow> length (showNat y) = 4"
  using showNat_length(1) [of "y div 10 div 10 div 10"] showNat_length(2) [of y]
    showNat_length(2) [of "y div 10"] showNat_length(2) [of "y div 10 div 10"]
  by linarith

lemma list_all_showNat: "list_all isDigit (showNat n)"
  by (auto simp: list_all_iff dest: showNat_digits)

lemma padded_digits: "list_all isDigit (padStart k (CHR ''0'') (showNat n))"
  by (auto simp: list_all_iff dest: padStart_digits)

lemma showNat_length_2: "n < 100 \<Longrightarrow> length (showNat n) \<le> 2"
  using showNat_length(1) [of n] showNat_length(1) [of "n div 10"] showNat_length(2) [of n] by linarith

lemma twoDigits_facts:
  assumes "n < 100"
  shows "length (twoDigits n) = 2" and "list_all isDigit (twoDigits n)" and "readNat (twoDigits n) = n"
  using assms showNat_length_2 [of n] by (simp_all add: twoDigits_def padded_digits)

lemma isMonthText_twoDigits: "1 \<le> m \<Longrightarrow> m \<le> 12 \<Longrightarrow> isMonthText (twoDigits m)"
  by (simp add: isMonthText_def twoDigits_facts)

lemma twoDigits_inject [simp]: "twoDigits m = twoDigits n \<longleftrightarrow> m = n"
  by (metis readNat_padStart readNat_showNat twoDigits_def)

subsection \<open>Matching what was rendered\<close>

text \<open>A text that fits a hole, and the groups the matcher reads off a list of such texts.\<close>

fun fits :: "hole \<Rightarrow> string \<Rightarrow> bool" where
  "fits (Exact u) t \<longleftrightarrow> t = u"
| "fits (YearHole k) t \<longleftrightarrow> length t = k \<and> list_all isDigit t"
| "fits MonthHole t \<longleftrightarrow> isMonthText t"
| "fits (SequenceHole p) t \<longleftrightarrow> p \<le> length t \<and> list_all isDigit t"

fun collect :: "hole list \<Rightarrow> string list \<Rightarrow> hole_groups \<Rightarrow> hole_groups" where
  "collect (YearHole _ # hs) (t # ts) g = collect hs ts (g\<lparr>gYear := Some t\<rparr>)"
| "collect (MonthHole # hs) (t # ts) g = collect hs ts (g\<lparr>gMonth := Some t\<rparr>)"
| "collect (SequenceHole _ # hs) (t # ts) g = collect hs ts (g\<lparr>gSequence := Some t\<rparr>)"
| "collect (Exact _ # hs) (t # ts) g = collect hs ts g"
| "collect _ _ g = g"

fun isSequenceHole :: "hole \<Rightarrow> bool" where
  "isSequenceHole (SequenceHole _) = True"
| "isSequenceHole _ = False"

fun holeWidth :: "hole \<Rightarrow> nat" where
  "holeWidth (Exact t) = length t"
| "holeWidth (YearHole k) = k"
| "holeWidth MonthHole = 2"
| "holeWidth (SequenceHole p) = 0"

lemma matchHoles_width:
  "matchHoles hs s g = Some g' \<Longrightarrow> filter isSequenceHole hs = [] \<Longrightarrow> length s = sum_list (map holeWidth hs)"
proof (induction hs s g rule: matchHoles.induct)
  case (2 t hs s g)
  then show ?case by (auto simp: startsWith_iff_prefix prefix_def split: if_splits)
next
  case (4 hs s g)
  then show ?case by (auto simp: isMonthText_def min_def split: if_splits)
qed (auto split: if_splits)

lemma fits_width:
  "list_all2 fits hs ts \<Longrightarrow> filter isSequenceHole hs = [] \<Longrightarrow> length (concat ts) = sum_list (map holeWidth hs)"
proof (induction rule: list_all2_induct)
  case (Cons h hs t ts)
  then show ?case by (cases h) (auto simp: isMonthText_def split: if_splits)
qed simp

lemma firstSome_unique:
  assumes "k \<in> set ks" and "f k = Some y" and "\<forall>j \<in> set ks. j \<noteq> k \<longrightarrow> f j = None"
  shows "firstSome f ks = Some y"
  using assms
proof (induction ks)
  case (Cons j ks)
  then show ?case by (cases "j = k") auto
qed simp

lemma matchHoles_sequence:
  assumes fit: "list_all2 fits hs ts" and one: "filter isSequenceHole hs = []"
    and digits: "list_all isDigit t" and wide: "p \<le> length t"
    and rest: "matchHoles hs (concat ts) (g\<lparr>gSequence := Some t\<rparr>) = Some r"
  shows "matchHoles (SequenceHole p # hs) (t @ concat ts) g = Some r"
proof -
  let ?s = "t @ concat ts"
  have long: "length t \<le> length (takeWhile isDigit ?s)"
    using digits by (simp add: list_all_iff takeWhile_append)
  have only: "matchHoles hs (drop j ?s) g' = None"
    if j: "j \<in> set (rev [p..<Suc (length (takeWhile isDigit ?s))])" "j \<noteq> length t" for j g'
  proof (rule ccontr)
    assume "matchHoles hs (drop j ?s) g' \<noteq> None"
    then have "length (drop j ?s) = length (concat ts)"
      using matchHoles_width [OF _ one] fits_width [OF fit one] by fastforce
    moreover have "j \<le> length ?s" using j length_takeWhile_le [of isDigit ?s] by auto
    ultimately show False using j by simp
  qed
  show ?thesis
    unfolding matchHoles.simps
  proof (rule firstSome_unique)
    show "length t \<in> set (rev [p..<Suc (length (takeWhile isDigit ?s))])" using long wide by auto
    show "matchHoles hs (drop (length t) ?s) (g\<lparr>gSequence := Some (take (length t) ?s)\<rparr>) = Some r"
      using rest by simp
  qed (use only in blast)
qed

lemma matchHoles_fits:
  assumes "list_all2 fits hs ts" and "length (filter isSequenceHole hs) \<le> 1"
  shows "matchHoles hs (concat ts) g = Some (collect hs ts g)"
  using assms
proof (induction arbitrary: g rule: list_all2_induct)
  case (Cons h hs t ts)
  show ?case
  proof (cases h)
    case (SequenceHole p)
    then have none: "filter isSequenceHole hs = []" using Cons.prems by simp
    then show ?thesis
      using matchHoles_sequence [OF Cons.hyps(2) none, of t p g] Cons.hyps(1) SequenceHole
        Cons.IH [of "g\<lparr>gSequence := Some t\<rparr>"] by simp
  qed (use Cons in \<open>auto simp: startsWith_iff_prefix isMonthText_def\<close>)
qed simp

lemma joinHoles_fits:
  assumes "list_all2 fits hs ts"
  shows "\<exists>us. list_all2 fits (joinHoles sep hs) us \<and> concat us = joinStr sep ts \<and>
           (\<forall>g. collect (joinHoles sep hs) us g = collect hs ts g)"
  using assms
proof (induction hs arbitrary: ts rule: joinHoles.induct [of _ sep])
  case (2 sep h)
  then obtain t where "ts = [t]" "fits h t" by (auto simp: list_all2_Cons1)
  then show ?case by (intro exI [of _ "[t]"]) simp
next
  case (3 sep h k hs)
  then obtain t ts' where ts: "ts = t # ts'" "fits h t" and rest: "list_all2 fits (k # hs) ts'"
    by (auto simp: list_all2_Cons1)
  then obtain us where us: "list_all2 fits (joinHoles sep (k # hs)) us" "concat us = joinStr sep ts'"
    "\<forall>g. collect (joinHoles sep (k # hs)) us g = collect (k # hs) ts' g"
    using 3 by blast
  have "ts' \<noteq> []" using rest by auto
  then have "concat (t # sep # us) = joinStr sep ts" using ts us(2) by (simp add: joinStr_Cons)
  moreover have "collect (joinHoles sep (h # k # hs)) (t # sep # us) g = collect (h # k # hs) ts g" for g
    using us(3) ts by (cases h) simp_all
  ultimately show ?case using us(1) ts by (intro exI [of _ "t # sep # us"]) simp
qed auto

lemma joinHoles_sequences: "length (filter isSequenceHole (joinHoles sep hs)) = length (filter isSequenceHole hs)"
  by (induction sep hs rule: joinHoles.induct) simp_all

text \<open>
  The dates a rule can render and read back: a four-digit year needs four digits, a two-digit year is one
  of this century, and a rule uses one of the two forms.
\<close>

definition readableDate :: "number_segment list \<Rightarrow> bool \<Rightarrow> calendar_month \<Rightarrow> bool" where
  "readableDate gs two at \<longleftrightarrow>
     1 \<le> cMonth at \<and> cMonth at \<le> 12 \<and>
     (\<forall>d. YEAR d \<in> set gs \<longrightarrow>
        (if two then d = Some 2 \<and> 2000 \<le> cYear at \<and> cYear at \<le> 2099
         else d \<in> {None, Some 4} \<and> 1000 \<le> cYear at \<and> cYear at \<le> 9999))"

definition yearReading :: "bool \<Rightarrow> calendar_month \<Rightarrow> nat" where
  "yearReading two at = (if two then cYear at mod 100 else cYear at)"

fun segmentHole :: "number_segment \<Rightarrow> hole option" where
  "segmentHole (YEAR digits) = Some (YearHole (case digits of None \<Rightarrow> 4 | Some d \<Rightarrow> d))"
| "segmentHole MONTH = Some MonthHole"
| "segmentHole (SEQUENCE p) = Some (SequenceHole (paddingOf (SEQUENCE p)))"
| "segmentHole _ = None"

lemma dated_simps [simp]:
  "companyCode (dated codes at) = companyCode codes" "entityCode (dated codes at) = entityCode codes"
  "branchCode (dated codes at) = branchCode codes" "departmentCode (dated codes at) = departmentCode codes"
  "documentTypeCode (dated codes at) = documentTypeCode codes"
  "categoryCode (dated codes at) = categoryCode codes" "assignedAt (dated codes at) = at"
  by (simp_all add: dated_def)

lemma renderSegment_plain:
  "segmentHole g = None \<Longrightarrow> renderSegment g (dated codes a) m = renderSegment g (dated codes b) n"
  by (cases g) simp_all

lemma holesOf_plain:
  "segmentHole g = None \<Longrightarrow> holesOf (g # gs) cx =
     (case renderSegment g cx 0 of
        None \<Rightarrow> holesOf gs cx
      | Some t \<Rightarrow> if t = [] then Inl REQUIRED_CODE_MISSING
                  else (case holesOf gs cx of Inl e \<Rightarrow> Inl e | Inr hs \<Rightarrow> Inr (Exact t # hs)))"
  by (cases g) (simp_all add: Let_def)

lemma holesOf_hole:
  "segmentHole g = Some h \<Longrightarrow> holesOf (g # gs) cx = (case holesOf gs cx of Inl e \<Rightarrow> Inl e | Inr hs \<Rightarrow> Inr (h # hs))"
  by (cases g) (auto simp: Let_def)

declare holesOf.simps(2) [simp del]

lemma hole_fits:
  assumes "segmentHole g = Some h" and "readableDate [g] two at"
  shows "\<exists>t. renderSegment g (dated codes at) n = Some t \<and> fits h t"
  using assms
  by (cases g) (auto simp: readableDate_def twoDigits_facts isMonthText_twoDigits padded_digits
      showNat_length_4 list_all_showNat split: option.splits if_splits)

definition holesFor :: "number_segment list \<Rightarrow> numbering_codes \<Rightarrow> calendar_month \<Rightarrow> nat \<Rightarrow> hole list \<Rightarrow> bool" where
  "holesFor gs codes at n hs \<longleftrightarrow>
     holesOf gs (dated codes EPOCH_MONTH) = Inr hs \<and>
     list_all2 fits hs (renderedParts gs (dated codes at) n) \<and>
     map holeName (filter isNamed hs) = map holeName (List.map_filter segmentHole gs) \<and>
     length (filter isSequenceHole hs) = length (filter isSequence gs)"

lemma holesFor_exists:
  assumes "readableDate gs two at" and "\<forall>g \<in> set gs. renderSegment g (dated codes at) n \<noteq> Some ''''"
  shows "\<exists>hs. holesFor gs codes at n hs"
  using assms
proof (induction gs)
  case Nil
  then show ?case by (auto simp: holesFor_def map_filter_simps)
next
  case (Cons g gs)
  then obtain hs where hs: "holesFor gs codes at n hs" by (auto simp: readableDate_def)
  show ?case
  proof (cases "segmentHole g")
    case (Some h)
    moreover obtain t where "renderSegment g (dated codes at) n = Some t" "fits h t"
      using hole_fits [OF Some, of two at codes n] Cons.prems by (auto simp: readableDate_def)
    moreover have "isNamed h" "isSequenceHole h \<longleftrightarrow> isSequence g" using Some by (cases g; auto)+
    ultimately show ?thesis
      using hs by (intro exI [of _ "h # hs"]) (simp add: holesFor_def holesOf_hole map_filter_simps)
  next
    case None
    note same = renderSegment_plain [OF None, of codes EPOCH_MONTH 0 at n]
    have "\<not> isSequence g" using None by (cases g) auto
    then show ?thesis
      using hs None Cons.prems(2) same holesOf_plain [OF None, of gs "dated codes EPOCH_MONTH"]
      by (cases "renderSegment g (dated codes at) n")
        (auto simp: holesFor_def map_filter_simps intro: exI [of _ hs] exI [of _ "Exact _ # hs"])
  qed
qed

lemma holesFor_hole:
  assumes "holesFor (s # gs) codes at n hs" and "segmentHole s = Some h" and "readableDate (s # gs) two at"
  obtains hs' t where "hs = h # hs'" and "renderSegment s (dated codes at) n = Some t" and "holesFor gs codes at n hs'"
proof -
  obtain t where "renderSegment s (dated codes at) n = Some t" "fits h t"
    using hole_fits [OF assms(2), of two at codes n] assms(3) by (auto simp: readableDate_def)
  moreover have "isNamed h" "isSequenceHole h \<longleftrightarrow> isSequence s" using assms(2) by (cases s; auto)+
  ultimately show ?thesis
    using assms(1,2) that by (auto simp: holesFor_def holesOf_hole map_filter_simps split: sum.splits if_splits)
qed

lemma holesFor_plain:
  assumes "holesFor (s # gs) codes at n hs" and "segmentHole s = None"
  obtains "renderSegment s (dated codes at) n = None" and "holesFor gs codes at n hs"
  | hs' t where "hs = Exact t # hs'" and "renderSegment s (dated codes at) n = Some t" and "holesFor gs codes at n hs'"
proof -
  have "\<not> isSequence s" using assms(2) by (cases s) auto
  then show ?thesis
    using assms(1) that renderSegment_plain [OF assms(2), of codes EPOCH_MONTH 0 at n]
      holesOf_plain [OF assms(2), of gs "dated codes EPOCH_MONTH"] assms(2)
    by (cases "renderSegment s (dated codes at) n")
      (auto simp: holesFor_def map_filter_simps split: sum.splits if_splits)
qed

text \<open>What the groups read, segment by segment.\<close>

definition readings :: "number_segment list \<Rightarrow> bool \<Rightarrow> calendar_month \<Rightarrow> nat \<Rightarrow> hole_groups \<Rightarrow> hole_groups \<Rightarrow> bool" where
  "readings gs two at n g g' \<longleftrightarrow>
     map_option readNat (gSequence g') = (if \<exists>p. SEQUENCE p \<in> set gs then Some n else map_option readNat (gSequence g)) \<and>
     map_option readNat (gMonth g') = (if MONTH \<in> set gs then Some (cMonth at) else map_option readNat (gMonth g)) \<and>
     map_option readNat (gYear g') = (if \<exists>d. YEAR d \<in> set gs then Some (yearReading two at) else map_option readNat (gYear g))"

lemma readings_plain: "segmentHole s = None \<Longrightarrow> readings (s # gs) two at n g g' = readings gs two at n g g'"
  by (cases s) (auto simp: readings_def)

lemma year_reading:
  assumes "readableDate (YEAR d # gs) two at"
  shows "\<exists>t. renderSegment (YEAR d) (dated codes at) n = Some t \<and> readNat t = yearReading two at"
proof (cases two)
  case True
  then have "d = Some 2" using assms by (simp add: readableDate_def)
  then show ?thesis using True by (simp add: yearReading_def twoDigits_facts)
next
  case False
  then have "d = None \<or> d = Some 4" using assms by (auto simp: readableDate_def)
  then show ?thesis using False by (auto simp: yearReading_def)
qed

lemma readings_hole:
  "readings gs two at n (g\<lparr>gYear := Some u\<rparr>) g' \<Longrightarrow> readNat u = yearReading two at \<Longrightarrow>
   readings (YEAR d # gs) two at n g g'"
  "readings gs two at n (g\<lparr>gMonth := Some u\<rparr>) g' \<Longrightarrow> readNat u = cMonth at \<Longrightarrow>
   readings (MONTH # gs) two at n g g'"
  "readings gs two at n (g\<lparr>gSequence := Some u\<rparr>) g' \<Longrightarrow> readNat u = n \<Longrightarrow>
   readings (SEQUENCE p # gs) two at n g g'"
  by (auto simp: readings_def split: if_splits)

lemma collect_readings:
  assumes "holesFor gs codes at n hs" and "readableDate gs two at"
  shows "readings gs two at n g (collect hs (renderedParts gs (dated codes at) n) g)"
  using assms
proof (induction gs arbitrary: hs g)
  case Nil
  then show ?case by (auto simp: holesFor_def readings_def)
next
  case (Cons s gs)
  have date: "readableDate gs two at" using Cons.prems(2) by (auto simp: readableDate_def)
  show ?case
  proof (cases "segmentHole s")
    case None
    show ?thesis
    proof (rule holesFor_plain [OF Cons.prems(1) None])
      assume "renderSegment s (dated codes at) n = None" "holesFor gs codes at n hs"
      then show ?thesis using Cons.IH [OF _ date, of hs g] by (simp add: readings_plain [OF None])
    next
      fix hs' t
      assume "hs = Exact t # hs'" "renderSegment s (dated codes at) n = Some t" "holesFor gs codes at n hs'"
      then show ?thesis using Cons.IH [OF _ date, of hs' g] by (simp add: readings_plain [OF None])
    qed
  next
    case (Some h)
    obtain hs' t where hs: "hs = h # hs'" and rest: "holesFor gs codes at n hs'"
      by (rule holesFor_hole [OF Cons.prems(1) Some Cons.prems(2)])
    show ?thesis
    proof (cases s)
      case (YEAR d)
      then obtain u where "renderSegment s (dated codes at) n = Some u" "readNat u = yearReading two at"
        using year_reading Cons.prems(2) by blast
      moreover obtain k where "h = YearHole k" using Some YEAR by auto
      ultimately show ?thesis
        unfolding YEAR hs using Cons.IH [OF rest date, of "g\<lparr>gYear := Some u\<rparr>"] readings_hole(1)
        by (metis collect.simps(1) option.case(2) renderedParts.simps(2))
    next
      case MONTH
      then show ?thesis
        using Some hs Cons.IH [OF rest date, of "g\<lparr>gMonth := Some (twoDigits (cMonth at))\<rparr>"] Cons.prems(2)
        by (auto intro!: readings_hole(2) simp: readableDate_def twoDigits_facts)
    next
      case (SEQUENCE p)
      then show ?thesis
        using Some hs readings_hole(3) [OF Cons.IH [OF rest date],
            of "padStart (paddingOf (SEQUENCE p)) (CHR ''0'') (showNat n)"] by auto
    qed (use Some in auto)
  qed
qed

subsection \<open>The round trip\<close>

lemma lastYearDigits_fold:
  assumes "\<forall>d. YEAR d \<in> set gs \<longrightarrow> (d = Some 2 \<longleftrightarrow> two)" and "acc \<noteq> None \<longrightarrow> (acc = Some 2 \<longleftrightarrow> two)"
    and "acc \<noteq> None \<or> (\<exists>d. YEAR d \<in> set gs)"
  shows "fold (\<lambda>g acc. case g of YEAR digits \<Rightarrow> Some (case digits of None \<Rightarrow> 4 | Some d \<Rightarrow> d) | _ \<Rightarrow> acc) gs acc
           = Some (2::nat) \<longleftrightarrow> two"
  using assms
proof (induction gs arbitrary: acc)
  case (Cons g gs)
  show ?case
  proof (cases g)
    case (YEAR d)
    then have "(d = Some 2) = two" using Cons.prems(1) by simp
    then have "(Some (case d of None \<Rightarrow> 4 | Some d \<Rightarrow> d) = Some (2::nat)) = two" by (cases d) auto
    then show ?thesis using Cons.IH [of "Some (case d of None \<Rightarrow> 4 | Some d \<Rightarrow> d)"] Cons.prems(1) YEAR by simp
  qed (use Cons in simp_all)
qed simp

lemma lastYearDigits_two:
  assumes "readableDate gs two at" and "YEAR d \<in> set gs"
  shows "lastYearDigits gs = Some 2 \<longleftrightarrow> two"
  unfolding lastYearDigits_def
  by (rule lastYearDigits_fold) (use assms in \<open>auto simp: readableDate_def split: if_splits\<close>)

definition encodedDateOf :: "number_segment list \<Rightarrow> calendar_month \<Rightarrow> calendar_month option" where
  "encodedDateOf gs at =
     (if (\<exists>d. YEAR d \<in> set gs) \<or> MONTH \<in> set gs
      then Some \<lparr>cYear = (if \<exists>d. YEAR d \<in> set gs then cYear at else 1970),
                 cMonth = (if MONTH \<in> set gs then cMonth at else 1)\<rparr>
      else None)"

lemma this_century: "2000 \<le> y \<Longrightarrow> y \<le> 2099 \<Longrightarrow> y mod 100 = y - (2000::nat)"
proof -
  assume y: "2000 \<le> y" "y \<le> 2099"
  define k where "k = y - 2000"
  have "y mod 100 = (k + 20 * 100) mod 100" using y by (simp add: k_def)
  also have "\<dots> = k mod 100" by (rule mod_mult_self1)
  also have "\<dots> = k" using y by (simp add: k_def)
  finally show ?thesis by (simp add: k_def)
qed

lemma yearReading_back:
  assumes "readableDate gs two at" and "YEAR d \<in> set gs"
  shows "utcYear (yearReading two at + (if two then 2000 else 0)) = cYear at"
proof -
  have "if two then 2000 \<le> cYear at \<and> cYear at \<le> 2099 else 1000 \<le> cYear at"
    using assms by (auto simp: readableDate_def split: if_splits)
  then show ?thesis by (cases two) (simp_all add: yearReading_def utcYear_def this_century)
qed

lemma readMatch_readings:
  assumes read: "readings gs two at n \<lparr>gYear = None, gMonth = None, gSequence = None\<rparr> g"
    and date: "readableDate gs two at" and seq: "SEQUENCE p \<in> set gs" and pos: "1 \<le> n"
  shows "readMatch (lastYearDigits gs) g = Inr \<lparr>mSequenceValue = n, mEncodedDate = encodedDateOf gs at\<rparr>"
proof -
  obtain t where t: "gSequence g = Some t" "readNat t = n"
    using read seq by (auto simp: readings_def split: if_splits)
  have month: "map_option readNat (gMonth g) = (if MONTH \<in> set gs then Some (cMonth at) else None)"
    using read by (simp add: readings_def)
  have year: "map_option readNat (gYear g) = (if \<exists>d. YEAR d \<in> set gs then Some (yearReading two at) else None)"
    using read by (simp add: readings_def)
  have reading: "utcYear (yearReading two at + (if lastYearDigits gs = Some 2 then 2000 else 0)) = cYear at"
    if "YEAR d \<in> set gs" for d
    using that yearReading_back [OF date] lastYearDigits_two [OF date] by auto
  have epoch: "utcYear 1970 = 1970" by (simp add: utcYear_def)
  show ?thesis
    using t pos month year reading epoch
    by (cases "gMonth g"; cases "gYear g")
      (auto simp: readMatch_def orEmpty_def encodedDateOf_def split: if_splits)
qed

lemma encoded_series:
  assumes ok: "checkRule rule = []"
  shows "scopeKeyFor rule (dated codes (case encodedDateOf (nrSegments rule) at of None \<Rightarrow> other | Some d \<Rightarrow> d))
           = scopeKeyFor rule (dated codes at)" (is "scopeKeyFor rule (dated codes ?d) = _")
proof -
  have year: "\<exists>d. YEAR d \<in> set (nrSegments rule)" if "YEARLY \<in> set (nrResetScope rule) \<or> MONTHLY \<in> set (nrResetScope rule)"
    using that accepted_has_segment [OF ok, of YEARLY KYEAR] accepted_has_segment [OF ok, of MONTHLY KYEAR] by auto
  have month: "MONTH \<in> set (nrSegments rule)" if "MONTHLY \<in> set (nrResetScope rule)"
    using that accepted_has_segment [OF ok, of MONTHLY KMONTH] by auto
  have "scopeComponent (dated codes ?d) entry = scopeComponent (dated codes at) entry"
    if "entry \<in> set (nrResetScope rule)" for entry
    by (cases entry) (use that year month in \<open>auto simp: encodedDateOf_def\<close>)
  then show ?thesis unfolding scopeKeyFor_def by (intro arg_cong [where f = "joinStr _"] map_cong) auto
qed

lemma distinct_holes:
  assumes "length (filter (\<lambda>g. kindOf g = KYEAR) gs) \<le> 1" and "length (filter (\<lambda>g. kindOf g = KMONTH) gs) \<le> 1"
    and "length (filter isSequence gs) \<le> 1"
  shows "distinct (map holeName (List.map_filter segmentHole gs))"
  using assms
proof (induction gs)
  case (Cons g gs)
  have absent:
    "''year'' \<in> holeName ` set (List.map_filter segmentHole gs) \<Longrightarrow> filter (\<lambda>g. kindOf g = KYEAR) gs \<noteq> []"
    "''month'' \<in> holeName ` set (List.map_filter segmentHole gs) \<Longrightarrow> filter (\<lambda>g. kindOf g = KMONTH) gs \<noteq> []"
    "''sequence'' \<in> holeName ` set (List.map_filter segmentHole gs) \<Longrightarrow> filter (\<lambda>a. \<exists>p. a = SEQUENCE p) gs \<noteq> []"
    by (induction gs) (auto simp: map_filter_simps split: option.splits if_splits elim!: segmentHole.elims)
  show ?case
    using Cons absent by (cases g) (auto simp: map_filter_simps split: if_splits)
qed (simp add: map_filter_simps)


definition sampleRule :: numbering_rule where
  "sampleRule =
     \<lparr>nrSeparator = ''-'', nrSegments = [LITERAL ''QMS'', ENTITY_CODE False, DEPARTMENT_CODE True, YEAR None, SEQUENCE None],
      nrResetScope = [YEARLY, PER_ENTITY], nrReserveOnSubmit = True, nrStrictGapless = False\<rparr>"

definition sampleCodes :: numbering_codes where
  "sampleCodes =
     \<lparr>companyCode = None, entityCode = Some ''JO'', branchCode = None, departmentCode = None,
      documentTypeCode = None, categoryCode = None\<rparr>"

lemma sampleRule_accepted: "checkRule sampleRule = []"
  by (simp add: checkRule_def sampleRule_def checkResetScope_def MINIMUM_PADDING_def MAXIMUM_PADDING_def Let_def)


subsection \<open>Numbers identify their series\<close>

text \<open>Joining parts that agree on their literals and are otherwise free of the separator loses nothing.\<close>

lemma join_aligned:
  assumes "list_all2 (\<lambda>a b. a = b \<or> (c \<notin> set a \<and> c \<notin> set b)) xs ys" and "joinStr [c] xs = joinStr [c] ys"
  shows "xs = ys"
  using assms
proof (induction rule: list_all2_induct)
  case (Cons x xs y ys)
  show ?case
  proof (cases "xs = []")
    case True
    then show ?thesis using Cons by (auto simp: joinStr_Cons)
  next
    case False
    then have ne: "ys \<noteq> []" using Cons.hyps(2) by auto
    then have eq: "x @ c # joinStr [c] xs = y @ c # joinStr [c] ys"
      using Cons.prems False by (simp add: joinStr_Cons)
    have "x = y" using Cons.hyps(1) sep_split_unique [of c x y, OF _ _ eq] by blast
    then show ?thesis using eq Cons.IH by simp
  qed
qed simp

lemma count_join: "count_list (joinStr [c] xs) c = sum_list (map (\<lambda>x. count_list x c) xs) + (length xs - 1)"
  by (induction xs) (auto simp: joinStr_Cons)

text \<open>The codes of a context that contain no separator; numerals never do.\<close>

definition codesFree :: "char \<Rightarrow> numbering_context \<Rightarrow> bool" where
  "codesFree c cx \<longleftrightarrow>
     (\<forall>code \<in> {companyCode cx, entityCode cx, branchCode cx, departmentCode cx, documentTypeCode cx, categoryCode cx}.
        c \<notin> set (orEmpty code))"

lemma codeOr_Some: "codeOr g code = Some t \<Longrightarrow> t = orEmpty code"
  by (auto simp: codeOr_def orEmpty_def split: if_splits option.splits)

lemma rendered_free:
  assumes "codesFree c cx" and "\<not> isDigit c" and "renderSegment g cx n = Some t" and "kindOf g \<noteq> KLITERAL"
  shows "c \<notin> set t"
  using assms showNat_digits padStart_digits
  by (cases g) (auto simp: codesFree_def twoDigits_def dest!: codeOr_Some split: if_splits)

definition shape :: "number_segment list \<Rightarrow> numbering_context \<Rightarrow> number_segment list" where
  "shape gs cx = filter (\<lambda>g. renderSegment g cx 0 \<noteq> None) gs"

lemma renderSegment_None_any: "renderSegment g cx n = None \<longleftrightarrow> renderSegment g cx 0 = None"
  by (cases g) simp_all

lemma renderedParts_shape: "renderedParts gs cx n = map (\<lambda>g. the (renderSegment g cx n)) (shape gs cx)"
proof (induction gs)
  case (Cons g gs)
  then show ?case
    using renderSegment_None_any [of g cx n]
    by (cases "renderSegment g cx n"; cases "renderSegment g cx 0") (simp_all add: shape_def)
qed (simp add: shape_def)

lemma shape_rendered: "g \<in> set (shape gs cx) \<Longrightarrow> \<exists>t. renderSegment g cx n = Some t"
  using renderSegment_None_any [of g cx n] by (cases "renderSegment g cx n") (auto simp: shape_def)

lemma shape_required: "filter isOptional gs = [] \<Longrightarrow> shape gs cx = gs"
  unfolding shape_def filter_id_conv filter_empty_conv by (meson renderSegment_None)

lemma same_shape:
  assumes opt: "length (filter isOptional gs) \<le> 1" and len: "length (shape gs cx) = length (shape gs cx')"
  shows "shape gs cx = shape gs cx'"
  using opt len
proof (induction gs)
  case (Cons g gs)
  show ?case
  proof (cases "isOptional g")
    case True
    then have "shape gs c = gs" for c using Cons.prems shape_required by simp
    then show ?thesis using Cons.prems by (auto simp: shape_def split: if_splits)
  next
    case False
    then have "renderSegment g c 0 \<noteq> None" for c using renderSegment_None by blast
    then show ?thesis using Cons False by (simp add: shape_def)
  qed
qed (simp add: shape_def)

lemma aligned_parts:
  assumes free: "codesFree c cx" "codesFree c cx'" and digit: "\<not> isDigit c" and eq: "shape gs cx = shape gs cx'"
  shows "list_all2 (\<lambda>a b. a = b \<or> (c \<notin> set a \<and> c \<notin> set b)) (renderedParts gs cx n) (renderedParts gs cx' n')"
proof -
  have "the (renderSegment g cx n) = the (renderSegment g cx' n') \<or>
      c \<notin> set (the (renderSegment g cx n)) \<and> c \<notin> set (the (renderSegment g cx' n'))"
    if g: "g \<in> set (shape gs cx)" for g
  proof (cases "kindOf g = KLITERAL")
    case False
    obtain t where t: "renderSegment g cx n = Some t" using shape_rendered [OF g] by blast
    obtain u where u: "renderSegment g cx' n' = Some u" using shape_rendered [of g gs cx'] g eq by auto
    show ?thesis
      using rendered_free [OF free(1) digit t False] rendered_free [OF free(2) digit u False] t u by simp
  qed auto
  then show ?thesis
    using eq by (simp add: renderedParts_shape list_all2_map1 list_all2_map2 list.rel_refl_strong)
qed

lemma count_parts:
  assumes "codesFree c cx" and "\<not> isDigit c"
  shows "sum_list (map (\<lambda>x. count_list x c) (renderedParts gs cx n)) =
         sum_list (map (\<lambda>g. case g of LITERAL v \<Rightarrow> count_list v c | _ \<Rightarrow> 0) gs)"
proof (induction gs)
  case (Cons g gs)
  show ?case
  proof (cases "kindOf g = KLITERAL")
    case False
    then have "count_list t c = 0" if "renderSegment g cx n = Some t" for t
      using rendered_free [OF assms that] by (simp add: count_list_0_iff)
    then show ?thesis using Cons False by (cases g) (simp_all split: option.splits)
  qed (use Cons in auto)
qed simp

lemma renderedParts_inject:
  assumes ok: "checkRule rule = []" and sep: "nrSeparator rule = [c]" and digit: "\<not> isDigit c"
    and free: "codesFree c cx" "codesFree c cx'"
    and same: "fst (formatNumber rule cx n) = fst (formatNumber rule cx' n')"
  shows "renderedParts (nrSegments rule) cx n = renderedParts (nrSegments rule) cx' n'"
    and "shape (nrSegments rule) cx = shape (nrSegments rule) cx'"
proof -
  let ?gs = "nrSegments rule"
  have eq: "joinStr [c] (renderedParts ?gs cx n) = joinStr [c] (renderedParts ?gs cx' n')"
    using same sep by (simp add: formatNumber_def)
  have "\<exists>g \<in> set ?gs. isSequence g"
    using checkRule_accepted(1) [OF ok] by (metis filter_empty_conv length_0_conv zero_neq_one)
  then have ne: "shape ?gs c' \<noteq> []" for c' by (auto simp: shape_def filter_empty_conv intro!: bexI)
  have "length (renderedParts ?gs cx n) - 1 = length (renderedParts ?gs cx' n') - 1"
    using arg_cong [OF eq, of "\<lambda>s. count_list s c"] count_parts [OF free(1) digit] count_parts [OF free(2) digit]
    by (simp add: count_join)
  then have "length (shape ?gs cx) = length (shape ?gs cx')"
    using ne [of cx] ne [of cx'] by (simp add: renderedParts_shape Suc_diff_1 flip: length_greater_0_conv)
  then show shape: "shape ?gs cx = shape ?gs cx'" by (rule same_shape [OF checkRule_accepted(2) [OF ok]])
  show "renderedParts ?gs cx n = renderedParts ?gs cx' n'"
    by (rule join_aligned [OF aligned_parts [OF free digit shape] eq])
qed

lemma rendered_alike:
  assumes parts: "renderedParts gs cx n = renderedParts gs cx' n'" and eq: "shape gs cx = shape gs cx'"
    and g: "g \<in> set gs"
  shows "renderSegment g cx n = renderSegment g cx' n'"
proof (cases "g \<in> set (shape gs cx)")
  case True
  then have "the (renderSegment g cx n) = the (renderSegment g cx' n')"
    using parts eq by (simp add: renderedParts_shape)
  then show ?thesis using shape_rendered [of g gs cx n] shape_rendered [of g gs cx' n'] True eq by auto
next
  case False
  moreover have "g \<notin> set (shape gs cx')" using False eq by simp
  ultimately have "renderSegment g cx 0 = None" "renderSegment g cx' 0 = None" using g by (simp_all add: shape_def)
  then show ?thesis using renderSegment_None_any [of g cx n] renderSegment_None_any [of g cx' n'] by simp
qed

lemma codeOr_alike: "codeOr g a = codeOr g b \<Longrightarrow> orEmpty a = orEmpty b"
  by (auto simp: codeOr_def orEmpty_def split: if_splits option.splits)

lemma component_alike:
  assumes ok: "checkRule rule = []" and entry: "entry \<in> set (nrResetScope rule)"
    and dept: "entry = PER_DEPARTMENT \<Longrightarrow> \<exists>b. DEPARTMENT_CODE b \<in> set (nrSegments rule)"
    and four: "YEAR (Some 2) \<notin> set (nrSegments rule)"
    and alike: "\<And>g. g \<in> set (nrSegments rule) \<Longrightarrow> renderSegment g cx n = renderSegment g cx' n'"
  shows "scopeComponent cx entry = scopeComponent cx' entry"
proof -
  have has: "\<exists>g \<in> set (nrSegments rule). kindOf g = kind" if "kind \<in> set (SCOPE_REQUIRES_SEGMENT entry)" for kind
    using accepted_has_segment [OF ok entry that] .
  have year: "cYear (assignedAt cx) = cYear (assignedAt cx')" if "YEAR d \<in> set (nrSegments rule)" for d
  proof -
    have "d \<noteq> Some 2" using that four by blast
    then have "(case d of None \<Rightarrow> 4 | Some d \<Rightarrow> d) \<noteq> (2::nat)" by (cases d) auto
    then show ?thesis using alike [OF that] by simp
  qed
  have month: "cMonth (assignedAt cx) = cMonth (assignedAt cx')" if "MONTH \<in> set (nrSegments rule)"
    using alike [OF that] by simp
  show ?thesis
  proof (cases entry)
    case PER_DEPARTMENT
    then obtain b where "DEPARTMENT_CODE b \<in> set (nrSegments rule)" using dept by blast
    then show ?thesis using alike [of "DEPARTMENT_CODE b"] PER_DEPARTMENT by (metis codeOr_alike renderSegment.simps(2-7) scopeComponent.simps(4-9))
  next
    case YEARLY
    then show ?thesis using has [of KYEAR] year by auto
  next
    case MONTHLY
    then show ?thesis using has [of KYEAR] has [of KMONTH] year month by auto
  next
    case PER_COMPANY
    then obtain b where "COMPANY_CODE b \<in> set (nrSegments rule)" using has [of KCOMPANY_CODE] by auto
    then show ?thesis using alike [of "COMPANY_CODE b"] PER_COMPANY by (metis codeOr_alike renderSegment.simps(2-7) scopeComponent.simps(4-9))
  next
    case PER_ENTITY
    then obtain b where "ENTITY_CODE b \<in> set (nrSegments rule)" using has [of KENTITY_CODE] by auto
    then show ?thesis using alike [of "ENTITY_CODE b"] PER_ENTITY by (metis codeOr_alike renderSegment.simps(2-7) scopeComponent.simps(4-9))
  next
    case PER_BRANCH
    then obtain b where "BRANCH_CODE b \<in> set (nrSegments rule)" using has [of KBRANCH_CODE] by auto
    then show ?thesis using alike [of "BRANCH_CODE b"] PER_BRANCH by (metis codeOr_alike renderSegment.simps(2-7) scopeComponent.simps(4-9))
  next
    case PER_DOCUMENT_TYPE
    then obtain b where "DOCUMENT_TYPE_CODE b \<in> set (nrSegments rule)" using has [of KDOCUMENT_TYPE_CODE] by auto
    then show ?thesis using alike [of "DOCUMENT_TYPE_CODE b"] PER_DOCUMENT_TYPE by (metis codeOr_alike renderSegment.simps(2-7) scopeComponent.simps(4-9))
  next
    case PER_CATEGORY
    then obtain b where "CATEGORY_CODE b \<in> set (nrSegments rule)" using has [of KCATEGORY_CODE] by auto
    then show ?thesis using alike [of "CATEGORY_CODE b"] PER_CATEGORY by (metis codeOr_alike renderSegment.simps(2-7) scopeComponent.simps(4-9))
  qed simp
qed

text \<open>
  C25: Two numbers of one accepted rule have the same text only when they are the same value of the same series, so a
  counter that never repeats a value never repeats a number. This needs what the validator does not check:
  a separator character that no code contains and no numeral can, a department code in the text where the
  series restarts per department, and a year written with four digits.
\<close>

theorem numbers_identify_series:
  assumes "checkRule rule = []" and "nrSeparator rule = [c]" and "\<not> isDigit c"
    and "codesFree c cx" and "codesFree c cx'"
    and "PER_DEPARTMENT \<in> set (nrResetScope rule) \<longrightarrow> (\<exists>b. DEPARTMENT_CODE b \<in> set (nrSegments rule))"
    and "YEAR (Some 2) \<notin> set (nrSegments rule)"
    and "fst (formatNumber rule cx n) = fst (formatNumber rule cx' n')"
  shows "scopeKeyFor rule cx = scopeKeyFor rule cx' \<and> n = n'"
proof -
  note inj = renderedParts_inject [OF assms(1-5,8)]
  note alike = rendered_alike [OF inj]
  have "scopeComponent cx entry = scopeComponent cx' entry" if "entry \<in> set (nrResetScope rule)" for entry
    by (rule component_alike [OF assms(1) that _ assms(7) alike]) (use assms(6) that in auto)
  then have "scopeKeyFor rule cx = scopeKeyFor rule cx'"
    unfolding scopeKeyFor_def by (intro arg_cong [where f = "joinStr _"] map_cong) auto
  moreover obtain p where "SEQUENCE p \<in> set (nrSegments rule)"
    using checkRule_accepted(1) [OF assms(1)] by (metis filter_empty_conv length_0_conv zero_neq_one isSequence_simp)
  then have "n = n'" using alike [of "SEQUENCE p"] padStart_showNat_inject by simp
  ultimately show ?thesis ..
qed

theorem numbers_identify_series_witness:
  "scopeKeyFor sampleRule (dated sampleCodes \<lparr>cYear = 2026, cMonth = 8\<rparr>)
     = scopeKeyFor sampleRule (dated sampleCodes \<lparr>cYear = 2026, cMonth = 9\<rparr>) \<and> (7::nat) = 7"
proof (rule numbers_identify_series [OF sampleRule_accepted])
  show "nrSeparator sampleRule = [CHR ''-'']" by (simp add: sampleRule_def)
  show "\<not> isDigit (CHR ''-'')" by (simp add: isDigit_def)
  show "codesFree (CHR ''-'') (dated sampleCodes \<lparr>cYear = 2026, cMonth = 8\<rparr>)"
    "codesFree (CHR ''-'') (dated sampleCodes \<lparr>cYear = 2026, cMonth = 9\<rparr>)"
    by (simp_all add: codesFree_def sampleCodes_def orEmpty_def)
  show "fst (formatNumber sampleRule (dated sampleCodes \<lparr>cYear = 2026, cMonth = 8\<rparr>) 7)
      = fst (formatNumber sampleRule (dated sampleCodes \<lparr>cYear = 2026, cMonth = 9\<rparr>) 7)"
    by (simp add: formatNumber_def sampleRule_def sampleCodes_def codeOr_def)
qed (simp_all add: sampleRule_def)

subsection \<open>What the validator lets through\<close>

text \<open>
  The pairing of reset scopes with segments is not the only way a reset scope can break uniqueness: with
  an empty separator a code that ends in a digit runs into the counter. The rule below is accepted, and
  the first number of entity \<open>A1\<close> is the eleventh number of entity \<open>A\<close>.
\<close>

definition gluedRule :: numbering_rule where
  "gluedRule =
     \<lparr>nrSeparator = '''', nrSegments = [ENTITY_CODE False, SEQUENCE (Some 1)], nrResetScope = [PER_ENTITY],
      nrReserveOnSubmit = True, nrStrictGapless = False\<rparr>"

lemma glued_numbers_collide:
  defines "cx \<equiv> \<lambda>code. dated (sampleCodes\<lparr>entityCode := Some code\<rparr>) \<lparr>cYear = 2026, cMonth = 8\<rparr>"
  shows "checkRule gluedRule = []"
    and "fst (formatNumber gluedRule (cx ''A1'') 1) = fst (formatNumber gluedRule (cx ''A'') 11)"
    and "scopeKeyFor gluedRule (cx ''A1'') \<noteq> scopeKeyFor gluedRule (cx ''A'')"
proof -
  show "checkRule gluedRule = []"
    by (simp add: checkRule_def gluedRule_def checkResetScope_def MINIMUM_PADDING_def MAXIMUM_PADDING_def Let_def)
  have "digitChar 1 = CHR ''1''" by code_simp
  then have "showNat 11 = ''11''" "showNat 1 = ''1''" by (simp_all add: showNat.simps)
  then show "fst (formatNumber gluedRule (cx ''A1'') 1) = fst (formatNumber gluedRule (cx ''A'') 11)"
    by (simp add: formatNumber_def gluedRule_def cx_def codeOr_def padStart_def)
  show "scopeKeyFor gluedRule (cx ''A1'') \<noteq> scopeKeyFor gluedRule (cx ''A'')"
    by (simp add: scopeKeyFor_def gluedRule_def cx_def orEmpty_def)
qed

text \<open>
  A rule may name the year twice and still be saved; every number typed by hand for it is then met with the
  language's own exception rather than an answer, because the two holes share a name.
\<close>

definition twiceDatedRule :: numbering_rule where
  "twiceDatedRule =
     \<lparr>nrSeparator = ''-'', nrSegments = [YEAR None, SEQUENCE None, YEAR (Some 2)], nrResetScope = [YEARLY],
      nrReserveOnSubmit = True, nrStrictGapless = False\<rparr>"

lemma twice_dated_rule_throws:
  "checkRule twiceDatedRule = []"
  "matchManualNumber twiceDatedRule codes candidate = Inl RegExpSyntaxError"
  by (simp_all add: checkRule_def twiceDatedRule_def checkResetScope_def MINIMUM_PADDING_def
      MAXIMUM_PADDING_def Let_def matchManualNumber_def holesOf.simps(2))

end
