(* ===== verification/Number_Issue.thy ===== *)
theory Number_Issue
  imports Numbering Document_Store
begin

text \<open>
  Drawing document numbers: \<open>numbering-issue.service.ts\<close> and \<open>prisma-number-issue.repository.ts\<close> of
  \<open>src/apps/api/src/modules/administration\<close>, and the release of a purged document's numbers by
  \<open>retention-disposition.adapter.ts\<close> of \<open>src/apps/api/src/modules/document/infrastructure\<close>.

  The state adds two tables to the document state: the counters, one per series, and the reservations,
  one per value ever issued. A unique index or a check constraint the code leans on is a branch of the
  insertion it guards. The rules, the rule of a document type and the month a clock in the tenant's zone
  reads at an instant are answers of configuration.
\<close>

subsection \<open>Rows\<close>

datatype reservation_state = RESERVED_N | ASSIGNED_N | VOIDED_N | HELD_N | PURGED_N

datatype number_origin = AUTOMATIC | MANUAL | IMPORTED

record sequence_row =
  sqId :: ident
  sqRule :: ident
  sqScope :: string
  sqNext :: nat

record reservation_row =
  nsId :: ident
  nsRule :: ident
  nsScope :: string
  nsValue :: nat
  nsFormatted :: string
  nsState :: reservation_state
  nsOrigin :: number_origin
  nsDocument :: "ident option"
  nsInstance :: "ident option"
  nsReservedAt :: instant
  nsAssignedAt :: "instant option"
  nsVoidedAt :: "instant option"
  nsVoidReason :: "string option"
  nsNote :: "string option"

record num_state = doc_state +
  sequences :: "sequence_row list"
  reservations :: "reservation_row list"

type_synonym ('z, 'a) ntx = "('z num_state_scheme, 'a) tx"

record issuable_rule = numbering_rule +
  irId :: ident
  irKey :: string

record number_config =
  ruleShape :: "ident \<Rightarrow> issuable_rule option"
  ruleIdForDocumentType :: "ident \<Rightarrow> ident option"
  wallMonth :: "instant \<Rightarrow> calendar_month"

definition shapeOf :: "issuable_rule \<Rightarrow> numbering_rule" where
  "shapeOf rule = numbering_rule.truncate rule"

fun stateName :: "reservation_state \<Rightarrow> string" where
  "stateName RESERVED_N = ''RESERVED''"
| "stateName ASSIGNED_N = ''ASSIGNED''"
| "stateName VOIDED_N = ''VOIDED''"
| "stateName HELD_N = ''HELD''"
| "stateName PURGED_N = ''PURGED''"

fun originName :: "number_origin \<Rightarrow> string" where
  "originName AUTOMATIC = ''AUTOMATIC''"
| "originName MANUAL = ''MANUAL''"
| "originName IMPORTED = ''IMPORTED''"

subsection \<open>The repository\<close>

definition inSeries :: "ident \<Rightarrow> string \<Rightarrow> sequence_row \<Rightarrow> bool" where
  "inSeries rule scope q \<longleftrightarrow> sqRule q = rule \<and> sqScope q = scope"

text \<open>
  One statement each: the insert arm seeds the counter, the conflict arm moves it. Both meet at the unique
  index on the rule and the scope key.
\<close>

definition upsertSequence :: "ident \<Rightarrow> string \<Rightarrow> ident \<Rightarrow> nat \<Rightarrow> (nat \<Rightarrow> nat) \<Rightarrow> ('z, nat) ntx" where
  "upsertSequence rule scope freshId initial bump =
     bindT (getsT sequences) (\<lambda>rows.
       case List.find (inSeries rule scope) rows of
         None \<Rightarrow>
           thenT (requireT (freshId \<notin> sqId ` set rows) (ConstraintViolation ''number_sequence_pkey''))
           (thenT (modifyT (\<lambda>s. s\<lparr>sequences := sequences s @
              [\<lparr>sqId = freshId, sqRule = rule, sqScope = scope, sqNext = initial\<rparr>]\<rparr>))
           (returnT initial))
       | Some q \<Rightarrow>
           thenT (modifyT (\<lambda>s. s\<lparr>sequences := updateWhere (inSeries rule scope)
              (\<lambda>r. r\<lparr>sqNext := bump (sqNext r)\<rparr>) (sequences s)\<rparr>))
           (returnT (bump (sqNext q))))"

definition claimNext :: "ident \<Rightarrow> string \<Rightarrow> ident \<Rightarrow> ('z, nat) ntx" where
  "claimNext rule scope freshId =
     bindT (upsertSequence rule scope freshId 2 (\<lambda>n. n + 1)) (\<lambda>moved. returnT (moved - 1))"

definition fastForward :: "ident \<Rightarrow> string \<Rightarrow> nat \<Rightarrow> ident \<Rightarrow> ('z, unit) ntx" where
  "fastForward rule scope past freshId =
     bindT (upsertSequence rule scope freshId (past + 1) (\<lambda>n. max n (past + 1))) (\<lambda>_. returnT ())"

definition reservationStateOk :: "reservation_row \<Rightarrow> bool" where
  "reservationStateOk r \<longleftrightarrow>
     (nsState r \<in> {ASSIGNED_N, PURGED_N} \<longleftrightarrow> nsAssignedAt r \<noteq> None) \<and>
     (nsState r = ASSIGNED_N \<longrightarrow> nsDocument r \<noteq> None) \<and>
     (nsState r = PURGED_N \<longrightarrow> nsDocument r = None \<and> nsInstance r = None) \<and>
     (nsState r = VOIDED_N \<longleftrightarrow> nsVoidedAt r \<noteq> None) \<and>
     (nsState r = HELD_N \<longrightarrow> nsInstance r = None)"

definition clashesLive :: "(reservation_row \<Rightarrow> ident option) \<Rightarrow> reservation_row \<Rightarrow> reservation_row list \<Rightarrow> bool" where
  "clashesLive key r rows \<longleftrightarrow>
     nsState r = RESERVED_N \<and> key r \<noteq> None \<and> (\<exists>q \<in> set rows. nsState q = RESERVED_N \<and> key q = key r)"

definition insertReservation :: "reservation_row \<Rightarrow> ('z, unit) ntx" where
  "insertReservation r =
     bindT (getsT reservations) (\<lambda>rows.
     thenT (requireT (nsId r \<notin> nsId ` set rows) (ConstraintViolation ''number_reservation_pkey''))
     (thenT (requireT (nsFormatted r \<notin> nsFormatted ` set rows)
        (ConstraintViolation ''uq_number_reservation_formatted''))
     (thenT (requireT (\<not> clashesLive nsInstance r rows) (ConstraintViolation ''uq_number_reservation_live_instance''))
     (thenT (requireT (\<not> clashesLive nsDocument r rows) (ConstraintViolation ''uq_number_reservation_live_document''))
     (thenT (requireT (nsValue r \<ge> 1) (ConstraintViolation ''ck_number_reservation_value''))
     (thenT (requireT (reservationStateOk r) (ConstraintViolation ''ck_number_reservation_state''))
     (modifyT (\<lambda>s. s\<lparr>reservations := reservations s @ [r]\<rparr>))))))))"

definition reservationById :: "ident \<Rightarrow> 'z num_state_scheme \<Rightarrow> reservation_row option" where
  "reservationById i s = List.find (\<lambda>r. nsId r = i) (reservations s)"

definition liveReservationFor :: "ident \<Rightarrow> 'z num_state_scheme \<Rightarrow> reservation_row option" where
  "liveReservationFor w s =
     List.find (\<lambda>r. nsInstance r = Some w \<and> nsState r = RESERVED_N) (reservations s)"

definition pendingFormattedForDocument :: "ident \<Rightarrow> 'z num_state_scheme \<Rightarrow> string option" where
  "pendingFormattedForDocument d s =
     map_option nsFormatted
       (List.find (\<lambda>r. nsDocument r = Some d \<and> nsState r = RESERVED_N) (reservations s))"

definition findByFormatted :: "string \<Rightarrow> 'z num_state_scheme \<Rightarrow> reservation_row option" where
  "findByFormatted f s = List.find (\<lambda>r. nsFormatted r = f) (reservations s)"

text \<open>A state move claimed by predicate; the result says whether a row was claimed.\<close>

definition claimReservation ::
  "ident \<Rightarrow> reservation_state \<Rightarrow> (reservation_row \<Rightarrow> reservation_row) \<Rightarrow> ('z, bool) ntx" where
  "claimReservation i from f =
     bindT (getsT reservations) (\<lambda>rows.
       let hit = (\<lambda>r. nsId r = i \<and> nsState r = from)
       in thenT (modifyT (\<lambda>s. s\<lparr>reservations := updateWhere hit f (reservations s)\<rparr>))
          (returnT (countWhere hit rows > 0)))"

definition markAssigned :: "ident \<Rightarrow> ident \<Rightarrow> instant \<Rightarrow> reservation_state \<Rightarrow> ('z, bool) ntx" where
  "markAssigned i documentId at from =
     claimReservation i from
       (\<lambda>r. r\<lparr>nsState := ASSIGNED_N, nsDocument := Some documentId, nsAssignedAt := Some at\<rparr>)"

definition markVoided :: "ident \<Rightarrow> string \<Rightarrow> instant \<Rightarrow> reservation_state \<Rightarrow> ('z, bool) ntx" where
  "markVoided i why at from =
     claimReservation i from (\<lambda>r. r\<lparr>nsState := VOIDED_N, nsVoidReason := Some why, nsVoidedAt := Some at\<rparr>)"

definition purgeNumbers :: "ident \<Rightarrow> (ident \<Rightarrow> bool) \<Rightarrow> ('z, nat) ntx" where
  "purgeNumbers documentId ofDocument =
     bindT (getsT reservations) (\<lambda>rows.
       let points = (\<lambda>r. nsDocument r = Some documentId \<or> (\<exists>w. nsInstance r = Some w \<and> ofDocument w));
           spent = (\<lambda>r. nsState r = ASSIGNED_N \<and> points r)
       in thenT (modifyT (\<lambda>s. s\<lparr>reservations := updateWhere spent
            (\<lambda>r. r\<lparr>nsState := PURGED_N, nsDocument := None, nsInstance := None\<rparr>) (reservations s)\<rparr>))
          (thenT (modifyT (\<lambda>s. s\<lparr>reservations := updateWhere
             (\<lambda>r. nsState r \<notin> {ASSIGNED_N, PURGED_N} \<and> points r)
             (\<lambda>r. r\<lparr>nsDocument := None, nsInstance := None\<rparr>) (reservations s)\<rparr>))
          (returnT (countWhere spent rows))))"

subsection \<open>The issuance service\<close>

record issued_number =
  inReservationId :: ident
  inFormatted :: string
  inSequenceValue :: nat
  inScopeKey :: string
  inNumberingRuleId :: ident

record numbering_policy =
  npRuleId :: ident
  npReserveOnSubmit :: bool
  npStrictGapless :: bool

definition toIssued :: "reservation_row \<Rightarrow> issued_number" where
  "toIssued r =
     \<lparr>inReservationId = nsId r, inFormatted = nsFormatted r, inSequenceValue = nsValue r,
      inScopeKey = nsScope r, inNumberingRuleId = nsRule r\<rparr>"

definition policyFor :: "number_config \<Rightarrow> ident \<Rightarrow> numbering_policy option" where
  "policyFor cfg documentTypeId =
     Option.bind (ruleIdForDocumentType cfg documentTypeId) (\<lambda>ruleId.
     map_option (\<lambda>rule.
       \<lparr>npRuleId = irId rule, npReserveOnSubmit = nrReserveOnSubmit rule \<and> \<not> nrStrictGapless rule,
        npStrictGapless = nrStrictGapless rule\<rparr>)
     (ruleShape cfg ruleId))"

definition requireRule :: "number_config \<Rightarrow> ident \<Rightarrow> ('s, issuable_rule) tx" where
  "requireRule cfg ruleId =
     (case ruleShape cfg ruleId of
        None \<Rightarrow> throwT (NotFoundError ''The numbering rule for this document'')
      | Some rule \<Rightarrow> returnT rule)"

definition contextFor :: "number_config \<Rightarrow> request \<Rightarrow> numbering_codes \<Rightarrow> calendar_month option \<Rightarrow> numbering_context" where
  "contextFor cfg rq codes encoded =
     dated codes (case encoded of None \<Rightarrow> wallMonth cfg (now rq) | Some d \<Rightarrow> d)"

definition draw :: "number_config \<Rightarrow> request \<Rightarrow> issuable_rule \<Rightarrow> numbering_codes \<Rightarrow> ('z, issued_number) ntx" where
  "draw cfg rq rule codes =
     (let cx = contextFor cfg rq codes None;
          scopeKey = scopeKeyFor (shapeOf rule) cx
      in bindT (nextId rq) (\<lambda>freshId.
         bindT (claimNext (irId rule) scopeKey freshId) (\<lambda>v.
         (let formatted = fst (formatNumber (shapeOf rule) cx v)
          in bindT (getsT (findByFormatted formatted)) (\<lambda>existing.
             thenT (requireT (existing = None) (NumberSeriesCollisionError formatted))
             (bindT (nextId rq) (\<lambda>reservationId.
              returnT \<lparr>inReservationId = reservationId, inFormatted = formatted, inSequenceValue = v,
                       inScopeKey = scopeKey, inNumberingRuleId = irId rule\<rparr>)))))))"

definition numberChange ::
  "string \<Rightarrow> string \<Rightarrow> ident \<Rightarrow> operation \<Rightarrow> payload \<Rightarrow> change" where
  "numberChange act kind i op facts =
     \<lparr>action = act, subjectType = kind, subjectId = i, operation = op, before = None,
      after = Some facts, reason = None, outcome = None\<rparr>"

definition reserveNumber ::
  "number_config \<Rightarrow> request \<Rightarrow> ident \<Rightarrow> numbering_codes \<Rightarrow> ident \<Rightarrow> ident \<Rightarrow> ('z, issued_number) ntx" where
  "reserveNumber cfg rq ruleId codes documentId workflowInstanceId =
     writeT rq
      (bindT (requireRule cfg ruleId) (\<lambda>rule.
       bindT (draw cfg rq rule codes) (\<lambda>issued.
       thenT (insertReservation
         \<lparr>nsId = inReservationId issued, nsRule = irId rule, nsScope = inScopeKey issued,
          nsValue = inSequenceValue issued, nsFormatted = inFormatted issued, nsState = RESERVED_N,
          nsOrigin = AUTOMATIC, nsDocument = Some documentId, nsInstance = Some workflowInstanceId,
          nsReservedAt = now rq, nsAssignedAt = None, nsVoidedAt = None, nsVoidReason = None, nsNote = None\<rparr>)
       (returnT (issued, numberChange ''NUMBER_RESERVED'' ''DOCUMENT'' documentId CREATED
          [(''formatted'', JStr (inFormatted issued)), (''numberingRuleId'', JStr (irId rule)),
           (''scopeKey'', JStr (inScopeKey issued)),
           (''sequenceValue'', JStr (showNat (inSequenceValue issued))),
           (''workflowInstanceId'', JStr workflowInstanceId)])))))"

definition commitNumber :: "request \<Rightarrow> ident \<Rightarrow> ident \<Rightarrow> ('z, string) ntx" where
  "commitNumber rq reservationId documentId =
     writeT rq
      (bindT (getsT (reservationById reservationId)) (\<lambda>found.
       case found of
         None \<Rightarrow> throwT (NotFoundError ''The requested reservation'')
       | Some r \<Rightarrow>
           bindT (markAssigned reservationId documentId (now rq) RESERVED_N) (\<lambda>claimed.
           thenT (requireT claimed (ValidationError ''This reservation can no longer be assigned.''
                    [(''reservation'', stateName (nsState r))]))
           (returnT (nsFormatted r, numberChange ''NUMBER_ASSIGNED'' ''DOCUMENT'' documentId UPDATED
             [(''formatted'', JStr (nsFormatted r)), (''numberingRuleId'', JStr (nsRule r)),
              (''scopeKey'', JStr (nsScope r)), (''sequenceValue'', JStr (showNat (nsValue r))),
              (''origin'', JStr (originName (nsOrigin r)))])))))"

definition voidClaimed ::
  "request \<Rightarrow> reservation_state \<Rightarrow> string \<Rightarrow> (reservation_row \<Rightarrow> string \<times> ident) \<Rightarrow> ident \<Rightarrow> string \<Rightarrow> ('z, unit) ntx" where
  "voidClaimed rq from refusal subject reservationId why =
     writeT rq
      (bindT (getsT (reservationById reservationId)) (\<lambda>found.
       case found of
         None \<Rightarrow> throwT (NotFoundError ''The requested reservation'')
       | Some r \<Rightarrow>
           bindT (markVoided reservationId why (now rq) from) (\<lambda>voided.
           thenT (requireT voided (ValidationError refusal [(''reservation'', stateName (nsState r))]))
           (returnT ((), numberChange ''NUMBER_VOIDED'' (fst (subject r)) (snd (subject r)) UPDATED
             [(''formatted'', JStr (nsFormatted r)), (''reason'', JStr why), (''reusable'', JBool False)])))))"

definition releaseNumber :: "request \<Rightarrow> ident \<Rightarrow> string \<Rightarrow> ('z, unit) ntx" where
  "releaseNumber rq reservationId why =
     voidClaimed rq RESERVED_N ''This reservation can no longer be voided.''
       (\<lambda>r. (''DOCUMENT'', case nsDocument r of None \<Rightarrow> reservationId | Some d \<Rightarrow> d)) reservationId why"

definition releaseHeld :: "request \<Rightarrow> ident \<Rightarrow> string \<Rightarrow> ('z, unit) ntx" where
  "releaseHeld rq reservationId why =
     voidClaimed rq HELD_N ''Only a held value can be released here.''
       (\<lambda>r. (''CONFIGURATION'', nsRule r)) reservationId why"

definition reservationForInstance :: "ident \<Rightarrow> ('z, issued_number option) ntx" where
  "reservationForInstance w = bindT (getsT (liveReservationFor w)) (\<lambda>r. returnT (map_option toIssued r))"

fun rejectionName :: "manual_rejection \<Rightarrow> string" where
  "rejectionName SHAPE_MISMATCH = ''SHAPE_MISMATCH''"
| "rejectionName REQUIRED_CODE_MISSING = ''REQUIRED_CODE_MISSING''"
| "rejectionName SEQUENCE_OUT_OF_RANGE = ''SEQUENCE_OUT_OF_RANGE''"

definition claimManual ::
  "request \<Rightarrow> issuable_rule \<Rightarrow> string \<Rightarrow> nat \<Rightarrow> ident \<Rightarrow> string \<Rightarrow> number_origin \<Rightarrow> ('z, issued_number) ntx" where
  "claimManual rq rule scopeKey v documentId requested origin =
     bindT (getsT (findByFormatted requested)) (\<lambda>existing.
     case existing of
       None \<Rightarrow>
         bindT (nextId rq) (\<lambda>freshId.
         thenT (fastForward (irId rule) scopeKey v freshId)
         (bindT (nextId rq) (\<lambda>reservationId.
          thenT (insertReservation
            \<lparr>nsId = reservationId, nsRule = irId rule, nsScope = scopeKey, nsValue = v,
             nsFormatted = requested, nsState = ASSIGNED_N, nsOrigin = origin,
             nsDocument = Some documentId, nsInstance = None, nsReservedAt = now rq,
             nsAssignedAt = Some (now rq), nsVoidedAt = None, nsVoidReason = None, nsNote = None\<rparr>)
          (returnT \<lparr>inReservationId = reservationId, inFormatted = requested, inSequenceValue = v,
                    inScopeKey = scopeKey, inNumberingRuleId = irId rule\<rparr>))))
     | Some r \<Rightarrow>
         if nsState r = HELD_N
         then bindT (markAssigned (nsId r) documentId (now rq) HELD_N) (\<lambda>claimed.
              thenT (requireT claimed (DuplicateError ''document number'' ''documentNumber''))
              (returnT (toIssued r)))
         else throwT (DuplicateError ''document number'' ''documentNumber''))"

definition assignManual ::
  "number_config \<Rightarrow> request \<Rightarrow> ident \<Rightarrow> numbering_codes \<Rightarrow> ident \<Rightarrow> string \<Rightarrow> number_origin \<Rightarrow> ('z, issued_number) ntx" where
  "assignManual cfg rq ruleId codes documentId requested origin =
     writeT rq
      (bindT (requireRule cfg ruleId) (\<lambda>rule.
       bindT (liftT (matchManualNumber (shapeOf rule) codes requested)) (\<lambda>matched.
       case matched of
         Inl rejection \<Rightarrow>
           throwT (ValidationError ''That number does not match the shape this document numbers under.''
             [(''documentNumber'', rejectionName rejection)])
       | Inr m \<Rightarrow>
           bindT (claimManual rq rule (scopeKeyFor (shapeOf rule) (contextFor cfg rq codes (mEncodedDate m)))
                    (mSequenceValue m) documentId requested origin) (\<lambda>issued.
           returnT (issued, numberChange ''NUMBER_ASSIGNED'' ''DOCUMENT'' documentId UPDATED
             [(''formatted'', JStr (inFormatted issued)), (''numberingRuleId'', JStr (irId rule)),
              (''scopeKey'', JStr (inScopeKey issued)),
              (''sequenceValue'', JStr (showNat (inSequenceValue issued))),
              (''origin'', JStr (originName origin))])))))"

fun holdLoop ::
  "number_config \<Rightarrow> request \<Rightarrow> issuable_rule \<Rightarrow> numbering_codes \<Rightarrow> string option \<Rightarrow> nat \<Rightarrow> ('z, issued_number list) ntx" where
  "holdLoop cfg rq rule codes note 0 = returnT []"
| "holdLoop cfg rq rule codes note (Suc k) =
     bindT (draw cfg rq rule codes) (\<lambda>issued.
     thenT (insertReservation
       \<lparr>nsId = inReservationId issued, nsRule = irId rule, nsScope = inScopeKey issued,
        nsValue = inSequenceValue issued, nsFormatted = inFormatted issued, nsState = HELD_N,
        nsOrigin = MANUAL, nsDocument = None, nsInstance = None, nsReservedAt = now rq,
        nsAssignedAt = None, nsVoidedAt = None, nsVoidReason = None, nsNote = note\<rparr>)
     (bindT (holdLoop cfg rq rule codes note k) (\<lambda>rest. returnT (issued # rest))))"

definition holdBlock ::
  "number_config \<Rightarrow> request \<Rightarrow> ident \<Rightarrow> numbering_codes \<Rightarrow> nat \<Rightarrow> string option \<Rightarrow> ('z, issued_number list) ntx" where
  "holdBlock cfg rq ruleId codes count note =
     writeT rq
      (bindT (requireRule cfg ruleId) (\<lambda>rule.
       bindT (holdLoop cfg rq rule codes note count) (\<lambda>values.
       returnT (values, numberChange ''NUMBER_RESERVED'' ''CONFIGURATION'' ruleId CREATED
         [(''held'', JStrs (map inFormatted values)), (''count'', JNum (int count)), (''note'', jopt note)]))))"

subsection \<open>The invariant of issuance\<close>

text \<open>Frame rules for whatever a component reads beside the transaction's own bookkeeping.\<close>

definition aside :: "('z core_scheme \<Rightarrow> 't) \<Rightarrow> bool" where
  "aside t \<longleftrightarrow> (\<forall>s y. t (s\<lparr>trail := y\<rparr>) = t s) \<and> (\<forall>s y. t (s\<lparr>outbox := y\<rparr>) = t s) \<and>
     (\<forall>s y. t (s\<lparr>serial := y\<rparr>) = t s) \<and> (\<forall>s y. t (s\<lparr>invalidations := y\<rparr>) = t s)"

lemma leaves_aside:
  assumes "aside t"
  shows "leaves t (nextId rq)" and "leaves t (publishT es)" and "leaves t (recordChange rq c)"
    and "leaves t m \<Longrightarrow> leaves t (writeT rq m)" and "leaves t n \<Longrightarrow> leaves t (changeT rq n)"
  using assms
  by (fastforce intro!: leavesI simp: aside_def recordChange_def writeT_Inr changeT_Inr leaves_def)+

definition numberTables :: "'z num_state_scheme \<Rightarrow> sequence_row list \<times> reservation_row list" where
  "numberTables s = (sequences s, reservations s)"

lemma aside_numberTables [simp]: "aside numberTables"
  by (simp add: aside_def numberTables_def)

text \<open>A value lies below the counter of its series.\<close>

definition covered :: "ident \<Rightarrow> string \<Rightarrow> nat \<Rightarrow> sequence_row list \<Rightarrow> bool" where
  "covered rule scope v qs \<longleftrightarrow> (\<exists>q \<in> set qs. inSeries rule scope q \<and> v < sqNext q)"

definition numbersOk :: "sequence_row list \<times> reservation_row list \<Rightarrow> bool" where
  "numbersOk t \<longleftrightarrow>
     distinct (map nsId (snd t)) \<and> distinct (map nsFormatted (snd t)) \<and>
     distinct (map (\<lambda>q. (sqRule q, sqScope q)) (fst t)) \<and>
     (\<forall>r \<in> set (snd t). covered (nsRule r) (nsScope r) (nsValue r) (fst t))"

abbreviation numberInv :: "'z num_state_scheme \<Rightarrow> bool" where
  "numberInv s \<equiv> numbersOk (numberTables s)"

lemma series_unique:
  assumes "distinct (map (\<lambda>q. (sqRule q, sqScope q)) qs)" and "q \<in> set qs" and "p \<in> set qs"
    and "inSeries rule scope q" and "inSeries rule scope p"
  shows "p = q"
  using distinct_map_eq [OF assms(1) assms(2) assms(3)] assms(4,5) by (auto simp: inSeries_def)

lemma covered_update:
  assumes "covered rule scope v qs" and "\<And>n. n \<le> bump n"
  shows "covered rule scope v (updateWhere (inSeries r' s') (\<lambda>q. q\<lparr>sqNext := bump (sqNext q)\<rparr>) qs)"
proof -
  obtain q where q: "q \<in> set qs" "inSeries rule scope q" "v < sqNext q" using assms(1) by (auto simp: covered_def)
  let ?q = "if inSeries r' s' q then q\<lparr>sqNext := bump (sqNext q)\<rparr> else q"
  have "?q \<in> set (updateWhere (inSeries r' s') (\<lambda>q. q\<lparr>sqNext := bump (sqNext q)\<rparr>) qs)"
    using q(1) by (auto simp: set_updateWhere)
  moreover have "inSeries rule scope ?q" "v < sqNext ?q"
    using q assms(2) [of "sqNext q"] by (auto simp: inSeries_def)
  ultimately show ?thesis unfolding covered_def by blast
qed

lemma covered_append: "covered rule scope v qs \<Longrightarrow> covered rule scope v (qs @ ps)"
  by (auto simp: covered_def)

text \<open>
  The counter statement: the invariant is kept, the value returned is the new counter, and whatever was below
  a counter stays below it.
\<close>

lemma upsertSequence_spec:
  assumes run: "upsertSequence rule scope i initial bump s = Inr (n, s')" and ok: "numberInv s" and up: "\<And>k. k \<le> bump k"
  shows "numberInv s'" and "reservations s' = reservations s"
    and "\<exists>q \<in> set (sequences s'). inSeries rule scope q \<and> sqNext q = n"
    and "(\<nexists>q. q \<in> set (sequences s) \<and> inSeries rule scope q) \<and> n = initial \<or>
         (\<exists>q \<in> set (sequences s). inSeries rule scope q \<and> n = bump (sqNext q))"
proof -
  note fresh = find_None_iff_all [of "inSeries rule scope" "sequences s"]
  have cases: "(\<forall>q \<in> set (sequences s). \<not> inSeries rule scope q) \<and> n = initial \<and>
      s' = s\<lparr>sequences := sequences s @ [\<lparr>sqId = i, sqRule = rule, sqScope = scope, sqNext = initial\<rparr>]\<rparr> \<or>
    (\<exists>q \<in> set (sequences s). inSeries rule scope q \<and> n = bump (sqNext q) \<and>
      s' = s\<lparr>sequences := updateWhere (inSeries rule scope) (\<lambda>r. r\<lparr>sqNext := bump (sqNext r)\<rparr>) (sequences s)\<rparr>)"
    using run fresh
    by (auto simp: upsertSequence_def tx_Inr_simps split: option.splits dest: find_Some_mem)
  then show "reservations s' = reservations s" by auto
  show "\<exists>q \<in> set (sequences s'). inSeries rule scope q \<and> sqNext q = n"
    using cases
  proof
    assume "\<exists>q \<in> set (sequences s). inSeries rule scope q \<and> n = bump (sqNext q) \<and>
      s' = s\<lparr>sequences := updateWhere (inSeries rule scope) (\<lambda>r. r\<lparr>sqNext := bump (sqNext r)\<rparr>) (sequences s)\<rparr>"
    then obtain q where q: "q \<in> set (sequences s)" "inSeries rule scope q" "n = bump (sqNext q)"
      and s': "s' = s\<lparr>sequences := updateWhere (inSeries rule scope) (\<lambda>r. r\<lparr>sqNext := bump (sqNext r)\<rparr>) (sequences s)\<rparr>"
      by blast
    have "q\<lparr>sqNext := bump (sqNext q)\<rparr> \<in> set (sequences s')" using q s' by (force simp: set_updateWhere)
    then show ?thesis using q by (intro bexI [of _ "q\<lparr>sqNext := bump (sqNext q)\<rparr>"]) (auto simp: inSeries_def)
  qed (auto simp: inSeries_def)
  show "(\<nexists>q. q \<in> set (sequences s) \<and> inSeries rule scope q) \<and> n = initial \<or>
         (\<exists>q \<in> set (sequences s). inSeries rule scope q \<and> n = bump (sqNext q))"
    using cases by blast
  have key: "map (\<lambda>q. (sqRule q, sqScope q)) (updateWhere P (\<lambda>r. r\<lparr>sqNext := bump (sqNext r)\<rparr>) qs)
      = map (\<lambda>q. (sqRule q, sqScope q)) qs" for P qs
    by (rule map_updateWhere) simp
  show "numberInv s'"
    using cases ok
    by (auto simp: numbersOk_def numberTables_def key inSeries_def covered_append intro!: covered_update [OF _ up])
qed

lemma claimNext_spec:
  assumes run: "claimNext rule scope i s = Inr (v, s')" and ok: "numberInv s"
  shows "numberInv s'" and "reservations s' = reservations s" and "covered rule scope v (sequences s')"
    and "\<And>r. r \<in> set (reservations s) \<Longrightarrow> nsRule r = rule \<Longrightarrow> nsScope r = scope \<Longrightarrow> nsValue r < v"
    and "(\<exists>q \<in> set (sequences s). inSeries rule scope q \<and> v = sqNext q) \<or> v = 1"
proof -
  obtain n where n: "upsertSequence rule scope i 2 (\<lambda>n. n + 1) s = Inr (n, s')" "v = n - 1"
    using run by (auto simp: claimNext_def tx_Inr_simps)
  note spec = upsertSequence_spec [OF n(1) ok, simplified]
  show "numberInv s'" "reservations s' = reservations s" by (rule spec)+
  have pos: "1 \<le> n" using spec(4) by auto
  then show "covered rule scope v (sequences s')" using spec(3) n(2) by (auto simp: covered_def)
  show "(\<exists>q \<in> set (sequences s). inSeries rule scope q \<and> v = sqNext q) \<or> v = 1" using spec(4) n(2) by auto
  show "nsValue r < v" if r: "r \<in> set (reservations s)" "nsRule r = rule" "nsScope r = scope" for r
  proof -
    obtain q where q: "q \<in> set (sequences s)" "inSeries rule scope q" "nsValue r < sqNext q"
      using ok r by (auto simp: numbersOk_def numberTables_def covered_def)
    then obtain p where p: "p \<in> set (sequences s)" "inSeries rule scope p" "n = sqNext p + 1" using spec(4) by auto
    have "p = q" using series_unique [OF _ q(1) p(1) q(2) p(2)] ok by (simp add: numbersOk_def numberTables_def)
    then show ?thesis using q p n(2) by simp
  qed
qed

lemma insertReservation_spec:
  assumes "insertReservation r s = Inr (u, s')" and "numberInv s"
    and "covered (nsRule r) (nsScope r) (nsValue r) (sequences s)"
  shows "numberInv s'"
  using assms by (auto simp: insertReservation_def tx_Inr_simps numbersOk_def numberTables_def)

lemma claimReservation_spec:
  assumes "\<And>r. nsId (f r) = nsId r \<and> nsFormatted (f r) = nsFormatted r \<and> nsRule (f r) = nsRule r \<and>
      nsScope (f r) = nsScope r \<and> nsValue (f r) = nsValue r"
  shows "preserves numberInv (claimReservation i from f)"
proof (rule preservesI)
  fix s b s'
  assume ok: "numberInv s" and "claimReservation i from f s = Inr (b, s')"
  then have s': "s' = s\<lparr>reservations := updateWhere (\<lambda>r. nsId r = i \<and> nsState r = from) f (reservations s)\<rparr>"
    by (auto simp: claimReservation_def tx_Inr_simps Let_def)
  have "map nsId (updateWhere P f rs) = map nsId rs" "map nsFormatted (updateWhere P f rs) = map nsFormatted rs" for P rs
    by (rule map_updateWhere, simp add: assms)+
  then show "numberInv s'"
    using ok s' assms by (auto simp: numbersOk_def numberTables_def set_updateWhere)
qed

lemma numberTables_serial [simp]:
  "numberTables (s\<lparr>serial := k\<rparr>) = numberTables s" "numberTables (s\<lparr>trail := tr\<rparr>) = numberTables s"
  "numberTables (s\<lparr>outbox := ob\<rparr>) = numberTables s"
  by (simp_all add: numberTables_def)

lemma draw_spec:
  assumes run: "draw cfg rq rule codes s = Inr (x, s')" and ok: "numberInv s"
  shows "numberInv s'" and "reservations s' = reservations s" and "inNumberingRuleId x = irId rule"
    and "covered (irId rule) (inScopeKey x) (inSequenceValue x) (sequences s')"
    and "inFormatted x \<notin> nsFormatted ` set (reservations s)"
    and "inScopeKey x = scopeKeyFor (shapeOf rule) (contextFor cfg rq codes None)"
    and "inFormatted x = fst (formatNumber (shapeOf rule) (contextFor cfg rq codes None) (inSequenceValue x))"
    and "\<And>r. r \<in> set (reservations s) \<Longrightarrow> nsRule r = irId rule \<Longrightarrow> nsScope r = inScopeKey x \<Longrightarrow>
           nsValue r < inSequenceValue x"
proof -
  let ?cx = "contextFor cfg rq codes None" and ?s1 = "s\<lparr>serial := Suc (serial s)\<rparr>"
  obtain v s2 where v: "claimNext (irId rule) (scopeKeyFor (shapeOf rule) ?cx) (mkId rq (serial s)) ?s1 = Inr (v, s2)"
    and none: "findByFormatted (fst (formatNumber (shapeOf rule) ?cx v)) s2 = None"
    and x: "x = \<lparr>inReservationId = mkId rq (serial s2), inFormatted = fst (formatNumber (shapeOf rule) ?cx v),
        inSequenceValue = v, inScopeKey = scopeKeyFor (shapeOf rule) ?cx, inNumberingRuleId = irId rule\<rparr>"
    and s': "s' = s2\<lparr>serial := Suc (serial s2)\<rparr>"
    using run by (auto simp: draw_def tx_Inr_simps Let_def)
  have ok1: "numberInv ?s1" using ok by simp
  note spec = claimNext_spec [OF v ok1]
  show "numberInv s'" using spec(1) s' by simp
  show "reservations s' = reservations s" using spec(2) s' by simp
  show "covered (irId rule) (inScopeKey x) (inSequenceValue x) (sequences s')" using spec(3) s' x by simp
  show "inFormatted x \<notin> nsFormatted ` set (reservations s)"
    using none spec(2) x by (auto simp: findByFormatted_def find_None_iff_all)
  show "nsValue r < inSequenceValue x"
    if "r \<in> set (reservations s)" "nsRule r = irId rule" "nsScope r = inScopeKey x" for r
    using spec(4) [of r] that x by simp
qed (use run in \<open>auto simp: draw_def tx_Inr_simps Let_def\<close>)

lemma numberInv_marks:
  "preserves numberInv (markAssigned i d at from)" "preserves numberInv (markVoided i why at from)"
  unfolding markAssigned_def markVoided_def by (rule claimReservation_spec, simp)+

lemma numberInv_write: "preserves numberInv m \<Longrightarrow> preserves numberInv (writeT rq m)"
  by (rule preserves_write) simp_all

lemma numberInv_reserve: "preserves numberInv (reserveNumber cfg rq ruleId codes d w)"
  unfolding reserveNumber_def
proof (intro numberInv_write preservesI, clarsimp simp: tx_Inr_simps requireRule_def split: option.splits)
  fix s rule x s1 u s2
  assume ok: "numberInv s" and run: "draw cfg rq rule codes s = Inr (x, s1)"
    and ins: "insertReservation \<lparr>nsId = inReservationId x, nsRule = irId rule, nsScope = inScopeKey x,
        nsValue = inSequenceValue x, nsFormatted = inFormatted x, nsState = RESERVED_N, nsOrigin = AUTOMATIC,
        nsDocument = Some d, nsInstance = Some w, nsReservedAt = now rq, nsAssignedAt = None,
        nsVoidedAt = None, nsVoidReason = None, nsNote = None\<rparr> s1 = Inr ((), s2)"
  show "numberInv s2"
    by (rule insertReservation_spec [OF ins]) (use draw_spec [OF run ok] in simp_all)
qed

lemma numberInv_commit:
  "preserves numberInv (commitNumber rq i d)" "preserves numberInv (voidClaimed rq from refusal subj i why)"
  unfolding commitNumber_def voidClaimed_def
  by (intro numberInv_write preserves_intros numberInv_marks)+

lemma numberInv_release:
  "preserves numberInv (releaseNumber rq i why)" "preserves numberInv (releaseHeld rq i why)"
  unfolding releaseNumber_def releaseHeld_def by (rule numberInv_commit)+

lemma numberInv_fastForward:
  assumes "fastForward rule scope v i s = Inr (u, s')" and "numberInv s"
  shows "numberInv s' \<and> covered rule scope v (sequences s')"
proof -
  obtain n where n: "upsertSequence rule scope i (v + 1) (\<lambda>n. max n (v + 1)) s = Inr (n, s')"
    using assms(1) by (auto simp: fastForward_def tx_Inr_simps)
  note spec = upsertSequence_spec [OF n assms(2), simplified]
  have "v < n" using spec(4) by auto
  then show ?thesis using spec(1,3) by (auto simp: covered_def)
qed

lemma numberInv_claimManual: "preserves numberInv (claimManual rq rule scope v d requested origin)"
proof (rule preservesI)
  fix s x s'
  assume ok: "numberInv s" and run: "claimManual rq rule scope v d requested origin s = Inr (x, s')"
  show "numberInv s'"
  proof (cases "findByFormatted requested s")
    case (Some r)
    then show ?thesis
      using run ok by (auto simp: claimManual_def tx_Inr_simps split: if_splits dest: preservesD [OF numberInv_marks(1)])
  next
    case None
    let ?row = "\<lambda>i. \<lparr>nsId = i, nsRule = irId rule, nsScope = scope, nsValue = v, nsFormatted = requested,
        nsState = ASSIGNED_N, nsOrigin = origin, nsDocument = Some d, nsInstance = None, nsReservedAt = now rq,
        nsAssignedAt = Some (now rq), nsVoidedAt = None, nsVoidReason = None, nsNote = None\<rparr>"
    obtain i s1 u s2 where ff: "fastForward (irId rule) scope v i (s\<lparr>serial := Suc (serial s)\<rparr>) = Inr (u, s1)"
      and ins: "insertReservation (?row (mkId rq (serial s1))) (s1\<lparr>serial := Suc (serial s1)\<rparr>) = Inr ((), s2)"
      and s': "s' = s2"
      using run None by (auto simp: claimManual_def tx_Inr_simps)
    have "numberInv s1 \<and> covered (irId rule) scope v (sequences s1)"
      by (rule numberInv_fastForward [OF ff]) (use ok in simp)
    then have "numberInv s2" by (intro insertReservation_spec [OF ins]) simp_all
    then show ?thesis using s' by simp
  qed
qed

lemma preserves_sum [preserves_intros]:
  "\<lbrakk>\<And>e. preserves I (f e); \<And>x. preserves I (g x)\<rbrakk> \<Longrightarrow> preserves I (case v of Inl e \<Rightarrow> f e | Inr x \<Rightarrow> g x)"
  by (cases v) auto

lemma numberInv_assignManual: "preserves numberInv (assignManual cfg rq ruleId codes d requested origin)"
  unfolding assignManual_def requireRule_def
  by (intro numberInv_write preserves_intros numberInv_claimManual)

lemma holdLoop_keeps:
  "holdLoop cfg rq rule codes note k s = Inr (x, s') \<Longrightarrow> numberInv s \<Longrightarrow> numberInv s'"
proof (induction k arbitrary: s x)
  case (Suc k)
  then obtain y s1 u s2 xs where run: "draw cfg rq rule codes s = Inr (y, s1)"
    and ins: "insertReservation \<lparr>nsId = inReservationId y, nsRule = irId rule, nsScope = inScopeKey y,
      nsValue = inSequenceValue y, nsFormatted = inFormatted y, nsState = HELD_N, nsOrigin = MANUAL,
      nsDocument = None, nsInstance = None, nsReservedAt = now rq, nsAssignedAt = None, nsVoidedAt = None,
      nsVoidReason = None, nsNote = note\<rparr> s1 = Inr (u, s2)"
    and rest: "holdLoop cfg rq rule codes note k s2 = Inr (xs, s')"
    by (auto simp: tx_Inr_simps)
  have "numberInv s2" by (rule insertReservation_spec [OF ins]) (use draw_spec [OF run Suc.prems(2)] in simp_all)
  then show ?case by (rule Suc.IH [OF rest])
qed simp

lemma numberInv_holdLoop: "preserves numberInv (holdLoop cfg rq rule codes note k)"
  by (rule preservesI) (rule holdLoop_keeps)

lemma numberInv_holdBlock: "preserves numberInv (holdBlock cfg rq ruleId codes k note)"
  unfolding holdBlock_def requireRule_def by (intro numberInv_write preserves_intros numberInv_holdLoop)

lemma numberInv_purge: "preserves numberInv (purgeNumbers d P)"
proof (rule preservesI)
  fix s n s'
  assume ok: "numberInv s" and run: "purgeNumbers d P s = Inr (n, s')"
  have same: "map g (updateWhere Q f rs) = map g rs"
    if "\<And>r. g (f r) = g r" for g :: "reservation_row \<Rightarrow> 'k" and Q f rs
    using that by (rule map_updateWhere)
  obtain Q1 Q2 where "s' = s\<lparr>reservations := updateWhere Q1 (\<lambda>r. r\<lparr>nsDocument := None, nsInstance := None\<rparr>)
      (updateWhere Q2 (\<lambda>r. r\<lparr>nsState := PURGED_N, nsDocument := None, nsInstance := None\<rparr>) (reservations s))\<rparr>"
    using run by (auto simp: purgeNumbers_def tx_Inr_simps Let_def)
  then show "numberInv s'"
    using ok by (auto simp: numbersOk_def numberTables_def set_updateWhere same)
qed

subsection \<open>What becomes of a value\<close>

definition mayBecome :: "reservation_state \<Rightarrow> reservation_state \<Rightarrow> bool" where
  "mayBecome a b \<longleftrightarrow>
     a = b \<or> a \<in> {RESERVED_N, HELD_N} \<and> b \<in> {ASSIGNED_N, VOIDED_N, PURGED_N} \<or> a = ASSIGNED_N \<and> b = PURGED_N"

definition keepsValue :: "reservation_row \<Rightarrow> reservation_row \<Rightarrow> bool" where
  "keepsValue r q \<longleftrightarrow>
     nsId q = nsId r \<and> nsRule q = nsRule r \<and> nsScope q = nsScope r \<and> nsValue q = nsValue r \<and>
     nsFormatted q = nsFormatted r \<and> nsOrigin q = nsOrigin r \<and> mayBecome (nsState r) (nsState q)"

definition evolved :: "reservation_row list \<Rightarrow> reservation_row list \<Rightarrow> bool" where
  "evolved rs qs \<longleftrightarrow> length rs \<le> length qs \<and> (\<forall>i < length rs. keepsValue (rs ! i) (qs ! i))"

lemma keepsValue_refl [simp]: "keepsValue r r"
  by (simp add: keepsValue_def mayBecome_def)

lemma keepsValue_trans: "keepsValue r q \<Longrightarrow> keepsValue q p \<Longrightarrow> keepsValue r p"
  by (auto simp: keepsValue_def mayBecome_def)

lemma evolved_refl [simp]: "evolved rs rs"
  by (simp add: evolved_def)

lemma evolved_trans: "evolved rs qs \<Longrightarrow> evolved qs ps \<Longrightarrow> evolved rs ps"
  unfolding evolved_def by (meson keepsValue_trans less_le_trans order_trans)

lemma evolved_append: "evolved rs qs \<Longrightarrow> evolved rs (qs @ ps)"
  by (auto simp: evolved_def nth_append)

lemma evolved_update:
  assumes "evolved rs qs" and "\<And>r. P r \<Longrightarrow> keepsValue r (f r)"
  shows "evolved rs (updateWhere P f qs)"
proof -
  have "evolved qs (updateWhere P f qs)" using assms(2) by (auto simp: evolved_def updateWhere_def)
  then show ?thesis using assms(1) evolved_trans by blast
qed

abbreviation evolvesFrom :: "reservation_row list \<Rightarrow> 'z num_state_scheme \<Rightarrow> bool" where
  "evolvesFrom rs s \<equiv> evolved rs (reservations s)"

lemma aside_reservations [simp]: "aside reservations"
  by (simp add: aside_def)

lemma evolves_leaves: "leaves reservations m \<Longrightarrow> preserves (evolvesFrom rs) m"
  by (rule leaves_preserves)

lemma evolves_write: "preserves (evolvesFrom rs) m \<Longrightarrow> preserves (evolvesFrom rs) (writeT rq m)"
  by (rule preserves_write) simp_all

lemma evolves_primitives:
  "preserves (evolvesFrom rs) (nextId rq)" "preserves (evolvesFrom rs) (upsertSequence rule scope i n b)"
  "preserves (evolvesFrom rs) (insertReservation r)"
  "from \<in> {RESERVED_N, HELD_N} \<Longrightarrow> preserves (evolvesFrom rs) (markAssigned j d at from)"
  "from \<in> {RESERVED_N, HELD_N} \<Longrightarrow> preserves (evolvesFrom rs) (markVoided j why at from)"
proof -
  show "preserves (evolvesFrom rs) (nextId rq)"
    by (rule evolves_leaves) (rule leaves_aside(1) [OF aside_reservations])
  show "preserves (evolvesFrom rs) (upsertSequence rule scope i n b)"
    by (rule evolves_leaves) (auto intro!: leavesI simp: upsertSequence_def tx_Inr_simps split: option.splits)
  show "preserves (evolvesFrom rs) (insertReservation r)"
    by (rule preservesI) (auto simp: insertReservation_def tx_Inr_simps intro: evolved_append)
  show "preserves (evolvesFrom rs) (markAssigned j d at from)" if "from \<in> {RESERVED_N, HELD_N}"
    using that by (intro preservesI)
      (auto simp: markAssigned_def claimReservation_def tx_Inr_simps Let_def keepsValue_def mayBecome_def intro!: evolved_update)
  show "preserves (evolvesFrom rs) (markVoided j why at from)" if "from \<in> {RESERVED_N, HELD_N}"
    using that by (intro preservesI)
      (auto simp: markVoided_def claimReservation_def tx_Inr_simps Let_def keepsValue_def mayBecome_def intro!: evolved_update)
qed

lemma evolves_purge: "preserves (evolvesFrom rs) (purgeNumbers d P)"
  by (rule preservesI)
    (auto simp: purgeNumbers_def tx_Inr_simps Let_def keepsValue_def mayBecome_def intro!: evolved_update)

lemma evolves_draw: "preserves (evolvesFrom rs) (draw cfg rq rule codes)"
  unfolding draw_def claimNext_def by (intro preserves_intros evolves_primitives)

lemma evolves_holdLoop: "preserves (evolvesFrom rs) (holdLoop cfg rq rule codes note k)"
  by (induction k) (simp_all add: preserves_basic preserves_bind preserves_then evolves_draw evolves_primitives(3))

lemma evolves_operations:
  "preserves (evolvesFrom rs) (reserveNumber cfg rq ruleId codes d w)"
  "preserves (evolvesFrom rs) (commitNumber rq i d)"
  "preserves (evolvesFrom rs) (releaseNumber rq i why)"
  "preserves (evolvesFrom rs) (releaseHeld rq i why)"
  "preserves (evolvesFrom rs) (assignManual cfg rq ruleId codes d requested origin)"
  "preserves (evolvesFrom rs) (holdBlock cfg rq ruleId codes k note)"
  unfolding reserveNumber_def commitNumber_def releaseNumber_def releaseHeld_def voidClaimed_def assignManual_def
    claimManual_def fastForward_def holdBlock_def requireRule_def
  by (intro evolves_write preserves_intros evolves_primitives evolves_draw evolves_holdLoop; simp)+

subsection \<open>Issuance as a transition system\<close>

inductive number_step :: "num_state \<Rightarrow> num_state \<Rightarrow> bool" where
  reserve: "reserveNumber cfg rq ruleId codes d w s = Inr (x, s') \<Longrightarrow> number_step s s'"
| commit: "commitNumber rq i d s = Inr (n, s') \<Longrightarrow> number_step s s'"
| release: "releaseNumber rq i why s = Inr (u, s') \<Longrightarrow> number_step s s'"
| release_held: "releaseHeld rq i why s = Inr (u, s') \<Longrightarrow> number_step s s'"
| manual: "assignManual cfg rq ruleId codes d requested origin s = Inr (x, s') \<Longrightarrow> number_step s s'"
| hold: "holdBlock cfg rq ruleId codes k note s = Inr (xs, s') \<Longrightarrow> number_step s s'"
| purge: "purgeNumbers d P s = Inr (k, s') \<Longrightarrow> number_step s s'"

inductive_cases number_stepE: "number_step s s'"

definition number_start :: "num_state \<Rightarrow> bool" where
  "number_start s \<longleftrightarrow> sequences s = [] \<and> reservations s = []"

lemmas number_ops_keep =
  numberInv_reserve [THEN preservesD] numberInv_commit(1) [THEN preservesD] numberInv_release [THEN preservesD]
  numberInv_assignManual [THEN preservesD] numberInv_holdBlock [THEN preservesD] numberInv_purge [THEN preservesD]

interpretation numbers: transactional number_start number_step numberInv
proof
  show "number_start s \<Longrightarrow> numberInv s" for s
    by (simp add: number_start_def numbersOk_def numberTables_def)
  show "\<lbrakk>numberInv s; number_step s s'\<rbrakk> \<Longrightarrow> numberInv s'" for s s'
    by (erule number_stepE) (blast dest: number_ops_keep)+
qed

lemmas number_ops_evolve = evolves_operations [THEN preservesD] evolves_purge [THEN preservesD]

lemma number_steps_evolve: "number_step\<^sup>*\<^sup>* s s' \<Longrightarrow> evolved (reservations s) (reservations s')"
proof (induction rule: rtranclp_induct)
  case (step s1 s2)
  then show ?case by (elim number_stepE) (blast dest: number_ops_evolve)+
qed simp

subsection \<open>Properties\<close>

text \<open>
  C27: A number is issued once and never again. In every state any history of reservations, commitments, releases,
  manual assignments, held blocks and purges reaches, no two values share a text; and every value ever
  issued is still there in every later state with its text, its series and its place, its state having moved
  only towards assignment, voiding or purging: a voided value never returns, a purged number stays spent.
\<close>

theorem number_issued_once:
  assumes "number_start s0" and "number_step\<^sup>*\<^sup>* s0 s" and "number_step\<^sup>*\<^sup>* s s'"
  shows "distinct (map nsFormatted (reservations s')) \<and> evolved (reservations s) (reservations s')"
proof -
  have "numberInv s'" using numbers.reachable_keeps [OF assms(1) rtranclp_trans [OF assms(2,3)]] .
  then show ?thesis using number_steps_evolve [OF assms(3)] by (simp add: numbersOk_def numberTables_def)
qed

definition sampleIssuable :: issuable_rule where
  "sampleIssuable =
     \<lparr>nrSeparator = ''-'', nrSegments = [LITERAL ''SOP'', SEQUENCE (Some 1)], nrResetScope = [NEVER],
      nrReserveOnSubmit = True, nrStrictGapless = False, irId = ''rule'', irKey = ''sop''\<rparr>"

definition sampleConfig :: number_config where
  "sampleConfig =
     \<lparr>ruleShape = (\<lambda>_. Some sampleIssuable), ruleIdForDocumentType = (\<lambda>_. Some ''rule''),
      wallMonth = (\<lambda>_. \<lparr>cYear = 2026, cMonth = 8\<rparr>)\<rparr>"

definition sampleClerk :: request where
  "sampleClerk = \<lparr>userId = Some ''ana'', tenantStatus = Some ACTIVE, now = 1000,
     mkId = (\<lambda>n. CHR ''k'' # replicate n (CHR ''i''))\<rparr>"

definition sampleLedger :: num_state where
  "sampleLedger = \<lparr>trail = [], outbox = [], invalidations = 0, serial = 0, docs = [], revs = [], locks = [],
     files = [], retentionCalls = [], sequences = [], reservations = []\<rparr>"

lemmas sample_number_defs = reserveNumber_def releaseNumber_def voidClaimed_def commitNumber_def writeT_def
  refuseWhenReadOnly_def recordChange_def requireRule_def draw_def claimNext_def upsertSequence_def
  insertReservation_def claimReservation_def markVoided_def reservationById_def findByFormatted_def tx_defs Let_def nextId_def contextFor_def
  dated_def shapeOf_def numbering_rule.truncate_def scopeKeyFor_def formatNumber_def clashesLive_def
  reservationStateOk_def inSeries_def updateWhere_def countWhere_def sampleConfig_def sampleIssuable_def
  sampleClerk_def sampleLedger_def sampleCodes_def

definition sampleReserved :: num_state where
  "sampleReserved =
     (case reserveNumber sampleConfig sampleClerk ''rule'' sampleCodes ''d'' ''w'' sampleLedger of
        Inr (x, s) \<Rightarrow> s | Inl e \<Rightarrow> sampleLedger)"

lemma sample_reserve:
  "\<exists>x. reserveNumber sampleConfig sampleClerk ''rule'' sampleCodes ''d'' ''w'' sampleLedger = Inr (x, sampleReserved)"
  unfolding sampleReserved_def by (simp add: sample_number_defs)

lemma sampleReserved_rows: "map nsState (reservations sampleReserved) = [RESERVED_N]"
  unfolding sampleReserved_def by (simp add: sample_number_defs)

theorem number_issued_once_witness:
  "evolved (reservations sampleLedger) (reservations sampleReserved) \<and> length (reservations sampleReserved) = 1"
proof -
  have "number_step\<^sup>*\<^sup>* sampleLedger sampleReserved" using sample_reserve number_step.reserve by blast
  moreover have "number_start sampleLedger" by (simp add: number_start_def sampleLedger_def)
  ultimately show ?thesis
    using number_issued_once [of sampleLedger sampleLedger sampleReserved] arg_cong [OF sampleReserved_rows, of length] by simp
qed

text \<open>
  C28: A reservation takes a value strictly beyond everything issued in its series, renders it in the tenant's own
  month, and refuses rather than issue a text that exists; it is recorded as reserved for the document and
  its approval.
\<close>

theorem reservation_extends_series:
  assumes inv: "numberInv s" and run: "reserveNumber cfg rq ruleId codes d w s = Inr (x, s')"
  shows "\<exists>rule r. ruleShape cfg ruleId = Some rule \<and> reservations s' = reservations s @ [r] \<and>
     nsState r = RESERVED_N \<and> nsDocument r = Some d \<and> nsInstance r = Some w \<and> nsFormatted r = inFormatted x \<and>
     nsScope r = scopeKeyFor (shapeOf rule) (dated codes (wallMonth cfg (now rq))) \<and>
     nsFormatted r = fst (formatNumber (shapeOf rule) (dated codes (wallMonth cfg (now rq))) (nsValue r)) \<and>
     (\<forall>q \<in> set (reservations s). nsFormatted q \<noteq> nsFormatted r) \<and>
     (\<forall>q \<in> set (reservations s). nsRule q = nsRule r \<and> nsScope q = nsScope r \<longrightarrow> nsValue q < nsValue r)"
proof -
  let ?row = "\<lambda>rule. \<lparr>nsId = inReservationId x, nsRule = irId rule, nsScope = inScopeKey x,
        nsValue = inSequenceValue x, nsFormatted = inFormatted x, nsState = RESERVED_N, nsOrigin = AUTOMATIC,
        nsDocument = Some d, nsInstance = Some w, nsReservedAt = now rq, nsAssignedAt = None,
        nsVoidedAt = None, nsVoidReason = None, nsNote = None\<rparr>"
  obtain rule s1 s2 where rule: "ruleShape cfg ruleId = Some rule" and drawn: "draw cfg rq rule codes s = Inr (x, s1)"
    and ins: "insertReservation (?row rule) s1 = Inr ((), s2)" and s': "reservations s' = reservations s2"
    using run by (auto simp: reserveNumber_def writeT_Inr tx_Inr_simps requireRule_def split: option.splits)
  note spec = draw_spec [OF drawn inv]
  have "reservations s' = reservations s @ [?row rule]"
    using ins s' spec(2) by (simp add: insertReservation_def tx_Inr_simps)
  moreover have "\<forall>q \<in> set (reservations s). nsFormatted q \<noteq> inFormatted x" using spec(5) by (metis imageI)
  ultimately show ?thesis
    using rule spec(6-8) by (intro exI [of _ rule] exI [of _ "?row rule"]) (simp add: contextFor_def)
qed

theorem reservation_extends_series_witness:
  "\<exists>r. reservations sampleReserved = reservations sampleLedger @ [r] \<and> nsDocument r = Some ''d''"
proof -
  have "numberInv sampleLedger" by (simp add: sampleLedger_def numbersOk_def numberTables_def)
  then show ?thesis using sample_reserve reservation_extends_series by blast
qed

end
