(* ===== verification/Document_Number.thy ===== *)
theory Document_Number
  imports Number_Issue Document_Service
begin

text \<open>
  The document's side of numbering: \<open>document-number.service.ts\<close> of
  \<open>src/apps/api/src/modules/document/application\<close>. The codes a document is numbered under, the reservation at
  submission, the assignment at approval, the release of an abandoned reservation, and numbers recorded by
  hand.

  Operations of the document component act on the document part of the larger state and leave the rest
  alone; \<open>onDocs\<close> is that embedding.
\<close>

subsection \<open>Document transactions inside a larger state\<close>

definition onDocs :: "'a dtx \<Rightarrow> ('z doc_state_scheme, 'a) tx" where
  "onDocs m s =
     (case m (doc_state.truncate s) of
        Inl e \<Rightarrow> Inl e
      | Inr (x, d) \<Rightarrow> Inr (x, doc_state.extend d (doc_state.more s)))"

lemma onDocs_Inr:
  "onDocs m s = Inr (x, s') \<longleftrightarrow>
   (\<exists>d. m (doc_state.truncate s) = Inr (x, d) \<and> s' = doc_state.extend d (doc_state.more s))"
  by (auto simp: onDocs_def split: sum.splits)

lemma extend_simps [simp]:
  "docs (doc_state.extend d m) = docs d" "revs (doc_state.extend d m) = revs d"
  "locks (doc_state.extend d m) = locks d" "files (doc_state.extend d m) = files d"
  "trail (doc_state.extend d m) = trail d" "outbox (doc_state.extend d m) = outbox d"
  "serial (doc_state.extend d m) = serial d" "doc_state.more (doc_state.extend d m) = m"
  "doc_state.truncate (doc_state.extend d m) = d"
  by (simp_all add: doc_state.defs)

lemma truncate_simps [simp]:
  "docs (doc_state.truncate s) = docs s" "revs (doc_state.truncate s) = revs s"
  "locks (doc_state.truncate s) = locks s" "files (doc_state.truncate s) = files s"
  "trail (doc_state.truncate s) = trail s" "outbox (doc_state.truncate s) = outbox s"
  "serial (doc_state.truncate s) = serial s"
  by (simp_all add: doc_state.defs)

lemma extend_truncate [simp]: "doc_state.extend (doc_state.truncate s) (doc_state.more s) = s"
  by (simp add: doc_state.defs)

lemma onDocs_leaves_more: "leaves doc_state.more (onDocs m)"
  by (rule leavesI) (auto simp: onDocs_Inr)

lemma onDocs_preserves: "preserves I m \<Longrightarrow> preserves (\<lambda>s. I (doc_state.truncate s)) (onDocs m)"
  by (rule preservesI) (auto simp: onDocs_Inr dest: preservesD)

lemma onDocs_leaves: "leaves t m \<Longrightarrow> leaves (\<lambda>s. t (doc_state.truncate s)) (onDocs m)"
  by (rule leavesI) (auto simp: onDocs_Inr dest: leavesD)

text \<open>A table of the extension is a function of \<open>more\<close>, so the embedding leaves it alone.\<close>

lemma extend_numbers [simp]:
  "sequences (doc_state.extend d (doc_state.more s)) = sequences s"
  "reservations (doc_state.extend d (doc_state.more s)) = reservations s"
  by (cases s; simp add: doc_state.defs)+

lemma onDocs_leaves_numbers [leaves_intros]:
  "leaves sequences (onDocs m :: ('z num_state_scheme, 'a) tx)"
  "leaves reservations (onDocs m :: ('z num_state_scheme, 'a) tx)"
  by (rule leavesI, clarsimp simp: onDocs_Inr)+

subsection \<open>The codes of a document\<close>

record place_node =
  pnId :: ident
  pnType :: string
  pnCode :: string

record number_ports =
  npConfig :: number_config
  npTypeCode :: "ident \<Rightarrow> string option"
  npCategoryCode :: "ident \<Rightarrow> string option"
  npFolderOwner :: "ident \<Rightarrow> (ident \<times> string) option"
  npScopeChain :: "ident \<Rightarrow> string \<Rightarrow> place_node list"
  npBranchCode :: "ident \<Rightarrow> string option"

definition codesFor :: "number_ports \<Rightarrow> document_row \<Rightarrow> numbering_codes" where
  "codesFor p d =
     (let chain = (case npFolderOwner p (dFolderId d) of None \<Rightarrow> [] | Some (i, ty) \<Rightarrow> npScopeChain p i ty);
          nearest = (\<lambda>ty ns. List.find (\<lambda>n. pnType n = ty) ns);
          department = nearest ''DEPARTMENT'' (rev chain)
      in \<lparr>companyCode = map_option pnCode (nearest ''COMPANY'' chain),
          entityCode = map_option pnCode (nearest ''ENTITY'' chain),
          branchCode = Option.bind department (\<lambda>n. npBranchCode p (pnId n)),
          departmentCode = map_option pnCode department,
          documentTypeCode = npTypeCode p (dDocumentTypeId d),
          categoryCode = Option.bind (dCategoryId d) (npCategoryCode p)\<rparr>)"

subsection \<open>Operations\<close>

definition requireNumbering :: "number_ports \<Rightarrow> document_row \<Rightarrow> ('s, numbering_policy) tx" where
  "requireNumbering p d =
     (case policyFor (npConfig p) (dDocumentTypeId d) of
        None \<Rightarrow> throwT (NotFoundError ''The numbering rule for this document'')
      | Some policy \<Rightarrow> returnT policy)"

definition writeNumber :: "document_row \<Rightarrow> string \<Rightarrow> ident \<Rightarrow> nat \<Rightarrow> ('z, unit) ntx" where
  "writeNumber d documentNumber ruleId v =
     bindT (onDocs (assignNumber (dId d) documentNumber)) (\<lambda>written.
     thenT (requireT written (ValidationError ''This document already holds its number, forever.''
              [(''documentNumber'', ''assigned'')]))
     (publishT [Event ''document.number-assigned'' (dId d)
        [(''documentId'', JStr (dId d)), (''documentNumber'', JStr documentNumber),
         (''numberingRuleId'', JStr ruleId), (''sequenceValue'', JStr (showNat v))]]))"

definition reserveForSubmission :: "number_ports \<Rightarrow> request \<Rightarrow> ident \<Rightarrow> ident \<Rightarrow> ('z, string option) ntx" where
  "reserveForSubmission p rq documentId w =
     bindT (onDocs (requireDocument documentId False)) (\<lambda>d.
     if dDocumentNumber d \<noteq> None then returnT None
     else
       (case policyFor (npConfig p) (dDocumentTypeId d) of
          None \<Rightarrow> returnT None
        | Some policy \<Rightarrow>
            if \<not> npReserveOnSubmit policy then returnT None
            else bindT (reserveNumber (npConfig p) rq (npRuleId policy) (codesFor p d) documentId w) (\<lambda>issued.
                 returnT (Some (inFormatted issued)))))"

definition assignAtApproval :: "number_ports \<Rightarrow> request \<Rightarrow> ident \<Rightarrow> ident \<Rightarrow> ('z, string) ntx" where
  "assignAtApproval p rq documentId w =
     bindT (onDocs (requireDocument documentId False)) (\<lambda>d.
     case dDocumentNumber d of
       Some number \<Rightarrow> returnT number
     | None \<Rightarrow>
         bindT (reservationForInstance w) (\<lambda>held.
         bindT (case held of
                  Some issued \<Rightarrow> returnT issued
                | None \<Rightarrow>
                    bindT (requireNumbering p d) (\<lambda>policy.
                    reserveNumber (npConfig p) rq (npRuleId policy) (codesFor p d) documentId w)) (\<lambda>issued.
         bindT (commitNumber rq (inReservationId issued) documentId) (\<lambda>documentNumber.
         thenT (writeNumber d documentNumber (inNumberingRuleId issued) (inSequenceValue issued))
         (returnT documentNumber)))))"

definition voidReservation :: "request \<Rightarrow> ident \<Rightarrow> string \<Rightarrow> ('z, unit) ntx" where
  "voidReservation rq w why =
     bindT (reservationForInstance w) (\<lambda>held.
     case held of
       None \<Rightarrow> returnT ()
     | Some issued \<Rightarrow> releaseNumber rq (inReservationId issued) why)"

definition pendingNumberFor :: "ident \<Rightarrow> ('z, string option) ntx" where
  "pendingNumberFor documentId = readT (getsT (pendingFormattedForDocument documentId))"

definition assignManually :: "number_ports \<Rightarrow> request \<Rightarrow> ident \<Rightarrow> string \<Rightarrow> ('z, string) ntx" where
  "assignManually p rq documentId requested =
     readT (bindT (onDocs (requireDocument documentId False)) (\<lambda>d.
     case dDocumentNumber d of
       Some number \<Rightarrow> throwT (ValidationError ''This document already holds its number, forever.''
                          [(''documentNumber'', number)])
     | None \<Rightarrow>
         thenT (requireT (dStatus d \<noteq> SUBMITTED \<and> dStatus d \<noteq> UNDER_REVIEW)
                  (ValidationError ''A document in approval is numbered by its approval.''
                     [(''status'', statusName (dStatus d))]))
         (bindT (requireNumbering p d) (\<lambda>policy.
          bindT (assignManual (npConfig p) rq (npRuleId policy) (codesFor p d) documentId requested MANUAL) (\<lambda>issued.
          thenT (writeNumber d (inFormatted issued) (inNumberingRuleId issued) (inSequenceValue issued))
          (returnT (inFormatted issued)))))))"

subsection \<open>Facts\<close>

lemma requireDocument_found_iff: "requireDocument i b s = Inr (d, s') \<longleftrightarrow> findById i b s = Some d \<and> s' = s"
  by (auto simp: requireDocument_def tx_Inr_simps split: option.splits)

lemma onDocs_requireDocument [simp]:
  "onDocs (requireDocument i b) s = Inr (d, s') \<longleftrightarrow> findById i b (doc_state.truncate s) = Some d \<and> s' = s"
  by (auto simp: onDocs_Inr requireDocument_found_iff)

lemma numberInv_onDocs: "preserves numberInv (onDocs m)"
  by (rule preservesI) (auto simp: numberTables_def onDocs_Inr)

lemma numberInv_publish: "preserves numberInv (publishT es)"
  by (rule preservesI) simp

lemma numberInv_document_number:
  "preserves numberInv (reserveForSubmission p rq i w)" "preserves numberInv (assignAtApproval p rq i w)"
  "preserves numberInv (voidReservation rq w why)" "preserves numberInv (assignManually p rq i requested)"
  unfolding reserveForSubmission_def assignAtApproval_def voidReservation_def assignManually_def writeNumber_def
    requireNumbering_def reservationForInstance_def
  by (intro preserves_intros numberInv_onDocs numberInv_publish numberInv_reserve numberInv_commit numberInv_release
      numberInv_assignManual)+

lemma evolves_document_number:
  "preserves (evolvesFrom rs) (reserveForSubmission p rq i w)" "preserves (evolvesFrom rs) (assignAtApproval p rq i w)"
  "preserves (evolvesFrom rs) (voidReservation rq w why)" "preserves (evolvesFrom rs) (assignManually p rq i requested)"
  unfolding reserveForSubmission_def assignAtApproval_def voidReservation_def assignManually_def writeNumber_def
    requireNumbering_def reservationForInstance_def
  by (intro preserves_intros evolves_operations evolves_leaves onDocs_leaves_numbers
      leaves_aside(2) [OF aside_reservations])+

lemma assignNumber_found:
  assumes "assignNumber i n s = Inr (True, s')" and "findById i False s = Some d" and "dDocumentNumber d = None"
  shows "\<exists>d'. findById i False s' = Some d' \<and> dDocumentNumber d' = Some n"
proof -
  let ?hit = "\<lambda>d. dId d = i \<and> dDocumentNumber d = None \<and> dDeletedAt d = None"
  let ?f = "\<lambda>d. d\<lparr>dDocumentNumber := Some n, dVersion := dVersion d + 1\<rparr>"
  have s': "docs s' = updateWhere ?hit ?f (docs s)"
    using assms(1) by (auto simp: assignNumber_def tx_Inr_simps Let_def)
  have "List.find (\<lambda>d. dId d = i \<and> dDeletedAt d = None) (updateWhere ?hit ?f (docs s))
      = map_option (\<lambda>d. if ?hit d then ?f d else d) (List.find (\<lambda>d. dId d = i \<and> dDeletedAt d = None) (docs s))"
    by (rule find_updateWhere) simp
  then show ?thesis using assms(2,3) s' by (auto simp: findById_def dest: find_Some_mem)
qed

lemma writeNumber_written:
  assumes "writeNumber d n ruleId v s = Inr (u, s')"
  obtains s2 where "assignNumber (dId d) n (doc_state.truncate s) = Inr (True, s2)" and "docs s' = docs s2"
    and "sequences s' = sequences s" and "reservations s' = reservations s"
  using assms by (auto simp: writeNumber_def tx_Inr_simps onDocs_Inr)

lemma reservationById_unique:
  assumes "numberInv s" and "r \<in> set (reservations s)"
  shows "reservationById (nsId r) s = Some r"
proof -
  obtain q where q: "reservationById (nsId r) s = Some q"
    using assms(2) by (cases "reservationById (nsId r) s") (auto simp: reservationById_def find_None_iff_all)
  then have "q \<in> set (reservations s)" "nsId q = nsId r" by (auto simp: reservationById_def dest: find_Some_mem)
  then have "q = r" using distinct_map_eq [of nsId "reservations s"] assms by (auto simp: numbersOk_def numberTables_def)
  then show ?thesis using q by simp
qed

lemma commitNumber_committed:
  assumes inv: "numberInv s" and r: "r \<in> set (reservations s)" "nsState r = RESERVED_N"
    and run: "commitNumber rq (nsId r) i s = Inr (n, s')"
  shows "n = nsFormatted r" and "sequences s' = sequences s" and "doc_state.docs s' = docs s"
    and "r\<lparr>nsState := ASSIGNED_N, nsDocument := Some i, nsAssignedAt := Some (now rq)\<rparr> \<in> set (reservations s')"
  using run reservationById_unique [OF inv r(1)] r
  by (auto simp: commitNumber_def writeT_Inr tx_Inr_simps markAssigned_def claimReservation_def Let_def
      set_updateWhere image_iff intro!: bexI [of _ r])


definition sampleNumberPorts :: number_ports where
  "sampleNumberPorts = \<lparr>npConfig = sampleConfig, npTypeCode = (\<lambda>_. None), npCategoryCode = (\<lambda>_. None),
     npFolderOwner = (\<lambda>_. None), npScopeChain = (\<lambda>_ _. []), npBranchCode = (\<lambda>_. None)\<rparr>"

definition sampleDraft :: document_row where
  "sampleDraft = \<lparr>dId = ''d'', dFolderId = ''qa'', dDocumentTypeId = ''sop'', dCategoryId = None,
     dConfidentialityId = ''open'', dRetentionPolicyId = None, dTitle = ''Procedure'', dDescription = None,
     dOrigin = ''UPLOAD'', dOwnerUserId = ''ana'', dStatus = DRAFT, dDocumentNumber = None,
     dLatestRevisionId = Some ''r'', dCurrentRevisionId = None, dMetadata = [], dVersion = 1, dDeletedAt = None,
     dDeleteReason = None, dDeleteCascadeId = None\<rparr>"

definition sampleNumbered :: num_state where
  "sampleNumbered = sampleReserved\<lparr>docs := [sampleDraft]\<rparr>"

lemma sample_assign:
  "\<exists>n s'. assignAtApproval sampleNumberPorts sampleClerk ''d'' ''w'' sampleNumbered = Inr (n, s')"
  unfolding sampleNumbered_def sampleReserved_def
  by (simp add: sample_number_defs assignAtApproval_def reservationForInstance_def liveReservationFor_def
      toIssued_def writeNumber_def markAssigned_def onDocs_def requireDocument_def findById_def assignNumber_def
      doc_state.defs publishT_def sampleDraft_def)


end
