(* ===== verification/Stage_Completion.thy ===== *)
theory Stage_Completion
  imports Prelude
begin

text \<open>
  When a stage of an approval is finished, and which stages apply: \<open>completion.ts\<close> and \<open>conditions.ts\<close> of
  \<open>src/apps/api/src/modules/workflow/domain\<close>, with the enumerations of
  \<open>src/packages/domain/src/enums/workflow.ts\<close>.

  The record of a task has the three fields the rule reads; the engine's task record extends it, as the
  interface does in the code. The completion rule of a stored stage is a text column, so a rule outside the
  vocabulary is a value of the model too. Counts are integers; the number type of the language is exact on
  them. Facts and condition values that are numbers are integers, as the ranks and ordinals the document
  module supplies are.
\<close>

subsection \<open>Vocabulary\<close>

datatype completion_rule = RuleALL | RuleANY | RuleQUORUM | RulePERCENT | RuleOther string

datatype task_phase = TaskPENDING | TaskDECIDED | TaskWITHDRAWN | TaskSUPERSEDED

datatype task_decision = DecAPPROVED | DecREJECTED | DecCHANGES

datatype stage_outcome = OutPENDING | OutAPPROVED | OutREJECTED | OutCHANGES | OutUNREACHABLE

record task_view =
  taState :: task_phase
  taDecision :: "task_decision option"
  taSequence :: int

record stage_rule =
  srRule :: completion_rule
  srThreshold :: "int option"

subsection \<open>Completion\<close>

text \<open>\<open>Math.ceil\<close> of a quotient by one hundred.\<close>

definition ceilHundredth :: "int \<Rightarrow> int" where
  "ceilHundredth n = - ((- n) div 100)"

definition approvalsRequired :: "stage_rule \<Rightarrow> int \<Rightarrow> int" where
  "approvalsRequired rule taskCount =
     (case srRule rule of
        RuleALL \<Rightarrow> taskCount
      | RuleANY \<Rightarrow> min 1 taskCount
      | RuleQUORUM \<Rightarrow> min (case srThreshold rule of None \<Rightarrow> taskCount | Some t \<Rightarrow> t) taskCount
      | RulePERCENT \<Rightarrow> min (ceilHundredth (taskCount * (case srThreshold rule of None \<Rightarrow> 100 | Some t \<Rightarrow> t))) taskCount
      | RuleOther _ \<Rightarrow> taskCount)"

definition countTasks :: "('z task_view_scheme \<Rightarrow> bool) \<Rightarrow> 'z task_view_scheme list \<Rightarrow> int" where
  "countTasks P ts = int (length (filter P ts))"

definition isAvailable :: "'z task_view_scheme \<Rightarrow> bool" where
  "isAvailable t \<longleftrightarrow> taDecision t = None \<and> taState t = TaskPENDING"

definition populationOf :: "stage_rule \<Rightarrow> 'z task_view_scheme list \<Rightarrow> int" where
  "populationOf rule ts =
     (if srRule rule = RuleQUORUM then int (length ts)
      else countTasks (\<lambda>t. taState t \<noteq> TaskWITHDRAWN) ts)"

definition evaluateStage :: "stage_rule \<Rightarrow> 'z task_view_scheme list \<Rightarrow> stage_outcome" where
  "evaluateStage rule ts =
     (if ts = [] then OutPENDING
      else if List.find (\<lambda>t. taDecision t = Some DecREJECTED) ts \<noteq> None then OutREJECTED
      else if List.find (\<lambda>t. taDecision t = Some DecCHANGES) ts \<noteq> None then OutCHANGES
      else
        (let approved = countTasks (\<lambda>t. taDecision t = Some DecAPPROVED) ts;
             population = populationOf rule ts
         in if population = 0 then OutUNREACHABLE
            else
              (let required = approvalsRequired rule population
               in if approved \<ge> required then OutAPPROVED
                  else
                    (let available = countTasks isAvailable ts
                     in if approved + available < required then OutUNREACHABLE else OutPENDING))))"

definition actionableTasks :: "bool \<Rightarrow> 'z task_view_scheme list \<Rightarrow> 'z task_view_scheme list" where
  "actionableTasks ordered ts =
     (let pending = filter isAvailable ts
      in if \<not> ordered \<or> pending = [] then pending
         else
           (let first = Min (set (map taSequence pending))
            in filter (\<lambda>t. taSequence t = first) pending))"

subsection \<open>Conditions\<close>

datatype fact_value = FStr string | FNum int | FBool bool | FList "string list" | FNull

datatype condition_operator =
    EQUALS | NOT_EQUALS | GREATER_THAN | GREATER_OR_EQUAL | LESS_THAN | LESS_OR_EQUAL | IN_LIST | CONTAINS
  | OtherOperator string

record stage_condition =
  cdField :: string
  cdOp :: condition_operator
  cdValue :: fact_value

type_synonym document_facts = "string \<Rightarrow> fact_value option"

fun toList :: "fact_value \<Rightarrow> string list option" where
  "toList (FList xs) = Some xs"
| "toList _ = None"

definition sameMembers :: "string list \<Rightarrow> string list \<Rightarrow> bool" where
  "sameMembers left right \<longleftrightarrow> length left = length right \<and> list_all (\<lambda>m. m \<in> set right) left"

definition isList :: "fact_value \<Rightarrow> bool" where
  "isList v \<longleftrightarrow> toList v \<noteq> None"

definition equalsFact :: "fact_value \<Rightarrow> fact_value \<Rightarrow> bool" where
  "equalsFact actual expected =
     (if isList actual \<or> isList expected
      then (case (toList actual, toList expected) of
              (Some left, Some right) \<Rightarrow> sameMembers left right
            | _ \<Rightarrow> False)
      else actual = expected)"

definition compareFact :: "fact_value \<Rightarrow> fact_value \<Rightarrow> (int \<Rightarrow> int \<Rightarrow> bool) \<Rightarrow> bool" where
  "compareFact actual expected ordered =
     (case (actual, expected) of (FNum a, FNum b) \<Rightarrow> ordered a b | _ \<Rightarrow> False)"

text \<open>\<open>String(value)\<close>.\<close>

fun stringOf :: "fact_value \<Rightarrow> string" where
  "stringOf (FStr t) = t"
| "stringOf (FNum n) = showInt n"
| "stringOf (FBool b) = (if b then ''true'' else ''false'')"
| "stringOf (FList xs) = joinStr '','' xs"
| "stringOf FNull = ''null''"

definition isInFact :: "fact_value \<Rightarrow> fact_value \<Rightarrow> bool" where
  "isInFact actual expected =
     (case toList expected of
        None \<Rightarrow> False
      | Some options \<Rightarrow>
          (case actual of
             FNull \<Rightarrow> False
           | FList members \<Rightarrow> list_ex (\<lambda>m. m \<in> set options) members
           | _ \<Rightarrow> stringOf actual \<in> set options))"

definition containsFact :: "fact_value \<Rightarrow> fact_value \<Rightarrow> bool" where
  "containsFact actual expected =
     (case actual of
        FList members \<Rightarrow> stringOf expected \<in> set members
      | FStr text \<Rightarrow> (case expected of FStr part \<Rightarrow> includesStr text part | _ \<Rightarrow> False)
      | _ \<Rightarrow> False)"

definition evaluateCondition :: "stage_condition \<Rightarrow> document_facts \<Rightarrow> bool" where
  "evaluateCondition c facts =
     (case facts (cdField c) of
        None \<Rightarrow> False
      | Some actual \<Rightarrow>
          (case cdOp c of
             EQUALS \<Rightarrow> equalsFact actual (cdValue c)
           | NOT_EQUALS \<Rightarrow> actual \<noteq> FNull \<and> \<not> equalsFact actual (cdValue c)
           | GREATER_THAN \<Rightarrow> compareFact actual (cdValue c) (\<lambda>a b. a > b)
           | GREATER_OR_EQUAL \<Rightarrow> compareFact actual (cdValue c) (\<lambda>a b. a \<ge> b)
           | LESS_THAN \<Rightarrow> compareFact actual (cdValue c) (\<lambda>a b. a < b)
           | LESS_OR_EQUAL \<Rightarrow> compareFact actual (cdValue c) (\<lambda>a b. a \<le> b)
           | IN_LIST \<Rightarrow> isInFact actual (cdValue c)
           | CONTAINS \<Rightarrow> containsFact actual (cdValue c)
           | OtherOperator _ \<Rightarrow> False))"

subsection \<open>How many approvals\<close>

lemma ceilHundredth_least: "ceilHundredth n \<le> k \<longleftrightarrow> n \<le> 100 * k"
proof -
  define q where "q = (- n) div 100"
  define m where "m = (- n) mod 100"
  have "- n = 100 * q + m" and "0 \<le> m" and "m < 100" by (simp_all add: q_def m_def)
  then show ?thesis unfolding ceilHundredth_def q_def [symmetric] by linarith
qed

text \<open>
  C31: A stage asks for at least one approval and never for more than there are tasks, whatever its rule and threshold;
  a percentage asks for the least number of approvals that reaches the share.
\<close>

theorem approvals_required_bounds:
  assumes "n \<ge> 1" and "\<forall>t. srThreshold rule = Some t \<longrightarrow> t \<ge> 1"
  shows "1 \<le> approvalsRequired rule n \<and> approvalsRequired rule n \<le> n \<and>
    (\<forall>t k. srRule rule = RulePERCENT \<and> srThreshold rule = Some t \<and> t \<le> 100 \<longrightarrow>
       (approvalsRequired rule n \<le> k \<longleftrightarrow> n * t \<le> 100 * k))"
proof -
  let ?t = "case srThreshold rule of None \<Rightarrow> 100 | Some t \<Rightarrow> t"
  have t: "1 \<le> ?t" using assms(2) by (auto split: option.splits)
  have share: "1 \<le> ceilHundredth (n * ?t)"
  proof (rule ccontr)
    assume "\<not> 1 \<le> ceilHundredth (n * ?t)"
    then have "n * ?t \<le> 0" using ceilHundredth_least [of "n * ?t" 0] by simp
    moreover have "1 \<le> n * ?t" using assms(1) t by (metis mult_mono' mult_1 zero_le_one order_trans)
    ultimately show False by simp
  qed
  have "1 \<le> approvalsRequired rule n \<and> approvalsRequired rule n \<le> n"
    using assms share by (auto simp: approvalsRequired_def split: completion_rule.splits option.splits)
  moreover have "approvalsRequired rule n \<le> k \<longleftrightarrow> n * t \<le> 100 * k"
    if r: "srRule rule = RulePERCENT" "srThreshold rule = Some t" "t \<le> 100" for t k
  proof -
    have "ceilHundredth (n * t) \<le> n" using r(3) assms(1) by (simp add: ceilHundredth_least mult_mono mult.commute)
    then show ?thesis using r by (simp add: approvalsRequired_def min_def ceilHundredth_least)
  qed
  ultimately show ?thesis by blast
qed

theorem approvals_required_bounds_witness:
  "(1::int) \<le> approvalsRequired \<lparr>srRule = RulePERCENT, srThreshold = Some 50\<rparr> 3 \<and>
   approvalsRequired \<lparr>srRule = RulePERCENT, srThreshold = Some 50\<rparr> 3 \<le> 3"
  using approvals_required_bounds [of 3 "\<lparr>srRule = RulePERCENT, srThreshold = Some 50\<rparr>"] by simp

subsection \<open>What further decisions can still do\<close>

definition decidesMore :: "'z task_view_scheme list \<Rightarrow> 'z task_view_scheme list \<Rightarrow> bool" where
  "decidesMore =
     list_all2 (\<lambda>t t'. t' = t \<or> isAvailable t \<and> (\<exists>d. t' = t\<lparr>taState := TaskDECIDED, taDecision := Some d\<rparr>))"

lemma decidesMore_counts:
  assumes "decidesMore ts ts'"
  shows "populationOf rule ts' = populationOf rule ts"
    and "countTasks (\<lambda>t. taDecision t = Some DecAPPROVED) ts'
           \<le> countTasks (\<lambda>t. taDecision t = Some DecAPPROVED) ts + countTasks isAvailable ts"
proof -
  have len: "length ts' = length ts" using assms by (simp add: decidesMore_def list_all2_lengthD)
  have "countTasks (\<lambda>t. taState t \<noteq> TaskWITHDRAWN) ts' = countTasks (\<lambda>t. taState t \<noteq> TaskWITHDRAWN) ts"
    using assms unfolding decidesMore_def
    by (induction rule: list_all2_induct) (auto simp: countTasks_def isAvailable_def)
  then show "populationOf rule ts' = populationOf rule ts" by (simp add: populationOf_def len)
  show "countTasks (\<lambda>t. taDecision t = Some DecAPPROVED) ts'
      \<le> countTasks (\<lambda>t. taDecision t = Some DecAPPROVED) ts + countTasks isAvailable ts"
    using assms unfolding decidesMore_def
    by (induction rule: list_all2_induct) (auto simp: countTasks_def isAvailable_def)
qed

lemma decidesMore_keeps:
  assumes "decidesMore ts ts'" and "t \<in> set ts" and "taDecision t = Some d"
  shows "\<exists>t' \<in> set ts'. taDecision t' = Some d"
proof -
  obtain i where i: "i < length ts" "ts ! i = t" using assms(2) by (auto simp: in_set_conv_nth)
  have "ts' ! i = t" using assms(1,3) i by (auto simp: decidesMore_def list_all2_conv_all_nth isAvailable_def)
  moreover have "i < length ts'" using i assms(1) by (simp add: decidesMore_def list_all2_lengthD)
  ultimately show ?thesis using assms(3) nth_mem [of i ts'] by auto
qed

definition approveAll :: "'z task_view_scheme list \<Rightarrow> 'z task_view_scheme list" where
  "approveAll = map (\<lambda>t. if isAvailable t then t\<lparr>taState := TaskDECIDED, taDecision := Some DecAPPROVED\<rparr> else t)"

lemma approveAll_decides: "decidesMore ts (approveAll ts)"
  by (auto simp: decidesMore_def approveAll_def list_all2_conv_all_nth)

lemma approveAll_count:
  "countTasks (\<lambda>t. taDecision t = Some DecAPPROVED) (approveAll ts)
     = countTasks (\<lambda>t. taDecision t = Some DecAPPROVED) ts + countTasks isAvailable ts"
  by (induction ts) (auto simp: approveAll_def countTasks_def isAvailable_def)

lemma approveAll_refusals:
  "d \<noteq> DecAPPROVED \<Longrightarrow> List.find (\<lambda>t. taDecision t = Some d) (approveAll ts) = None \<longleftrightarrow>
     List.find (\<lambda>t. taDecision t = Some d) ts = None"
  by (auto simp: find_None_iff_all approveAll_def isAvailable_def)

lemma countTasks_nonneg: "0 \<le> countTasks P ts"
  by (simp add: countTasks_def)

lemma approveAll_Nil_iff: "approveAll ts = [] \<longleftrightarrow> ts = []"
  by (simp add: approveAll_def)

text \<open>
  C30: The stage outcome is right about the future: a stage that has tasks is reported approved or still pending exactly
  when some decisions on its open tasks lead to approval. A stage reported rejected, returned or unreachable
  can not be approved by anything anybody may still decide, and one reported pending always can.
\<close>

theorem outcome_decides_reachability:
  assumes "ts \<noteq> []"
  shows "evaluateStage rule ts \<in> {OutAPPROVED, OutPENDING} \<longleftrightarrow>
    (\<exists>ts'. decidesMore ts ts' \<and> evaluateStage rule ts' = OutAPPROVED)"
proof
  assume live: "evaluateStage rule ts \<in> {OutAPPROVED, OutPENDING}"
  have "evaluateStage rule (approveAll ts) = OutAPPROVED"
    using live assms approveAll_count [of ts] decidesMore_counts(1) [OF approveAll_decides, of rule ts]
      countTasks_nonneg [of isAvailable ts]
    by (auto simp: evaluateStage_def approveAll_refusals approveAll_Nil_iff Let_def split: if_splits)
  then show "\<exists>ts'. decidesMore ts ts' \<and> evaluateStage rule ts' = OutAPPROVED" using approveAll_decides by blast
next
  assume "\<exists>ts'. decidesMore ts ts' \<and> evaluateStage rule ts' = OutAPPROVED"
  then obtain ts' where more: "decidesMore ts ts'" and app: "evaluateStage rule ts' = OutAPPROVED" by blast
  have refusals: "List.find (\<lambda>t. taDecision t = Some d) ts = None" if "d \<noteq> DecAPPROVED" for d
  proof (rule ccontr)
    assume "List.find (\<lambda>t. taDecision t = Some d) ts \<noteq> None"
    then obtain t where "t \<in> set ts" "taDecision t = Some d" by (auto simp: find_None_iff_all)
    then have "\<exists>t' \<in> set ts'. taDecision t' = Some d" by (rule decidesMore_keeps [OF more])
    then have "List.find (\<lambda>t. taDecision t = Some d) ts' \<noteq> None" by (auto simp: find_None_iff_all)
    then show False using app that by (cases d) (auto simp: evaluateStage_def split: if_splits)
  qed
  show "evaluateStage rule ts \<in> {OutAPPROVED, OutPENDING}"
    using app assms refusals [of DecREJECTED] refusals [of DecCHANGES] decidesMore_counts(2) [OF more]
      decidesMore_counts(1) [OF more, of rule]
    by (auto simp: evaluateStage_def Let_def split: if_splits)
qed

theorem outcome_decides_reachability_witness:
  "evaluateStage \<lparr>srRule = RuleANY, srThreshold = None\<rparr> [\<lparr>taState = TaskPENDING, taDecision = None, taSequence = 0\<rparr>]
     \<in> {OutAPPROVED, OutPENDING}"
  using outcome_decides_reachability [of "[\<lparr>taState = TaskPENDING, taDecision = None, taSequence = 0\<rparr>]"
      "\<lparr>srRule = RuleANY, srThreshold = None\<rparr>"]
  by (simp add: evaluateStage_def populationOf_def countTasks_def isAvailable_def approvalsRequired_def)

subsection \<open>Who may decide\<close>

lemma actionable_available: "t \<in> set (actionableTasks ordered ts) \<Longrightarrow> t \<in> set ts \<and> isAvailable t"
  by (auto simp: actionableTasks_def Let_def split: if_splits)

lemma actionable_progress:
  assumes "t \<in> set ts" and "isAvailable t"
  shows "actionableTasks ordered ts \<noteq> []"
proof -
  let ?pending = "filter isAvailable ts"
  have "?pending \<noteq> []" using assms by (auto simp: filter_empty_conv)
  then have "Min (taSequence ` set ?pending) \<in> taSequence ` set ?pending"
    by (intro Min_in finite_imageI List.finite_set) (simp only: image_is_empty set_empty not_False_eq_True)
  then show ?thesis using assms by (auto simp: actionableTasks_def Let_def filter_empty_conv)
qed

lemma actionable_earliest:
  assumes "t \<in> set (actionableTasks True ts)" and "u \<in> set ts" and "isAvailable u"
  shows "taSequence t \<le> taSequence u"
proof -
  have "Min (taSequence ` {x \<in> set ts. isAvailable x}) \<le> taSequence u" using assms by (intro Min_le) auto
  then show ?thesis using assms by (auto simp: actionableTasks_def Let_def split: if_splits)
qed

subsection \<open>Facts about conditions\<close>

lemma condition_needs_fact: "facts (cdField c) = None \<Longrightarrow> \<not> evaluateCondition c facts"
  by (simp add: evaluateCondition_def)

lemma null_fact_never_equal:
  assumes "facts f = Some FNull" and "v \<noteq> FNull"
  shows "\<not> evaluateCondition \<lparr>cdField = f, cdOp = EQUALS, cdValue = v\<rparr> facts"
    and "\<not> evaluateCondition \<lparr>cdField = f, cdOp = NOT_EQUALS, cdValue = v\<rparr> facts"
  using assms by (auto simp: evaluateCondition_def equalsFact_def isList_def split: option.splits)

text \<open>
  The list equality is not the equality of members the comment promises: repeated members on the left are
  counted, so a list can equal one with other members, and the comparison is not symmetric.
\<close>

lemma same_members_not_symmetric:
  "equalsFact (FList [''a'', ''a'']) (FList [''a'', ''b''])"
  "\<not> equalsFact (FList [''a'', ''b'']) (FList [''a'', ''a''])"
  by (simp_all add: equalsFact_def isList_def sameMembers_def)

lemma same_members_distinct:
  assumes "distinct xs" and "distinct ys"
  shows "equalsFact (FList xs) (FList ys) \<longleftrightarrow> set xs = set ys"
proof
  assume "equalsFact (FList xs) (FList ys)"
  then have "length xs = length ys" "set xs \<subseteq> set ys"
    by (auto simp: equalsFact_def isList_def sameMembers_def list_all_iff)
  then show "set xs = set ys" using assms by (metis List.finite_set card_subset_eq distinct_card)
next
  assume eq: "set xs = set ys"
  then have "length xs = length ys" using distinct_card [OF assms(1)] distinct_card [OF assms(2)] by simp
  then show "equalsFact (FList xs) (FList ys)" using eq by (simp add: equalsFact_def isList_def sameMembers_def list_all_iff)
qed

end
