(* ===== verification/Participant_Resolver.thy ===== *)
theory Participant_Resolver
  imports Stage_Completion Lifecycle
begin

text \<open>
  Who a stage asks: \<open>participant-resolver.ts\<close> of \<open>src/apps/api/src/modules/workflow/application\<close>, with the
  participant vocabulary of \<open>src/packages/contracts/src/admin/workflow.ts\<close> and
  \<open>src/packages/domain/src/enums/workflow.ts\<close>, and the context of a document the engine is handed
  (\<open>ports.ts\<close>).

  The directory answers from the identity and administration tables at the moment it is asked; its five
  questions are a parameter. The quotation marks around a stage's name in the refusal are written as plain
  double quotes.
\<close>

subsection \<open>Vocabulary\<close>

datatype participant_scope = ScopeTENANT | ScopeENTITY | ScopeDEPARTMENT

datatype manager_of_subject = OfAUTHOR | OfOWNER | OfASSIGNEE | OfPREVIOUS_APPROVER

datatype participant =
    ByUSER ident
  | ByROLE string participant_scope
  | ByDEPARTMENT ident bool
  | ByMANAGER_OF manager_of_subject
  | ByGROUP string
  | ByDOCUMENT_FIELD string
  | ByOWNER
  | ByUnknown

record role_scope =
  rsKind :: string
  rsNodeId :: "ident option"

record approval_context =
  cxDocumentId :: ident
  cxStatus :: document_status
  cxWorkflowDefinitionId :: "ident option"
  cxOwnerUserId :: ident
  cxAuthorUserId :: "ident option"
  cxLatestRevisionId :: "ident option"
  cxEntityId :: "ident option"
  cxDepartmentId :: "ident option"
  cxUserFields :: "string \<Rightarrow> ident option"
  cxFacts :: document_facts

record directory =
  holdersOfRole :: "string \<Rightarrow> role_scope \<Rightarrow> ident list"
  membersOfDepartment :: "ident \<Rightarrow> bool \<Rightarrow> ident list"
  managersOfUser :: "ident \<Rightarrow> ident list"
  membersOfGroup :: "string \<Rightarrow> ident list"
  activeAmong :: "ident list \<Rightarrow> ident list"

record resolved_participant =
  rpUserId :: ident
  rpResolvedBy :: string

subsection \<open>Resolution\<close>

fun scopeName :: "participant_scope \<Rightarrow> string" where
  "scopeName ScopeTENANT = ''TENANT''"
| "scopeName ScopeENTITY = ''DOCUMENT_ENTITY''"
| "scopeName ScopeDEPARTMENT = ''DOCUMENT_DEPARTMENT''"

fun subjectName :: "manager_of_subject \<Rightarrow> string" where
  "subjectName OfAUTHOR = ''AUTHOR''"
| "subjectName OfOWNER = ''OWNER''"
| "subjectName OfASSIGNEE = ''ASSIGNEE''"
| "subjectName OfPREVIOUS_APPROVER = ''PREVIOUS_APPROVER''"

fun describe :: "participant \<Rightarrow> string" where
  "describe (ByUSER u) = ''USER:'' @ u"
| "describe (ByROLE key scope) = ''ROLE:'' @ key @ ''@'' @ scopeName scope"
| "describe (ByDEPARTMENT d managersOnly) = ''DEPARTMENT:'' @ d @ (if managersOnly then '':managers'' else '''')"
| "describe (ByMANAGER_OF subject) = ''MANAGER_OF:'' @ subjectName subject"
| "describe (ByGROUP key) = ''GROUP:'' @ key"
| "describe (ByDOCUMENT_FIELD key) = ''DOCUMENT_FIELD:'' @ key"
| "describe ByOWNER = ''OWNER''"
| "describe ByUnknown = ''UNKNOWN''"

fun scopeFor :: "participant_scope \<Rightarrow> approval_context \<Rightarrow> role_scope" where
  "scopeFor ScopeENTITY cx = \<lparr>rsKind = ''ENTITY'', rsNodeId = cxEntityId cx\<rparr>"
| "scopeFor ScopeDEPARTMENT cx = \<lparr>rsKind = ''DEPARTMENT'', rsNodeId = cxDepartmentId cx\<rparr>"
| "scopeFor ScopeTENANT cx = \<lparr>rsKind = ''TENANT'', rsNodeId = None\<rparr>"

definition authorOrOwner :: "approval_context \<Rightarrow> ident" where
  "authorOrOwner cx = (case cxAuthorUserId cx of None \<Rightarrow> cxOwnerUserId cx | Some u \<Rightarrow> u)"

definition managersOf :: "directory \<Rightarrow> manager_of_subject \<Rightarrow> approval_context \<Rightarrow> ident list \<Rightarrow> ident list" where
  "managersOf dir subject cx previousApprovers =
     (let who =
        (case subject of
           OfAUTHOR \<Rightarrow> Some (authorOrOwner cx)
         | OfOWNER \<Rightarrow> Some (cxOwnerUserId cx)
         | OfPREVIOUS_APPROVER \<Rightarrow> (if previousApprovers = [] then None else Some (last previousApprovers))
         | OfASSIGNEE \<Rightarrow> Some (authorOrOwner cx))
      in case who of None \<Rightarrow> [] | Some u \<Rightarrow> managersOfUser dir u)"

definition resolveParticipant :: "directory \<Rightarrow> approval_context \<Rightarrow> ident list \<Rightarrow> participant \<Rightarrow> ident list" where
  "resolveParticipant dir cx previousApprovers p =
     (case p of
        ByUSER u \<Rightarrow> [u]
      | ByOWNER \<Rightarrow> [cxOwnerUserId cx]
      | ByROLE key scope \<Rightarrow> holdersOfRole dir key (scopeFor scope cx)
      | ByDEPARTMENT d managersOnly \<Rightarrow> membersOfDepartment dir d managersOnly
      | ByGROUP key \<Rightarrow> membersOfGroup dir key
      | ByDOCUMENT_FIELD key \<Rightarrow> (case cxUserFields cx key of None \<Rightarrow> [] | Some u \<Rightarrow> [u])
      | ByMANAGER_OF subject \<Rightarrow> managersOf dir subject cx previousApprovers
      | ByUnknown \<Rightarrow> [])"

text \<open>The body of the loop: the people one resolver adds that no earlier one named.\<close>

fun addFresh :: "string \<Rightarrow> ident list \<Rightarrow> resolved_participant list \<Rightarrow> resolved_participant list" where
  "addFresh by [] acc = acc"
| "addFresh by (u # us) acc =
     (if u \<in> set (map rpUserId acc) then addFresh by us acc
      else addFresh by us (acc @ [\<lparr>rpUserId = u, rpResolvedBy = by\<rparr>]))"

fun collectResolved ::
  "directory \<Rightarrow> approval_context \<Rightarrow> ident list \<Rightarrow> participant list
   \<Rightarrow> resolved_participant list \<times> string list \<Rightarrow> resolved_participant list \<times> string list" where
  "collectResolved dir cx previousApprovers [] acc = acc"
| "collectResolved dir cx previousApprovers (p # ps) (resolved, none) =
     (let found = resolveParticipant dir cx previousApprovers p
      in if found = [] then collectResolved dir cx previousApprovers ps (resolved, none @ [describe p])
         else collectResolved dir cx previousApprovers ps (addFresh (describe p) found resolved, none))"

definition resolveParticipants ::
  "directory \<Rightarrow> participant list \<Rightarrow> approval_context \<Rightarrow> string \<Rightarrow> ident list \<Rightarrow> resolved_participant list result" where
  "resolveParticipants dir participants cx stageName previousApprovers =
     (let (resolved, none) = collectResolved dir cx previousApprovers participants ([], []);
          active = activeAmong dir (map rpUserId resolved);
          live = filter (\<lambda>e. rpUserId e \<in> set active) resolved
      in if live = []
         then Inl (ValidationError
                (''No one could be found to approve \"'' @ stageName @ ''\". The workflow cannot start until somebody can.'')
                [(''participants'',
                  if none \<noteq> [] then ''These resolved to nobody: '' @ joinStr '', '' none @ ''.''
                  else ''Everybody they resolved to is inactive.'')])
         else Inr live)"

subsection \<open>Facts about resolution\<close>

text \<open>The first occurrence of each name, in order.\<close>

fun firstSeen :: "'a list \<Rightarrow> 'a list \<Rightarrow> 'a list" where
  "firstSeen seen [] = []"
| "firstSeen seen (x # xs) = (if x \<in> set seen then firstSeen seen xs else x # firstSeen (seen @ [x]) xs)"



lemma firstSeen_append: "firstSeen seen (xs @ ys) = firstSeen seen xs @ firstSeen (seen @ firstSeen seen xs) ys"
proof (induction xs arbitrary: seen)
  case (Cons x xs)
  then show ?case by simp
qed simp

lemma firstSeen_props: "distinct (firstSeen seen xs) \<and> set (firstSeen seen xs) = set xs - set seen"
  by (induction xs arbitrary: seen) auto

lemma addFresh_names: "map rpUserId (addFresh by us acc) = map rpUserId acc @ firstSeen (map rpUserId acc) us"
  by (induction us arbitrary: acc) auto

lemma collectResolved_names:
  "map rpUserId (fst (collectResolved dir cx prev ps (resolved, none)))
     = map rpUserId resolved @ firstSeen (map rpUserId resolved) (concat (map (resolveParticipant dir cx prev) ps))"
  by (induction ps arbitrary: resolved none) (auto simp: Let_def addFresh_names firstSeen_append)

text \<open>
  C35: The people a stage asks are the people its resolvers name, each once and in the order of the first mention, less
  those who are inactive; the resolution is refused exactly when nobody is left, so a stage never has an
  empty list of approvers.
\<close>

theorem resolution_in_order:
  "case resolveParticipants dir ps cx stageName prev of
     Inr live \<Rightarrow> live \<noteq> [] \<and> distinct (map rpUserId live) \<and>
       (let named = firstSeen [] (concat (map (resolveParticipant dir cx prev) ps))
        in map rpUserId live = filter (\<lambda>u. u \<in> set (activeAmong dir named)) named)
   | Inl e \<Rightarrow> (let named = firstSeen [] (concat (map (resolveParticipant dir cx prev) ps))
        in set named \<inter> set (activeAmong dir named) = {})"
proof -
  obtain resolved none where c: "collectResolved dir cx prev ps ([], []) = (resolved, none)" by fastforce
  define named where "named = firstSeen [] (concat (map (resolveParticipant dir cx prev) ps))"
  have names: "map rpUserId resolved = named" using collectResolved_names [of dir cx prev ps "[]" "[]"] c by (simp add: named_def)
  let ?live = "filter (\<lambda>e. rpUserId e \<in> set (activeAmong dir named)) resolved"
  have live: "map rpUserId ?live = filter (\<lambda>u. u \<in> set (activeAmong dir named)) named"
    unfolding names [symmetric] filter_map comp_def ..
  have "distinct named" using firstSeen_props [of "[]" "concat (map (resolveParticipant dir cx prev) ps)"] by (simp add: named_def)
  then have dist: "distinct (map rpUserId ?live)" unfolding live by simp
  have none: "?live = [] \<longleftrightarrow> set named \<inter> set (activeAmong dir named) = {}"
    using live by (auto simp: filter_empty_conv names [symmetric])
  show ?thesis
    using live dist none by (auto simp: resolveParticipants_def c names named_def [symmetric] Let_def)
qed

end
