(* ===== verification/Working_Calendar.thy ===== *)
theory Working_Calendar
  imports Prelude
begin

text \<open>
  Durations and working days: \<open>duration.ts\<close> and \<open>working-calendar.ts\<close> of \<open>src/packages/domain/src\<close>.

  An instant is a number of milliseconds since the epoch. What the platform's \<open>Intl\<close> reads in a named zone
  is determined by the zone's offset at that instant, in whole seconds; the offset is a parameter, a
  function of the instant. Calendar dates are those of \<open>Date.UTC\<close>, the proleptic Gregorian calendar. The
  limits of the date type, eight million years away, and its rule for years below one hundred are left out.
\<close>

subsection \<open>Durations\<close>

record duration =
  duDays :: nat
  duHours :: nat

definition HOUR_MILLIS :: int where
  "HOUR_MILLIS = 3600000"

definition DAY_MILLIS :: int where
  "DAY_MILLIS = 86400000"

text \<open>One optional group \<open>(\d{1,3})U\<close> of the pattern.\<close>

definition takeUnit :: "char \<Rightarrow> string \<Rightarrow> nat option \<times> string" where
  "takeUnit u s =
     (let ds = takeWhile isDigit s; rest = dropWhile isDigit s
      in if 1 \<le> length ds \<and> length ds \<le> 3 \<and> rest \<noteq> [] \<and> hd rest = u
         then (Some (readNat ds), tl rest) else (None, s))"

definition durationOf :: "nat option \<Rightarrow> nat option \<Rightarrow> duration option" where
  "durationOf d h =
     (let days = (case d of None \<Rightarrow> 0 | Some n \<Rightarrow> n); hours = (case h of None \<Rightarrow> 0 | Some n \<Rightarrow> n)
      in if days = 0 \<and> hours = 0 then None else Some \<lparr>duDays = days, duHours = hours\<rparr>)"

definition parseDuration :: "string \<Rightarrow> duration option" where
  "parseDuration raw =
     (if raw = [] \<or> hd raw \<noteq> CHR ''P'' then None
      else
        (let (d, s) = takeUnit (CHR ''D'') (tl raw)
         in if s = [] then durationOf d None
            else if hd s \<noteq> CHR ''T'' then None
            else (let (h, r) = takeUnit (CHR ''H'') (tl s) in if r = [] then durationOf d h else None)))"

definition durationMs :: "duration \<Rightarrow> int" where
  "durationMs d = int (duDays d) * DAY_MILLIS + int (duHours d) * HOUR_MILLIS"

definition formatDuration :: "duration \<Rightarrow> string" where
  "formatDuration d =
     ''P'' @ (if duDays d > 0 then showNat (duDays d) @ ''D'' else '''')
     @ (if duHours d > 0 then ''T'' @ showNat (duHours d) @ ''H'' else '''')"

subsection \<open>Calendar dates\<close>

definition dayFromYear :: "int \<Rightarrow> int" where
  "dayFromYear y = 365 * (y - 1970) + (y - 1969) div 4 - (y - 1901) div 100 + (y - 1601) div 400"

definition isLeapYear :: "int \<Rightarrow> bool" where
  "isLeapYear y \<longleftrightarrow> y mod 4 = 0 \<and> y mod 100 \<noteq> 0 \<or> y mod 400 = 0"

definition monthStarts :: "int \<Rightarrow> int list" where
  "monthStarts y =
     (if isLeapYear y then [0, 31, 60, 91, 121, 152, 182, 213, 244, 274, 305, 335]
      else [0, 31, 59, 90, 120, 151, 181, 212, 243, 273, 304, 334])"

definition monthStart :: "int \<Rightarrow> int \<Rightarrow> int" where
  "monthStart y m = monthStarts y ! nat (m - 1)"

text \<open>The day number of \<open>Date.UTC(y, m - 1, d)\<close>, and the date of a day number.\<close>

definition utcDay :: "int \<Rightarrow> int \<Rightarrow> int \<Rightarrow> int" where
  "utcDay y m d = dayFromYear y + monthStart y m + d - 1"

definition yearOfDay :: "int \<Rightarrow> int" where
  "yearOfDay k =
     (let y = 400 * k div 146097 + 1970
      in if dayFromYear (y + 1) \<le> k then y + 1 else if k < dayFromYear y then y - 1 else y)"

definition monthOfDay :: "int \<Rightarrow> int" where
  "monthOfDay k =
     (let y = yearOfDay k in int (length (filter (\<lambda>b. b \<le> k - dayFromYear y) (monthStarts y))))"

definition dateOfDay :: "int \<Rightarrow> int" where
  "dateOfDay k = k - dayFromYear (yearOfDay k) - monthStart (yearOfDay k) (monthOfDay k) + 1"

subsection \<open>Wall clocks\<close>

record wall_time =
  wYear :: int
  wMonth :: int
  wDay :: int
  wHour :: int
  wMinute :: int
  wSecond :: int
  wMillisecond :: int

type_synonym zone = "instant \<Rightarrow> int"

definition utcMillis :: "wall_time \<Rightarrow> instant" where
  "utcMillis w =
     utcDay (wYear w) (wMonth w) (wDay w) * 86400000 + wHour w * 3600000 + wMinute w * 60000
     + wSecond w * 1000 + wMillisecond w"

text \<open>The date of day \<open>k\<close> with the time of day \<open>r\<close>, in milliseconds after midnight.\<close>

definition wallOn :: "int \<Rightarrow> int \<Rightarrow> wall_time" where
  "wallOn k r =
     \<lparr>wYear = yearOfDay k, wMonth = monthOfDay k, wDay = dateOfDay k, wHour = r div 3600000,
      wMinute = r mod 3600000 div 60000, wSecond = r mod 60000 div 1000, wMillisecond = r mod 1000\<rparr>"

definition wallTime :: "instant \<Rightarrow> zone \<Rightarrow> wall_time" where
  "wallTime at z = (let t = at + 1000 * z at in wallOn (t div 86400000) (t mod 86400000))"

definition offsetAt :: "instant \<Rightarrow> zone \<Rightarrow> int" where
  "offsetAt at z = utcMillis (wallTime at z) - at"

definition fromWallTime :: "wall_time \<Rightarrow> zone \<Rightarrow> instant" where
  "fromWallTime w z =
     (let wanted = utcMillis w;
          instant = wanted - offsetAt wanted z
      in wanted - offsetAt instant z)"

definition addCalendarDays :: "wall_time \<Rightarrow> int \<Rightarrow> wall_time" where
  "addCalendarDays w days =
     (let shifted = utcDay (wYear w) (wMonth w) (wDay w + days)
      in w\<lparr>wYear := yearOfDay shifted, wMonth := monthOfDay shifted, wDay := dateOfDay shifted\<rparr>)"

definition isoWeekday :: "instant \<Rightarrow> zone \<Rightarrow> int" where
  "isoWeekday at z =
     (let w = wallTime at z; weekday = (utcDay (wYear w) (wMonth w) (wDay w) + 4) mod 7
      in if weekday = 0 then 7 else weekday)"

definition padInt :: "int \<Rightarrow> nat \<Rightarrow> string" where
  "padInt v width = padStart width (CHR ''0'') (showInt v)"

definition calendarDay :: "instant \<Rightarrow> zone \<Rightarrow> string" where
  "calendarDay at z =
     (let w = wallTime at z in padInt (wYear w) 4 @ ''-'' @ padInt (wMonth w) 2 @ ''-'' @ padInt (wDay w) 2)"

subsection \<open>The walk\<close>

datatype deadline_calendar = CALENDAR_DAYS | WORKING_DAYS

record working_calendar =
  weekendDays :: "int list"
  holidays :: "string list"
  timeZone :: zone

definition MAX_WALK_DAYS :: nat where
  "MAX_WALK_DAYS = 3650"

definition isWorkingDay :: "instant \<Rightarrow> working_calendar \<Rightarrow> bool" where
  "isWorkingDay at c \<longleftrightarrow>
     isoWeekday at (timeZone c) \<notin> set (weekendDays c) \<and> calendarDay at (timeZone c) \<notin> set (holidays c)"

definition noWorkingDay :: app_error where
  "noWorkingDay = PlainError ''This calendar has no working day within ten years of the deadline.''"

fun walkDays :: "nat \<Rightarrow> wall_time \<Rightarrow> working_calendar \<Rightarrow> instant result" where
  "walkDays n wall c =
     (if n = 0 then Inl noWorkingDay
      else
        (let wall' = addCalendarDays wall 1; candidate = fromWallTime wall' (timeZone c)
         in if isWorkingDay candidate c then Inr candidate else walkDays (n - 1) wall' c))"

declare walkDays.simps [simp del]

definition startOfNextWorkingDay :: "instant \<Rightarrow> working_calendar \<Rightarrow> instant result" where
  "startOfNextWorkingDay at c =
     walkDays MAX_WALK_DAYS
       ((wallTime at (timeZone c))\<lparr>wHour := 0, wMinute := 0, wSecond := 0, wMillisecond := 0\<rparr>) c"

definition nextWorkingDayAtSameTime :: "instant \<Rightarrow> working_calendar \<Rightarrow> instant result" where
  "nextWorkingDayAtSameTime at c = walkDays MAX_WALK_DAYS (wallTime at (timeZone c)) c"

fun addWorkingDays :: "instant \<Rightarrow> nat \<Rightarrow> working_calendar \<Rightarrow> instant result" where
  "addWorkingDays from 0 c = Inr from"
| "addWorkingDays from (Suc n) c = bind_result (nextWorkingDayAtSameTime from c) (\<lambda>next. addWorkingDays next n c)"

definition workingHour :: "instant \<Rightarrow> working_calendar \<Rightarrow> instant result" where
  "workingHour cursor c =
     (let later = cursor + HOUR_MILLIS
      in if isWorkingDay later c then Inr later else startOfNextWorkingDay later c)"

fun addWorkingHours :: "instant \<Rightarrow> nat \<Rightarrow> working_calendar \<Rightarrow> instant result" where
  "addWorkingHours from 0 c = Inr from"
| "addWorkingHours from (Suc n) c = bind_result (workingHour from c) (\<lambda>next. addWorkingHours next n c)"

definition deadlineFor :: "instant \<Rightarrow> duration \<Rightarrow> deadline_calendar \<Rightarrow> working_calendar \<Rightarrow> instant result" where
  "deadlineFor from d kind c =
     (if kind = CALENDAR_DAYS then Inr (from + durationMs d)
      else
        bind_result (if isWorkingDay from c then Inr from else startOfNextWorkingDay from c) (\<lambda>start.
        bind_result (addWorkingDays start (duDays d) c) (\<lambda>counted.
        addWorkingHours counted (duHours d) c)))"

definition DEFAULT_WORKING_CALENDAR :: working_calendar where
  "DEFAULT_WORKING_CALENDAR = \<lparr>weekendDays = [6, 7], holidays = [], timeZone = (\<lambda>_. 0)\<rparr>"

subsection \<open>Facts about dates\<close>

lemma utcDay_of_day [simp]: "utcDay (yearOfDay k) (monthOfDay k) (dateOfDay k) = k"
  by (simp add: utcDay_def dateOfDay_def)

lemma utcDay_shift: "utcDay y m (d + n) = utcDay y m d + n"
  by (simp add: utcDay_def)

lemma time_of_day_parts:
  fixes r :: int
  shows "r div 3600000 * 3600000 + r mod 3600000 div 60000 * 60000 + r mod 60000 div 1000 * 1000 + r mod 1000 = r"
proof -
  have "r mod 60000 = r mod 3600000 mod 60000" by (simp add: mod_mod_cancel)
  moreover have "r mod 1000 = r mod 60000 mod 1000" by (simp add: mod_mod_cancel)
  ultimately show ?thesis
    using div_mult_mod_eq [of r 3600000] div_mult_mod_eq [of "r mod 3600000" 60000] div_mult_mod_eq [of "r mod 60000" 1000]
    by linarith
qed

lemma utcMillis_wallOn [simp]: "utcMillis (wallOn k r) = k * 86400000 + r"
  using time_of_day_parts [of r] by (simp add: utcMillis_def wallOn_def)

lemma utcMillis_wallTime: "utcMillis (wallTime at z) = at + 1000 * z at"
  by (simp add: wallTime_def Let_def)

lemma offsetAt_zone [simp]: "offsetAt at z = 1000 * z at"
  by (simp add: offsetAt_def utcMillis_wallTime)

lemma addCalendarDays_wallOn [simp]: "addCalendarDays (wallOn k r) n = wallOn (k + n) r"
  by (simp add: addCalendarDays_def wallOn_def utcDay_shift Let_def)

lemma div_bracket:
  fixes n m :: int
  assumes "0 < m"
  shows "m * (n div m) \<le> n" and "n < m * (n div m) + m"
  using mult_div_mod_eq [of m n] pos_mod_bound [OF assms, of n] pos_mod_sign [OF assms, of n] by linarith+

lemma dayFromYear_bounds:
  "146097 * (n - 1970) - 506 \<le> 400 * dayFromYear n" "400 * dayFromYear n \<le> 146097 * (n - 1970) + 589"
proof -
  define a b c where "a = (n - 1969) div 4" and "b = (n - 1901) div 100" and "c = (n - 1601) div 400"
  have "4 * a \<le> n - 1969" "n - 1969 < 4 * a + 4" "100 * b \<le> n - 1901" "n - 1901 < 100 * b + 100"
    "400 * c \<le> n - 1601" "n - 1601 < 400 * c + 400"
    unfolding a_def b_def c_def by (rule div_bracket, simp)+
  moreover have "dayFromYear n = 365 * (n - 1970) + a - b + c" by (simp add: dayFromYear_def a_def b_def c_def)
  ultimately show "146097 * (n - 1970) - 506 \<le> 400 * dayFromYear n" "400 * dayFromYear n \<le> 146097 * (n - 1970) + 589"
    by simp_all
qed

lemma year_bracket: "dayFromYear (yearOfDay k) \<le> k \<and> k < dayFromYear (yearOfDay k + 1)"
proof -
  define e where "e = 400 * k div 146097 + 1970"
  have "146097 * (400 * k div 146097) \<le> 400 * k" "400 * k < 146097 * (400 * k div 146097) + 146097"
    by (rule div_bracket, simp)+
  moreover have "400 * k div 146097 = e - 1970" by (simp add: e_def)
  ultimately have e: "146097 * (e - 1970) \<le> 400 * k" "400 * k < 146097 * (e - 1970) + 146097" by simp_all
  have "dayFromYear (e - 1) \<le> k" using dayFromYear_bounds(2) [of "e - 1"] e(1) by simp
  moreover have "k < dayFromYear (e + 2)" using dayFromYear_bounds(1) [of "e + 2"] e(2) by simp
  moreover have "yearOfDay k = (if dayFromYear (e + 1) \<le> k then e + 1 else if k < dayFromYear e then e - 1 else e)"
    unfolding yearOfDay_def e_def Let_def ..
  ultimately show ?thesis by (auto simp: add.commute split: if_splits)
qed

subsection \<open>Facts about the walk\<close>

definition localDay :: "instant \<Rightarrow> zone \<Rightarrow> int" where
  "localDay at z = (at + 1000 * z at) div 86400000"

definition timeOfDay :: "instant \<Rightarrow> zone \<Rightarrow> int" where
  "timeOfDay at z = (at + 1000 * z at) mod 86400000"

definition weekdayOn :: "int \<Rightarrow> int" where
  "weekdayOn k = (if (k + 4) mod 7 = 0 then 7 else (k + 4) mod 7)"

definition dateText :: "int \<Rightarrow> string" where
  "dateText k = padInt (yearOfDay k) 4 @ ''-'' @ padInt (monthOfDay k) 2 @ ''-'' @ padInt (dateOfDay k) 2"

definition worksOn :: "working_calendar \<Rightarrow> int \<Rightarrow> bool" where
  "worksOn c k \<longleftrightarrow>
     weekdayOn k \<notin> set (weekendDays c) \<and> dateText k \<notin> set (holidays c)"

lemma wallTime_local: "wallTime at z = wallOn (localDay at z) (timeOfDay at z)"
  by (simp add: wallTime_def localDay_def timeOfDay_def Let_def)

lemma isWorkingDay_local: "isWorkingDay at c \<longleftrightarrow> worksOn c (localDay at (timeZone c))"
  by (simp add: isWorkingDay_def worksOn_def weekdayOn_def dateText_def isoWeekday_def calendarDay_def wallTime_local wallOn_def Let_def)

text \<open>
  A time of day the zone never skips: on every day, the instant found for it reads that day and that time.
\<close>

definition neverSkipped :: "zone \<Rightarrow> int \<Rightarrow> bool" where
  "neverSkipped z r \<longleftrightarrow> (\<forall>k. localDay (fromWallTime (wallOn k r) z) z = k \<and> timeOfDay (fromWallTime (wallOn k r) z) z = r)"

lemma fixed_offset_never_skips: "0 \<le> r \<Longrightarrow> r < 86400000 \<Longrightarrow> neverSkipped (\<lambda>_. n) r"
  by (simp add: neverSkipped_def localDay_def timeOfDay_def fromWallTime_def Let_def)

lemma walkDays_finds:
  assumes "neverSkipped (timeZone c) r"
  shows "walkDays n (wallOn k r) c = Inr due \<Longrightarrow>
     \<exists>m. k < m \<and> localDay due (timeZone c) = m \<and> timeOfDay due (timeZone c) = r \<and> worksOn c m \<and>
         (\<forall>i. k < i \<longrightarrow> i < m \<longrightarrow> \<not> worksOn c i)"
proof (induction n arbitrary: k)
  case 0
  then show ?case by (simp add: walkDays.simps)
next
  case (Suc n)
  let ?next = "fromWallTime (wallOn (k + 1) r) (timeZone c)"
  have found: "localDay ?next (timeZone c) = k + 1" "timeOfDay ?next (timeZone c) = r"
    using assms by (simp_all add: neverSkipped_def)
  show ?case
  proof (cases "worksOn c (k + 1)")
    case True
    then have "due = ?next" using Suc.prems found by (simp add: walkDays.simps [of "Suc n"] isWorkingDay_local Let_def)
    then show ?thesis using found True by (intro exI [of _ "k + 1"]) auto
  next
    case False
    then have "walkDays n (wallOn (k + 1) r) c = Inr due"
      using Suc.prems found by (simp add: walkDays.simps [of "Suc n"] isWorkingDay_local Let_def)
    from Suc.IH [OF this] obtain m where m: "k + 1 < m" "localDay due (timeZone c) = m" "timeOfDay due (timeZone c) = r"
      "worksOn c m" "\<forall>i. k + 1 < i \<longrightarrow> i < m \<longrightarrow> \<not> worksOn c i" by blast
    have "\<not> worksOn c i" if "k < i" "i < m" for i using m(5) False that by (cases "i = k + 1") auto
    then show ?thesis using m by (intro exI [of _ m]) auto
  qed
qed

lemma walkDays_succeeds:
  assumes "neverSkipped (timeZone c) r" and "k < m" and "m \<le> k + int n" and "worksOn c m"
  shows "\<exists>due. walkDays n (wallOn k r) c = Inr due"
  using assms(2-)
proof (induction n arbitrary: k)
  case (Suc n)
  let ?next = "fromWallTime (wallOn (k + 1) r) (timeZone c)"
  have found: "localDay ?next (timeZone c) = k + 1" using assms(1) by (simp add: neverSkipped_def)
  show ?case
  proof (cases "worksOn c (k + 1)")
    case False
    then have "k + 1 < m" using Suc.prems by (cases "m = k + 1") auto
    then have "\<exists>due. walkDays n (wallOn (k + 1) r) c = Inr due" using Suc.prems by (intro Suc.IH) auto
    then show ?thesis using False found by (simp add: walkDays.simps [of "Suc n"] isWorkingDay_local Let_def)
  qed (simp add: walkDays.simps [of "Suc n"] isWorkingDay_local found Let_def)
qed simp

definition workingDaysIn :: "working_calendar \<Rightarrow> int \<Rightarrow> int \<Rightarrow> nat" where
  "workingDaysIn c a b = card {k \<in> {a <.. b}. worksOn c k}"

lemma workingDaysIn_step:
  assumes "k < m" and "worksOn c m" and "\<forall>i. k < i \<longrightarrow> i < m \<longrightarrow> \<not> worksOn c i" and "m \<le> b"
  shows "workingDaysIn c k b = Suc (workingDaysIn c m b)"
proof -
  have "{i \<in> {k <.. b}. worksOn c i} = insert m {i \<in> {m <.. b}. worksOn c i}"
    using assms by (auto simp: not_less order.order_iff_strict)
  moreover have "finite {i \<in> {m <.. b}. worksOn c i}" by (rule finite_subset [of _ "{m <.. b}"]) auto
  ultimately show ?thesis unfolding workingDaysIn_def by (simp only: card_insert_disjoint) simp
qed

lemma addWorkingDays_counts:
  assumes "neverSkipped (timeZone c) (timeOfDay from (timeZone c))"
  shows "addWorkingDays from n c = Inr due \<Longrightarrow>
     localDay from (timeZone c) \<le> localDay due (timeZone c) \<and>
     timeOfDay due (timeZone c) = timeOfDay from (timeZone c) \<and>
     workingDaysIn c (localDay from (timeZone c)) (localDay due (timeZone c)) = n \<and>
     (n > 0 \<longrightarrow> isWorkingDay due c)"
  using assms
proof (induction n arbitrary: "from")
  case 0
  then show ?case by (simp add: workingDaysIn_def)
next
  case (Suc n)
  obtain mid where mid: "nextWorkingDayAtSameTime from c = Inr mid" and rest: "addWorkingDays mid n c = Inr due"
    using Suc.prems(1) by (auto simp: bind_result_Inr)
  obtain m where m: "localDay from (timeZone c) < m" "localDay mid (timeZone c) = m"
    "timeOfDay mid (timeZone c) = timeOfDay from (timeZone c)" "worksOn c m"
    "\<forall>i. localDay from (timeZone c) < i \<longrightarrow> i < m \<longrightarrow> \<not> worksOn c i"
    using walkDays_finds [OF Suc.prems(2)] mid unfolding nextWorkingDayAtSameTime_def wallTime_local by blast
  have ih: "localDay mid (timeZone c) \<le> localDay due (timeZone c)" "timeOfDay due (timeZone c) = timeOfDay mid (timeZone c)"
    "workingDaysIn c (localDay mid (timeZone c)) (localDay due (timeZone c)) = n" "n > 0 \<Longrightarrow> isWorkingDay due c"
    using Suc.IH [OF rest] Suc.prems(2) m(3) by simp_all
  have "workingDaysIn c (localDay from (timeZone c)) (localDay due (timeZone c)) = Suc n"
    using workingDaysIn_step [OF m(1,4,5), of "localDay due (timeZone c)"] ih(1,3) m(2) by simp
  moreover have "isWorkingDay due c"
    using ih(4) rest m(2,4) by (cases n) (simp_all add: isWorkingDay_local)
  ultimately show ?case using ih(1,2) m(1,2,3) by simp
qed

lemma walkDays_working: "walkDays n w c = Inr due \<Longrightarrow> isWorkingDay due c"
  by (induction n w c rule: walkDays.induct) (auto simp: walkDays.simps Let_def split: if_splits)

lemma addWorkingHours_working:
  "addWorkingHours from n c = Inr due \<Longrightarrow> isWorkingDay from c \<Longrightarrow> isWorkingDay due c"
  by (induction "from" n c rule: addWorkingHours.induct)
    (auto simp: bind_result_Inr workingHour_def startOfNextWorkingDay_def Let_def split: if_splits dest: walkDays_working)


text \<open>A week has a working day unless a holiday takes it.\<close>

lemma week_has_workday:
  assumes w: "1 \<le> w" "w \<le> 7" "w \<notin> set (weekendDays c)"
  shows "\<exists>k. a < k \<and> k \<le> a + 7 \<and> weekdayOn k = w"
proof -
  define k where "k = a + 1 + (w - 5 - a) mod 7"
  have "(k + 4) mod 7 = (a + 5 + (w - 5 - a) mod 7) mod 7" by (simp add: k_def add.assoc add.left_commute)
  also have "\<dots> = w mod 7" by (simp add: mod_add_right_eq)
  finally have "weekdayOn k = w" using w(1,2) by (cases "w = 7") (auto simp: weekdayOn_def)
  moreover have "a < k" "k \<le> a + 7" using pos_mod_bound [of 7 "w - 5 - a"] pos_mod_sign [of 7 "w - 5 - a"] by (simp_all add: k_def)
  ultimately show ?thesis by blast
qed

definition holidayDays :: "working_calendar \<Rightarrow> int set" where
  "holidayDays c =
     {k. dateText k \<in> set (holidays c)}"

lemma workday_within_walk:
  assumes w: "1 \<le> w" "w \<le> 7" "w \<notin> set (weekendDays c)"
    and few: "finite (holidayDays c)" "card (holidayDays c) < 521"
  shows "\<exists>m. k < m \<and> m \<le> k + 3650 \<and> worksOn c m"
proof (rule ccontr)
  assume none: "\<not> ?thesis"
  have "\<forall>j. \<exists>m. k + 7 * int j < m \<and> m \<le> k + 7 * int j + 7 \<and> weekdayOn m = w"
    using week_has_workday [OF w] by blast
  then obtain day where day: "\<And>j. k + 7 * int j < day j" "\<And>j. day j \<le> k + 7 * int j + 7" "\<And>j. weekdayOn (day j) = w"
    using choice [of "\<lambda>j m. k + 7 * int j < m \<and> m \<le> k + 7 * int j + 7 \<and> weekdayOn m = w"] by blast
  have "day j \<in> holidayDays c" if "j < 521" for j
  proof -
    have "k < day j" "day j \<le> k + 3650" using day(1,2) [of j] that by auto
    then have "\<not> worksOn c (day j)" using none by blast
    then show ?thesis using day(3) [of j] w(3) by (simp add: worksOn_def holidayDays_def)
  qed
  then have sub: "day ` {..<521} \<subseteq> holidayDays c" by blast
  have "inj_on day {..<521}"
  proof (rule inj_onI)
    fix i j assume "day i = day j"
    then show "i = j" using day(1,2) [of i] day(1,2) [of j] by simp
  qed
  then have "521 \<le> card (holidayDays c)" using card_mono [OF few(1) sub] by (simp add: card_image)
  then show False using few(2) by simp
qed

lemma walk_succeeds:
  assumes "1 \<le> w" "w \<le> 7" "w \<notin> set (weekendDays c)" and "finite (holidayDays c)" "card (holidayDays c) < 521"
    and "neverSkipped (timeZone c) r"
  shows "\<exists>due. walkDays MAX_WALK_DAYS (wallOn k r) c = Inr due"
proof -
  obtain m where "k < m" "m \<le> k + 3650" "worksOn c m" using workday_within_walk [OF assms(1-5)] by blast
  then show ?thesis using walkDays_succeeds [OF assms(6), of k m MAX_WALK_DAYS] by (simp add: MAX_WALK_DAYS_def)
qed

lemma midnight_wall: "(wallOn k r)\<lparr>wHour := 0, wMinute := 0, wSecond := 0, wMillisecond := 0\<rparr> = wallOn k 0"
  by (simp add: wallOn_def)

text \<open>
  C32: A working deadline is always found: with one weekday worked, fewer than 521 holidays and a zone that skips neither
  midnight nor the starting time of day, the ten-year walk never gives up, however long the duration.
\<close>

theorem deadline_always_found:
  assumes w: "1 \<le> w" "w \<le> 7" "w \<notin> set (weekendDays c)"
    and few: "finite (holidayDays c)" "card (holidayDays c) < 521"
    and zone: "neverSkipped (timeZone c) 0" "neverSkipped (timeZone c) (timeOfDay start (timeZone c))"
  shows "\<exists>due. deadlineFor start d kind c = Inr due"
proof -
  note found = walk_succeeds [OF w few]
  have next_start: "\<exists>due. startOfNextWorkingDay at c = Inr due" for at
    using found [OF zone(1)] unfolding startOfNextWorkingDay_def wallTime_local midnight_wall by blast
  have days: "neverSkipped (timeZone c) (timeOfDay at (timeZone c)) \<Longrightarrow> \<exists>due. addWorkingDays at n c = Inr due" for at n
  proof (induction n arbitrary: at)
    case (Suc n)
    obtain mid where mid: "nextWorkingDayAtSameTime at c = Inr mid"
      using found [OF Suc.prems] unfolding nextWorkingDayAtSameTime_def wallTime_local by blast
    then have "timeOfDay mid (timeZone c) = timeOfDay at (timeZone c)"
      using walkDays_finds [OF Suc.prems] unfolding nextWorkingDayAtSameTime_def wallTime_local by blast
    then show ?case using Suc mid by simp
  qed simp
  have hours: "\<exists>due. addWorkingHours at n c = Inr due" for at n
  proof (induction n arbitrary: at)
    case (Suc n)
    obtain mid where "workingHour at c = Inr mid"
      using next_start [of "at + HOUR_MILLIS"] by (cases "isWorkingDay (at + HOUR_MILLIS) c") (auto simp: workingHour_def Let_def)
    then show ?case using Suc.IH [of mid] by simp
  qed simp
  obtain s where s: "(if isWorkingDay start c then Inr start else startOfNextWorkingDay start c) = Inr s"
    and never: "neverSkipped (timeZone c) (timeOfDay s (timeZone c))"
  proof (cases "isWorkingDay start c")
    case False
    obtain s where s: "startOfNextWorkingDay start c = Inr s" using next_start by blast
    then have "timeOfDay s (timeZone c) = 0"
      using walkDays_finds [OF zone(1)] unfolding startOfNextWorkingDay_def wallTime_local midnight_wall by blast
    then show ?thesis using that [of s] False s zone(1) by simp
  qed (use that [of start] zone(2) in simp)
  obtain mid where "addWorkingDays s (duDays d) c = Inr mid" using days [OF never] by blast
  then show ?thesis using s hours [of mid "duHours d"] by (simp add: deadlineFor_def)
qed

theorem deadline_always_found_witness:
  "\<exists>due. deadlineFor 0 \<lparr>duDays = 3, duHours = 8\<rparr> WORKING_DAYS DEFAULT_WORKING_CALENDAR = Inr due"
proof (rule deadline_always_found [of 1])
  show "neverSkipped (timeZone DEFAULT_WORKING_CALENDAR) 0"
    "neverSkipped (timeZone DEFAULT_WORKING_CALENDAR) (timeOfDay 0 (timeZone DEFAULT_WORKING_CALENDAR))"
    by (simp_all add: DEFAULT_WORKING_CALENDAR_def timeOfDay_def fixed_offset_never_skips)
qed (simp_all add: DEFAULT_WORKING_CALENDAR_def holidayDays_def)

lemma walk_step:
  "\<lbrakk>isWorkingDay (fromWallTime (wallOn (k + 1) r) (timeZone c)) c; n \<noteq> 0\<rbrakk>
     \<Longrightarrow> walkDays n (wallOn k r) c = Inr (fromWallTime (wallOn (k + 1) r) (timeZone c))"
  "\<lbrakk>\<not> isWorkingDay (fromWallTime (wallOn (k + 1) r) (timeZone c)) c; n \<noteq> 0\<rbrakk>
     \<Longrightarrow> walkDays n (wallOn k r) c = walkDays (n - 1) (wallOn (k + 1) r) c"
  by (simp_all add: walkDays.simps [of n] Let_def)

lemmas calendar_eval = walk_step addWorkingHours.simps addWorkingDays.simps nextWorkingDayAtSameTime_def
  startOfNextWorkingDay_def MAX_WALK_DAYS_def isWorkingDay_local worksOn_def weekdayOn_def wallTime_local
  localDay_def timeOfDay_def fromWallTime_def midnight_wall Let_def

text \<open>Thursday, the first of January 1970, plus two working days over the weekend.\<close>

lemma sample_deadline:
  "deadlineFor 0 \<lparr>duDays = 2, duHours = 0\<rparr> WORKING_DAYS DEFAULT_WORKING_CALENDAR = Inr 345600000"
  by (simp add: deadlineFor_def DEFAULT_WORKING_CALENDAR_def calendar_eval numeral_2_eq_2)


subsection \<open>Clock changes\<close>

text \<open>A zone that moves from one offset to another at an instant.\<close>

definition changingZone :: "instant \<Rightarrow> int \<Rightarrow> int \<Rightarrow> zone" where
  "changingZone at before_s after_s = (\<lambda>t. if t < at then before_s else after_s)"

text \<open>
  West of Greenwich the half hour the clock jumps over (02:30 at an offset of five hours that becomes four)
  resolves to an instant before the jump, where the clock reads 01:30; and east of Greenwich a repeated half
  hour (02:30 where two hours becomes one) resolves to its second occurrence.
\<close>

lemma skipped_time_goes_back:
  "let z = changingZone 25200000 (- 18000) (- 14400); at = fromWallTime (wallOn 0 9000000) z
   in at < 25200000 \<and> timeOfDay at z = 5400000"
  by (simp add: changingZone_def fromWallTime_def timeOfDay_def Let_def)

lemma repeated_time_is_second:
  "let z = changingZone 3600000 7200 3600; first = 1800000; second = 5400000
   in timeOfDay first z = 9000000 \<and> timeOfDay second z = 9000000 \<and> fromWallTime (wallOn 0 9000000) z = second"
  by (simp add: changingZone_def fromWallTime_def timeOfDay_def Let_def)

text \<open>
  Where the clock jumps at midnight the first instant found for the new day still reads the day before, so a
  working day that begins with the jump is passed over.
\<close>

lemma midnight_jump_skips_working_day:
  "startOfNextWorkingDay 54000000 \<lparr>weekendDays = [4], holidays = [], timeZone = changingZone 97200000 (- 10800) (- 7200)\<rparr>
     = Inr (2 * 86400000 + 7200000)"
  "weekdayOn 1 = 5" "weekdayOn 2 = 6"
  by (simp_all add: calendar_eval changingZone_def)

subsection \<open>Durations written and read\<close>

lemma takeUnit_show:
  assumes "n < 1000" and "\<not> isDigit u"
  shows "takeUnit u (showNat n @ u # r) = (Some n, r)"
proof -
  have digits: "\<forall>ch \<in> set (showNat n). isDigit ch" using showNat_digits by blast
  have len: "length (showNat n) \<le> 3" using assms(1) by (simp add: showNat.simps [of n] showNat.simps [of "n div 10"] showNat.simps [of "n div 10 div 10"])
  have "takeWhile isDigit (showNat n @ u # r) = showNat n" "dropWhile isDigit (showNat n @ u # r) = u # r"
    using digits assms(2) by (simp_all add: takeWhile_append dropWhile_append)
  then show ?thesis using len by (simp add: takeUnit_def Let_def Suc_le_eq)
qed

lemma takeUnit_other: "takeUnit u [] = (None, [])" "\<not> isDigit x \<Longrightarrow> takeUnit u (x # s) = (None, x # s)"
  by (simp_all add: takeUnit_def)

lemma duration_roundtrip:
  assumes "duDays d < 1000" and "duHours d < 1000" and "duDays d \<noteq> 0 \<or> duHours d \<noteq> 0"
  shows "parseDuration (formatDuration d) = Some d"
proof -
  have letters: "\<not> isDigit (CHR ''D'')" "\<not> isDigit (CHR ''H'')" "\<not> isDigit (CHR ''T'')" by (simp_all add: isDigit_def)
  show ?thesis
    using assms takeUnit_show [OF assms(1) letters(1)] takeUnit_show [OF assms(2) letters(2)] takeUnit_other letters
    by (cases "duDays d = 0"; cases "duHours d = 0")
      (auto simp: parseDuration_def formatDuration_def durationOf_def)
qed

end
