(* ===== verification/Workflow_Store.thy ===== *)
theory Workflow_Store
  imports Participant_Resolver Working_Calendar Document_Number
begin

text \<open>
  The tables of an approval and the statements on them:
  \<open>src/apps/api/src/modules/workflow/infrastructure/prisma-workflow-engine.repository.ts\<close>, with the records of
  \<open>application/ports.ts\<close> and the constraints of \<open>src/prisma/migrations/20260804075847_workflow_engine\<close>,
  \<open>20260805190000_delegation\<close> and \<open>src/infra/sql/post-migrate/04-workflow-integrity.sql\<close>.

  The state adds to the documents and their numbers the instances, stages, tasks, timers and comments, and the
  calls made to the job queue. A table is the list of its rows in the order of insertion; rows a query leaves
  unordered are read in that order. A row lock has no effect on a single transaction, so \<open>lockInstance\<close> is its
  answer alone. A constraint a caller can meet is a branch of the statement it guards.
\<close>

subsection \<open>Rows\<close>

datatype instance_status = InsRUNNING | InsPAUSED | InsCOMPLETED | InsREJECTED | InsCANCELLED

datatype stage_status = StgPENDING | StgACTIVE | StgCOMPLETED | StgSKIPPED | StgCANCELLED

datatype timer_kind = TimerDEADLINE | TimerREMINDER

datatype timer_state = TimSCHEDULED | TimPAUSED | TimFIRED | TimCANCELLED

record instance_row =
  wiId :: ident
  wiDocumentId :: ident
  wiRevisionId :: ident
  wiDefinitionId :: ident
  wiVersionId :: ident
  wiState :: instance_status
  wiStageIndex :: int
  wiStartedAt :: instant
  wiStartedBy :: "ident option"
  wiEndedAt :: "instant option"
  wiEndReason :: "string option"
  wiPausedAt :: "instant option"
  wiPauseReason :: "string option"
  wiEscalations :: nat
  wiNumberAssigned :: bool
  wiVersion :: int

record stage_row =
  wsId :: ident
  wsInstance :: ident
  wsIndex :: nat
  wsName :: string
  wsRule :: completion_rule
  wsThreshold :: "int option"
  wsOrdered :: bool
  wsState :: stage_status
  wsActivatedAt :: "instant option"
  wsCompletedAt :: "instant option"
  wsDueAt :: "instant option"
  wsSkipReason :: "string option"

record task_row = task_view +
  tkId :: ident
  tkInstance :: ident
  tkStage :: ident
  tkAssignee :: ident
  tkResolvedBy :: string
  tkDecidedBy :: "ident option"
  tkOnBehalfOf :: "ident option"
  tkDelegation :: "ident option"
  tkDecidedAt :: "instant option"
  tkComment :: "string option"
  tkDueAt :: "instant option"
  tkEscalatedFrom :: "ident option"
  tkAutoDecided :: bool
  tkCreatedAt :: instant

record timer_row =
  tmId :: ident
  tmInstance :: ident
  tmStage :: ident
  tmTask :: "ident option"
  tmKind :: timer_kind
  tmState :: timer_state
  tmFireAt :: instant
  tmRemaining :: "int option"
  tmFiredAt :: "instant option"
  tmOffset :: "string option"
  tmJobId :: string

record comment_row =
  cmId :: ident
  cmInstance :: ident
  cmDocument :: ident
  cmStage :: "ident option"
  cmTask :: "ident option"
  cmAuthor :: ident
  cmBody :: string
  cmDecision :: "task_decision option"
  cmAt :: instant

datatype queue_call = EnqueueJob string int | CancelJob string

record wf_state = num_state +
  instances :: "instance_row list"
  stages :: "stage_row list"
  tasks :: "task_row list"
  timers :: "timer_row list"
  comments :: "comment_row list"
  queueCalls :: "queue_call list"

type_synonym ('z, 'a) wtx = "('z wf_state_scheme, 'a) tx"

record aggregate =
  agInstance :: instance_row
  agStages :: "stage_row list"
  agTasks :: "task_row list"

definition liveInstance :: "instance_row \<Rightarrow> bool" where
  "liveInstance w \<longleftrightarrow> wiState w = InsRUNNING \<or> wiState w = InsPAUSED"

definition endedInstance :: "instance_row \<Rightarrow> bool" where
  "endedInstance w \<longleftrightarrow> wiState w = InsCOMPLETED \<or> wiState w = InsREJECTED \<or> wiState w = InsCANCELLED"

fun instanceStatusName :: "instance_status \<Rightarrow> string" where
  "instanceStatusName InsRUNNING = ''RUNNING''"
| "instanceStatusName InsPAUSED = ''PAUSED''"
| "instanceStatusName InsCOMPLETED = ''COMPLETED''"
| "instanceStatusName InsREJECTED = ''REJECTED''"
| "instanceStatusName InsCANCELLED = ''CANCELLED''"

subsection \<open>Loading\<close>

definition lockInstance :: "ident \<Rightarrow> 'z wf_state_scheme \<Rightarrow> bool" where
  "lockInstance i s \<longleftrightarrow> List.find (\<lambda>w. wiId w = i) (instances s) \<noteq> None"

definition instanceIdOfTask :: "ident \<Rightarrow> 'z wf_state_scheme \<Rightarrow> ident option" where
  "instanceIdOfTask t s = map_option tkInstance (List.find (\<lambda>k. tkId k = t) (tasks s))"

definition toAggregate :: "'z wf_state_scheme \<Rightarrow> instance_row \<Rightarrow> aggregate" where
  "toAggregate s w =
     \<lparr>agInstance = w,
      agStages = sort_key wsIndex (filter (\<lambda>g. wsInstance g = wiId w) (stages s)),
      agTasks = sort_key taSequence (sort_key tkCreatedAt (filter (\<lambda>k. tkInstance k = wiId w) (tasks s)))\<rparr>"

definition loadAggregate :: "ident \<Rightarrow> 'z wf_state_scheme \<Rightarrow> aggregate option" where
  "loadAggregate i s = map_option (toAggregate s) (List.find (\<lambda>w. wiId w = i) (instances s))"

definition loadByTask :: "ident \<Rightarrow> 'z wf_state_scheme \<Rightarrow> aggregate option" where
  "loadByTask t s = Option.bind (instanceIdOfTask t s) (\<lambda>i. loadAggregate i s)"

definition loadLiveForDocument :: "ident \<Rightarrow> 'z wf_state_scheme \<Rightarrow> aggregate option" where
  "loadLiveForDocument d s =
     map_option (toAggregate s) (List.find (\<lambda>w. wiDocumentId w = d \<and> liveInstance w) (instances s))"

subsection \<open>Creating\<close>

record new_instance =
  niId :: ident
  niDocumentId :: ident
  niRevisionId :: ident
  niDefinitionId :: ident
  niVersionId :: ident
  niStartedAt :: instant

definition createInstance :: "request \<Rightarrow> new_instance \<Rightarrow> ('z, unit) wtx" where
  "createInstance rq n =
     bindT (getsT instances) (\<lambda>rows.
     thenT (requireT (\<forall>w \<in> set rows. wiId w \<noteq> niId n \<and> \<not> (liveInstance w \<and> wiDocumentId w = niDocumentId n))
              (ValidationError ''This document is already in approval.'' [(''status'', ''in approval'')]))
     (modifyT (\<lambda>s. s\<lparr>instances := instances s @
        [\<lparr>wiId = niId n, wiDocumentId = niDocumentId n, wiRevisionId = niRevisionId n,
          wiDefinitionId = niDefinitionId n, wiVersionId = niVersionId n, wiState = InsRUNNING, wiStageIndex = -1,
          wiStartedAt = niStartedAt n, wiStartedBy = userId rq, wiEndedAt = None, wiEndReason = None,
          wiPausedAt = None, wiPauseReason = None, wiEscalations = 0, wiNumberAssigned = False, wiVersion = 1\<rparr>]\<rparr>)))"

record new_stage =
  ngId :: ident
  ngInstance :: ident
  ngIndex :: nat
  ngName :: string
  ngRule :: completion_rule
  ngThreshold :: "int option"
  ngOrdered :: bool

definition thresholdFits :: "completion_rule \<Rightarrow> int option \<Rightarrow> bool" where
  "thresholdFits rule threshold \<longleftrightarrow>
     (rule = RuleQUORUM \<or> rule = RulePERCENT) = (threshold \<noteq> None) \<and>
     (case threshold of None \<Rightarrow> True | Some t \<Rightarrow> t \<ge> 1)"

definition insertStage :: "new_stage \<Rightarrow> ('z, unit) wtx" where
  "insertStage n =
     bindT (getsT stages) (\<lambda>rows.
     thenT (requireT (\<forall>g \<in> set rows. wsId g \<noteq> ngId n) (ConstraintViolation ''workflow_stage_pkey''))
     (thenT (requireT (\<forall>g \<in> set rows. \<not> (wsInstance g = ngInstance n \<and> wsIndex g = ngIndex n))
              (ConstraintViolation ''uq_workflow_stage_index''))
     (thenT (requireT (thresholdFits (ngRule n) (ngThreshold n)) (ConstraintViolation ''ck_workflow_stage_threshold''))
     (modifyT (\<lambda>s. s\<lparr>stages := stages s @
        [\<lparr>wsId = ngId n, wsInstance = ngInstance n, wsIndex = ngIndex n, wsName = ngName n, wsRule = ngRule n,
          wsThreshold = ngThreshold n, wsOrdered = ngOrdered n, wsState = StgPENDING, wsActivatedAt = None,
          wsCompletedAt = None, wsDueAt = None, wsSkipReason = None\<rparr>]\<rparr>)))))"

definition createStages :: "new_stage list \<Rightarrow> ('z, unit) wtx" where
  "createStages ns = forEachT insertStage ns"

record new_task =
  ntId :: ident
  ntInstance :: ident
  ntStage :: ident
  ntAssignee :: ident
  ntResolvedBy :: string
  ntSequence :: int
  ntDueAt :: "instant option"
  ntEscalatedFrom :: "ident option"

definition insertTask :: "instant \<Rightarrow> new_task \<Rightarrow> ('z, unit) wtx" where
  "insertTask at n =
     bindT (getsT tasks) (\<lambda>rows.
     bindT (getsT stages) (\<lambda>gs.
     thenT (requireT (\<forall>k \<in> set rows. tkId k \<noteq> ntId n) (ConstraintViolation ''approval_task_pkey''))
     (thenT (requireT (\<forall>k \<in> set rows. \<not> (tkStage k = ntStage n \<and> tkAssignee k = ntAssignee n))
              (ConstraintViolation ''uq_approval_task_assignee''))
     (thenT (requireT (map_option wsInstance (List.find (\<lambda>g. wsId g = ntStage n) gs) = Some (ntInstance n))
              (ConstraintViolation ''approval_task_stage_is_own''))
     (modifyT (\<lambda>s. s\<lparr>tasks := tasks s @
        [\<lparr>taState = TaskPENDING, taDecision = None, taSequence = ntSequence n, tkId = ntId n,
          tkInstance = ntInstance n, tkStage = ntStage n, tkAssignee = ntAssignee n, tkResolvedBy = ntResolvedBy n,
          tkDecidedBy = None, tkOnBehalfOf = None, tkDelegation = None, tkDecidedAt = None, tkComment = None,
          tkDueAt = ntDueAt n, tkEscalatedFrom = ntEscalatedFrom n, tkAutoDecided = False, tkCreatedAt = at\<rparr>]\<rparr>))))))"

definition createTasks :: "request \<Rightarrow> new_task list \<Rightarrow> ('z, unit) wtx" where
  "createTasks rq ns = forEachT (insertTask (now rq)) ns"

subsection \<open>Stages\<close>

definition updateStages :: "(stage_row \<Rightarrow> bool) \<Rightarrow> (stage_row \<Rightarrow> stage_row) \<Rightarrow> ('z, unit) wtx" where
  "updateStages P f = modifyT (\<lambda>s. s\<lparr>stages := updateWhere P f (stages s)\<rparr>)"

definition activateStage :: "ident \<Rightarrow> instant \<Rightarrow> instant option \<Rightarrow> ('z, unit) wtx" where
  "activateStage i at dueAt =
     updateStages (\<lambda>g. wsId g = i) (\<lambda>g. g\<lparr>wsState := StgACTIVE, wsActivatedAt := Some at, wsDueAt := dueAt\<rparr>)"

definition completeStage :: "ident \<Rightarrow> instant \<Rightarrow> ('z, unit) wtx" where
  "completeStage i at = updateStages (\<lambda>g. wsId g = i) (\<lambda>g. g\<lparr>wsState := StgCOMPLETED, wsCompletedAt := Some at\<rparr>)"

definition skipStage :: "ident \<Rightarrow> string \<Rightarrow> instant \<Rightarrow> ('z, unit) wtx" where
  "skipStage i why at =
     updateStages (\<lambda>g. wsId g = i)
       (\<lambda>g. g\<lparr>wsState := StgSKIPPED, wsSkipReason := Some why, wsCompletedAt := Some at\<rparr>)"

definition cancelRemainingStages :: "ident \<Rightarrow> nat \<Rightarrow> ('z, unit) wtx" where
  "cancelRemainingStages i fromIndex =
     updateStages (\<lambda>g. wsInstance g = i \<and> fromIndex \<le> wsIndex g \<and> (wsState g = StgPENDING \<or> wsState g = StgACTIVE))
       (\<lambda>g. g\<lparr>wsState := StgCANCELLED\<rparr>)"

subsection \<open>Tasks\<close>

record decision_input =
  diTask :: ident
  diDecision :: task_decision
  diDecidedBy :: ident
  diOnBehalfOf :: "ident option"
  diDelegation :: "ident option"
  diComment :: "string option"
  diAt :: instant
  diAuto :: bool

definition decideIfPending :: "decision_input \<Rightarrow> ('z, bool) wtx" where
  "decideIfPending d =
     bindT (getsT (\<lambda>s. (tasks s, instances s))) (\<lambda>(rows, ws).
     let hit = (\<lambda>k. tkId k = diTask d \<and> taDecision k = None \<and> taState k = TaskPENDING);
         hits = filter hit rows
     in thenT (requireT (\<forall>k \<in> set hits. \<forall>w \<in> set ws. wiId w = tkInstance k \<longrightarrow> wiState w = InsRUNNING)
                 (ConstraintViolation ''approval_task_decided_while_running''))
        (thenT (requireT (hits = [] \<or> (diDelegation d = None) = (diOnBehalfOf d = None))
                 (ConstraintViolation ''ck_approval_task_delegation_pair''))
        (thenT (modifyT (\<lambda>s. s\<lparr>tasks := updateWhere hit
           (\<lambda>k. k\<lparr>taState := TaskDECIDED, taDecision := Some (diDecision d), tkDecidedBy := Some (diDecidedBy d),
                   tkOnBehalfOf := diOnBehalfOf d, tkDelegation := diDelegation d, tkDecidedAt := Some (diAt d),
                   tkComment := diComment d, tkAutoDecided := diAuto d\<rparr>) (tasks s)\<rparr>))
        (returnT (hits \<noteq> [])))))"

definition closePendingTasks :: "ident \<Rightarrow> task_phase \<Rightarrow> ('z, unit) wtx" where
  "closePendingTasks stageId phase =
     modifyT (\<lambda>s. s\<lparr>tasks :=
       updateWhere (\<lambda>k. tkStage k = stageId \<and> taState k = TaskPENDING \<and> taDecision k = None)
         (\<lambda>k. k\<lparr>taState := phase\<rparr>) (tasks s)\<rparr>)"

subsection \<open>The instance\<close>

definition updateInstances :: "(instance_row \<Rightarrow> bool) \<Rightarrow> (instance_row \<Rightarrow> instance_row) \<Rightarrow> ('z, unit) wtx" where
  "updateInstances P f = modifyT (\<lambda>s. s\<lparr>instances := updateWhere P f (instances s)\<rparr>)"

definition endInstance :: "ident \<Rightarrow> instance_status \<Rightarrow> string option \<Rightarrow> instant \<Rightarrow> bool \<Rightarrow> ('z, unit) wtx" where
  "endInstance i status why at numberAssigned =
     updateInstances (\<lambda>w. wiId w = i \<and> liveInstance w)
       (\<lambda>w. w\<lparr>wiState := status, wiEndReason := why, wiEndedAt := Some at, wiPausedAt := None,
               wiPauseReason := None, wiNumberAssigned := numberAssigned, wiStageIndex := -1,
               wiVersion := wiVersion w + 1\<rparr>)"

definition moveToStage :: "ident \<Rightarrow> nat \<Rightarrow> ('z, unit) wtx" where
  "moveToStage i index =
     updateInstances (\<lambda>w. wiId w = i) (\<lambda>w. w\<lparr>wiStageIndex := int index, wiVersion := wiVersion w + 1\<rparr>)"

definition setPaused :: "ident \<Rightarrow> bool \<Rightarrow> string option \<Rightarrow> instant \<Rightarrow> ('z, unit) wtx" where
  "setPaused i paused why at =
     bindT (getsT instances) (\<lambda>rows.
     thenT (requireT (\<forall>w \<in> set rows. wiId w = i \<longrightarrow> wiEndedAt w = None) (ConstraintViolation ''ck_workflow_instance_ended''))
     (updateInstances (\<lambda>w. wiId w = i)
       (\<lambda>w. w\<lparr>wiState := (if paused then InsPAUSED else InsRUNNING), wiPausedAt := (if paused then Some at else None),
               wiPauseReason := (if paused then why else None), wiVersion := wiVersion w + 1\<rparr>)))"

definition recordEscalation :: "ident \<Rightarrow> ('z, nat) wtx" where
  "recordEscalation i =
     bindT (getsT (\<lambda>s. List.find (\<lambda>w. wiId w = i) (instances s))) (\<lambda>row.
     case row of
       None \<Rightarrow> throwT (PlainError ''Record to update not found.'')
     | Some w \<Rightarrow>
         thenT (updateInstances (\<lambda>w. wiId w = i) (\<lambda>w. w\<lparr>wiEscalations := Suc (wiEscalations w)\<rparr>))
         (returnT (Suc (wiEscalations w))))"

definition addComment :: "comment_row \<Rightarrow> ('z, unit) wtx" where
  "addComment c = modifyT (\<lambda>s. s\<lparr>comments := comments s @ [c]\<rparr>)"

subsection \<open>Timers\<close>

definition createTimers :: "timer_row list \<Rightarrow> ('z, unit) wtx" where
  "createTimers ts = modifyT (\<lambda>s. s\<lparr>timers := timers s @ ts\<rparr>)"

definition timersFor :: "ident \<Rightarrow> timer_state list \<Rightarrow> 'z wf_state_scheme \<Rightarrow> timer_row list" where
  "timersFor i states s = filter (\<lambda>t. tmInstance t = i \<and> tmState t \<in> set states) (timers s)"

definition findTimerByJobId :: "string \<Rightarrow> 'z wf_state_scheme \<Rightarrow> timer_row option" where
  "findTimerByJobId j s = List.find (\<lambda>t. tmJobId t = j) (timers s)"

definition updateTimers :: "(timer_row \<Rightarrow> bool) \<Rightarrow> (timer_row \<Rightarrow> timer_row) \<Rightarrow> ('z, unit) wtx" where
  "updateTimers P f = modifyT (\<lambda>s. s\<lparr>timers := updateWhere P f (timers s)\<rparr>)"

definition markTimerFired :: "ident \<Rightarrow> instant \<Rightarrow> ('z, bool) wtx" where
  "markTimerFired i at =
     bindT (getsT timers) (\<lambda>rows.
     let hit = (\<lambda>t. tmId t = i \<and> tmState t = TimSCHEDULED)
     in thenT (updateTimers hit (\<lambda>t. t\<lparr>tmState := TimFIRED, tmFiredAt := Some at\<rparr>))
        (returnT (filter hit rows \<noteq> [])))"

definition cancelTimers :: "(timer_row \<Rightarrow> bool) \<Rightarrow> ('z, timer_row list) wtx" where
  "cancelTimers P =
     bindT (getsT timers) (\<lambda>rows.
     let hit = (\<lambda>t. P t \<and> (tmState t = TimSCHEDULED \<or> tmState t = TimPAUSED))
     in thenT (updateTimers hit (\<lambda>t. t\<lparr>tmState := TimCANCELLED, tmRemaining := None\<rparr>))
        (returnT (filter hit rows)))"

definition cancelTimersForStage :: "ident \<Rightarrow> ('z, timer_row list) wtx" where
  "cancelTimersForStage i = cancelTimers (\<lambda>t. tmStage t = i)"

definition cancelTimersForInstance :: "ident \<Rightarrow> ('z, timer_row list) wtx" where
  "cancelTimersForInstance i = cancelTimers (\<lambda>t. tmInstance t = i)"

text \<open>\<open>remaining_ms\<close> is a column of four bytes, signed.\<close>

definition INT4_MAX :: int where
  "INT4_MAX = 2147483647"

definition remainingAt :: "instant \<Rightarrow> timer_row \<Rightarrow> int" where
  "remainingAt at t = max 0 (tmFireAt t - at)"

definition pauseTimers :: "ident \<Rightarrow> instant \<Rightarrow> ('z, timer_row list) wtx" where
  "pauseTimers i at =
     bindT (getsT timers) (\<lambda>rows.
     let hit = (\<lambda>t. tmInstance t = i \<and> tmState t = TimSCHEDULED)
     in thenT (requireT (\<forall>t \<in> set rows. hit t \<longrightarrow> remainingAt at t \<le> INT4_MAX)
                 (ConstraintViolation ''workflow_timer.remaining_ms: out of range for type integer''))
        (thenT (updateTimers hit (\<lambda>t. t\<lparr>tmState := TimPAUSED, tmRemaining := Some (remainingAt at t)\<rparr>))
        (returnT (filter hit rows))))"

definition resumedTimer :: "instant \<Rightarrow> timer_row \<Rightarrow> timer_row" where
  "resumedTimer at t =
     t\<lparr>tmState := TimSCHEDULED, tmFireAt := at + (case tmRemaining t of None \<Rightarrow> 0 | Some r \<Rightarrow> r), tmRemaining := None\<rparr>"

definition resumeTimers :: "ident \<Rightarrow> instant \<Rightarrow> ('z, timer_row list) wtx" where
  "resumeTimers i at =
     bindT (getsT timers) (\<lambda>rows.
     let hit = (\<lambda>t. tmInstance t = i \<and> tmState t = TimPAUSED)
     in thenT (updateTimers hit (resumedTimer at))
        (returnT (map (resumedTimer at) (filter hit rows))))"

definition listArmableTimers :: "ident option \<Rightarrow> nat \<Rightarrow> 'z wf_state_scheme \<Rightarrow> timer_row list" where
  "listArmableTimers afterId limit s =
     take limit (sort_key tmId (filter (\<lambda>t. tmState t = TimSCHEDULED \<and>
        (\<exists>w \<in> set (instances s). wiId w = tmInstance t \<and> wiState w = InsRUNNING) \<and>
        (\<exists>g \<in> set (stages s). wsId g = tmStage t \<and> wsState g = StgACTIVE) \<and>
        (case afterId of None \<Rightarrow> True | Some a \<Rightarrow> a < tmId t)) (timers s)))"

end
