(* ===== verification/Workflow_Timers.thy ===== *)
theory Workflow_Timers
  imports Workflow_Store
begin

text \<open>
  Deadlines, reminders and the pause that stops them: \<open>workflow-timers.service.ts\<close> of
  \<open>src/apps/api/src/modules/workflow/application\<close>, and the recovery pass of
  \<open>infrastructure/workflow-timer.recovery.ts\<close>.

  A call to the queue is recorded with its job and delay. Enqueueing a planned timer and dropping a job swallow
  the queue's failures, so neither can fail a transaction; a call that failed is recorded like one that went
  through. The queue is not part of the database: calls made inside a transaction that is rolled back are not
  in the state the model keeps.
\<close>

subsection \<open>Planning\<close>

definition TIMER_JOB_PREFIX :: string where
  "TIMER_JOB_PREFIX = ''wf-timer:''"

definition newTimer ::
  "request \<Rightarrow> ident \<Rightarrow> ident \<Rightarrow> ident option \<Rightarrow> timer_kind \<Rightarrow> instant \<Rightarrow> string option \<Rightarrow> ('z, timer_row) wtx" where
  "newTimer rq instanceId stageId taskId kind fireAt offset =
     bindT (nextId rq) (\<lambda>i.
     returnT \<lparr>tmId = i, tmInstance = instanceId, tmStage = stageId, tmTask = taskId, tmKind = kind,
        tmState = TimSCHEDULED, tmFireAt = fireAt, tmRemaining = None, tmFiredAt = None, tmOffset = offset,
        tmJobId = TIMER_JOB_PREFIX @ i\<rparr>)"

definition remindAt :: "instant \<Rightarrow> duration \<Rightarrow> instant \<Rightarrow> instant option" where
  "remindAt dueAt earlier start =
     (let fireAt = dueAt - (int (duDays earlier) * 86400000 + int (duHours earlier) * 3600000)
      in if fireAt \<le> start then None else Some fireAt)"

record plan_input =
  piInstance :: ident
  piStage :: ident
  piTasks :: "ident list"
  piDeadline :: "(string \<times> deadline_calendar) option"
  piReminders :: "string list"
  piFrom :: instant
  piCalendar :: working_calendar

fun collectT :: "('a \<Rightarrow> ('s, 'b) tx) \<Rightarrow> 'a list \<Rightarrow> ('s, 'b list) tx" where
  "collectT f [] = returnT []"
| "collectT f (x # xs) = bindT (f x) (\<lambda>y. bindT (collectT f xs) (\<lambda>ys. returnT (y # ys)))"

definition planReminder :: "request \<Rightarrow> plan_input \<Rightarrow> instant \<Rightarrow> string \<Rightarrow> ('z, timer_row list) wtx" where
  "planReminder rq inp dueAt offset =
     (case Option.bind (parseDuration offset) (\<lambda>earlier. remindAt dueAt earlier (piFrom inp)) of
        None \<Rightarrow> returnT []
      | Some fireAt \<Rightarrow>
          collectT (\<lambda>t. newTimer rq (piInstance inp) (piStage inp) (Some t) TimerREMINDER fireAt (Some offset)) (piTasks inp))"

definition plan :: "request \<Rightarrow> plan_input \<Rightarrow> ('z, instant option \<times> timer_row list) wtx" where
  "plan rq inp =
     (case piDeadline inp of
        None \<Rightarrow> returnT (None, [])
      | Some (text, kind) \<Rightarrow>
          (case parseDuration text of
             None \<Rightarrow> returnT (None, [])
           | Some d \<Rightarrow>
               bindT (liftT (deadlineFor (piFrom inp) d kind (piCalendar inp))) (\<lambda>dueAt.
               bindT (newTimer rq (piInstance inp) (piStage inp) None TimerDEADLINE dueAt None) (\<lambda>deadline.
               bindT (collectT (planReminder rq inp dueAt) (piReminders inp)) (\<lambda>reminders.
               returnT (Some dueAt, deadline # concat reminders))))))"

subsection \<open>The queue\<close>

definition callQueue :: "queue_call list \<Rightarrow> ('z, unit) wtx" where
  "callQueue calls = modifyT (\<lambda>s. s\<lparr>queueCalls := queueCalls s @ calls\<rparr>)"

definition enqueueOne :: "request \<Rightarrow> timer_row \<Rightarrow> ('z, unit) wtx" where
  "enqueueOne rq t = callQueue [EnqueueJob (tmJobId t) (max 0 (tmFireAt t - now rq))]"

definition enqueue :: "request \<Rightarrow> timer_row list \<Rightarrow> ('z, unit) wtx" where
  "enqueue rq ts = forEachT (enqueueOne rq) ts"

definition rearm :: "request \<Rightarrow> timer_row list \<Rightarrow> ('z, nat) wtx" where
  "rearm rq ts = thenT (forEachT (enqueueOne rq) ts) (returnT (length ts))"

definition dropJobs :: "timer_row list \<Rightarrow> ('z, unit) wtx" where
  "dropJobs ts = forEachT (\<lambda>t. if tmState t = TimFIRED then returnT () else callQueue [CancelJob (tmJobId t)]) ts"

definition cancelStageTimers :: "ident \<Rightarrow> ('z, unit) wtx" where
  "cancelStageTimers i = bindT (cancelTimersForStage i) dropJobs"

definition cancelInstanceTimers :: "ident \<Rightarrow> ('z, unit) wtx" where
  "cancelInstanceTimers i = bindT (cancelTimersForInstance i) dropJobs"

definition pauseInstanceTimers :: "request \<Rightarrow> ident \<Rightarrow> ('z, unit) wtx" where
  "pauseInstanceTimers rq i = bindT (pauseTimers i (now rq)) dropJobs"

definition resumeInstanceTimers :: "request \<Rightarrow> ident \<Rightarrow> ('z, unit) wtx" where
  "resumeInstanceTimers rq i = bindT (resumeTimers i (now rq)) (enqueue rq)"

subsection \<open>Recovery\<close>

definition RECOVERY_PAGE :: nat where
  "RECOVERY_PAGE = 500"

text \<open>
  The loop of \<open>recoverTenant\<close>, with a bound on the number of pages read; reading past the bound is \<open>None\<close>. The
  tables do not change while the pass runs.
\<close>

fun recoverPages :: "request \<Rightarrow> nat \<Rightarrow> nat \<Rightarrow> ident option \<Rightarrow> 'z wf_state_scheme \<Rightarrow> (nat \<times> 'z wf_state_scheme) option" where
  "recoverPages rq 0 page afterId s = None"
| "recoverPages rq (Suc fuel) page afterId s =
     (let ts = listArmableTimers afterId page s
      in if ts = [] then Some (0, s)
         else
           (case rearm rq ts s of
              Inl e \<Rightarrow> None
            | Inr (n, s1) \<Rightarrow>
                if length ts < page then Some (n, s1)
                else map_option (\<lambda>(m, s2). (n + m, s2)) (recoverPages rq fuel page (Some (tmId (last ts))) s1)))"

definition recoverTenant :: "request \<Rightarrow> nat \<Rightarrow> 'z wf_state_scheme \<Rightarrow> (nat \<times> 'z wf_state_scheme) option" where
  "recoverTenant rq fuel s = recoverPages rq fuel RECOVERY_PAGE None s"

subsection \<open>Recovery arms every timer once\<close>

definition armable :: "'z wf_state_scheme \<Rightarrow> timer_row \<Rightarrow> bool" where
  "armable s t \<longleftrightarrow>
     tmState t = TimSCHEDULED \<and> (\<exists>w \<in> set (instances s). wiId w = tmInstance t \<and> wiState w = InsRUNNING) \<and>
     (\<exists>g \<in> set (stages s). wsId g = tmStage t \<and> wsState g = StgACTIVE)"

definition armableTimers :: "'z wf_state_scheme \<Rightarrow> timer_row list" where
  "armableTimers s = sort_key tmId (filter (armable s) (timers s))"

definition pastId :: "ident option \<Rightarrow> timer_row \<Rightarrow> bool" where
  "pastId afterId t = (case afterId of None \<Rightarrow> True | Some a \<Rightarrow> a < tmId t)"

lemma listArmable_page: "listArmableTimers afterId n s = take n (filter (pastId afterId) (armableTimers s))"
  unfolding listArmableTimers_def armableTimers_def filter_sort
  by (intro arg_cong [of _ _ "take n"] arg_cong [of _ _ "sort_key tmId"])
    (auto simp: armable_def pastId_def intro!: filter_cong)

lemma armableTimers_strict:
  assumes "distinct (map tmId (timers s))"
  shows "sorted_wrt (<) (map tmId (armableTimers s))"
proof -
  have "distinct (map tmId (armableTimers s))"
    using assms by (auto simp: armableTimers_def distinct_map inj_on_def)
  moreover have "sorted (map tmId (armableTimers s))" by (simp add: armableTimers_def)
  ultimately show ?thesis by (simp add: strict_sorted_iff)
qed

lemma filter_past_last:
  assumes "sorted_wrt (<) (map f xs)" and "ys @ [y] @ zs = xs"
  shows "filter (\<lambda>x. (f y :: 'b :: linorder) < f x) xs = zs"
proof -
  have "\<forall>x \<in> set ys. \<not> f y < f x" "\<forall>x \<in> set zs. f y < f x"
    using assms(1) unfolding assms(2) [symmetric] by (auto simp: sorted_wrt_append)
  then show ?thesis unfolding assms(2) [symmetric] by (simp add: filter_empty_conv filter_id_conv)
qed

definition armCalls :: "request \<Rightarrow> timer_row list \<Rightarrow> queue_call list" where
  "armCalls rq ts = map (\<lambda>t. EnqueueJob (tmJobId t) (max 0 (tmFireAt t - now rq))) ts"

lemma enqueue_calls: "forEachT (enqueueOne rq) ts s = Inr ((), s\<lparr>queueCalls := queueCalls s @ armCalls rq ts\<rparr>)"
proof (induction ts arbitrary: s)
  case (Cons t ts)
  then show ?case by (simp add: thenT_def bindT_def enqueueOne_def callQueue_def modifyT_def armCalls_def)
qed (simp add: returnT_def armCalls_def)

lemma armable_queue: "armable (s\<lparr>queueCalls := q\<rparr>) = armable s"
  by (rule ext) (simp add: armable_def)

lemma recoverPages_arms:
  assumes strict: "sorted_wrt (<) (map tmId (armableTimers s))" and page: "page > 0"
    and todo: "filter (pastId afterId) (armableTimers s) = todo" "suffix todo (armableTimers s)" and fuel: "length todo < fuel"
  shows "recoverPages rq fuel page afterId s = Some (length todo, s\<lparr>queueCalls := queueCalls s @ armCalls rq todo\<rparr>)"
  using assms
proof (induction fuel arbitrary: afterId s todo)
  case (Suc fuel)
  let ?ts = "take page todo"
  have ts: "listArmableTimers afterId page s = ?ts" using Suc.prems(3) by (simp add: listArmable_page)
  show ?case
  proof (cases "todo = [] \<or> length ?ts < page")
    case True
    then have "todo = [] \<or> (?ts = todo \<and> todo \<noteq> [])" using page by auto
    then show ?thesis using True ts Suc.prems(2)
      by (auto simp: Let_def rearm_def thenT_def bindT_def enqueue_calls returnT_def armCalls_def)
  next
    case False
    then have len: "page \<le> length todo" "?ts \<noteq> []" using page by auto
    let ?s1 = "s\<lparr>queueCalls := queueCalls s @ armCalls rq ?ts\<rparr>"
    have arm: "armableTimers ?s1 = armableTimers s" by (simp add: armableTimers_def armable_queue)
    obtain pre where pre: "armableTimers s = pre @ todo" using Suc.prems(4) by (auto simp: suffix_def)
    have split: "(pre @ butlast ?ts) @ [last ?ts] @ drop page todo = armableTimers s"
      using len pre append_butlast_last_id [OF len(2)] by (metis append.assoc append_take_drop_id)
    have past: "filter (pastId (Some (tmId (last ?ts)))) (armableTimers s) = drop page todo"
      using filter_past_last [OF Suc.prems(1) split] by (simp add: pastId_def [abs_def])
    have "recoverPages rq fuel page (Some (tmId (last ?ts))) ?s1
        = Some (length (drop page todo), ?s1\<lparr>queueCalls := queueCalls ?s1 @ armCalls rq (drop page todo)\<rparr>)"
    proof (rule Suc.IH)
      show "suffix (drop page todo) (armableTimers ?s1)"
        unfolding arm using suffix_drop [of page todo] Suc.prems(4) by (rule suffix_order.order_trans)
    qed (use Suc.prems page past len in \<open>simp_all add: arm\<close>)
    moreover have "armCalls rq ?ts @ armCalls rq (drop page todo) = armCalls rq todo"
      by (simp add: armCalls_def flip: map_append)
    ultimately show ?thesis using False ts len(1) page
      by (simp add: Let_def rearm_def thenT_def bindT_def enqueue_calls returnT_def)
  qed
qed simp


definition sampleTimer :: timer_row where
  "sampleTimer = \<lparr>tmId = ''m'', tmInstance = ''w'', tmStage = ''g'', tmTask = None, tmKind = TimerDEADLINE,
     tmState = TimSCHEDULED, tmFireAt = 500, tmRemaining = None, tmFiredAt = None, tmOffset = None,
     tmJobId = ''wf-timer:m''\<rparr>"

definition sampleInstance :: instance_row where
  "sampleInstance = \<lparr>wiId = ''w'', wiDocumentId = ''d'', wiRevisionId = ''r'', wiDefinitionId = ''f'', wiVersionId = ''v'',
     wiState = InsRUNNING, wiStageIndex = 0, wiStartedAt = 0, wiStartedBy = None, wiEndedAt = None, wiEndReason = None,
     wiPausedAt = None, wiPauseReason = None, wiEscalations = 0, wiNumberAssigned = False, wiVersion = 1\<rparr>"

definition sampleStage :: stage_row where
  "sampleStage = \<lparr>wsId = ''g'', wsInstance = ''w'', wsIndex = 0, wsName = ''Review'', wsRule = RuleALL, wsThreshold = None,
     wsOrdered = False, wsState = StgACTIVE, wsActivatedAt = Some 0, wsCompletedAt = None, wsDueAt = Some 500,
     wsSkipReason = None\<rparr>"

definition sampleApproval :: wf_state where
  "sampleApproval = \<lparr>trail = [], outbox = [], invalidations = 0, serial = 0, docs = [], revs = [], locks = [], files = [],
     retentionCalls = [], sequences = [], reservations = [], instances = [sampleInstance], stages = [sampleStage],
     tasks = [], timers = [sampleTimer], comments = [], queueCalls = []\<rparr>"


subsection \<open>Pausing and resuming\<close>

lemma pauseTimers_Inr:
  "pauseTimers i at s = Inr (ts, s') \<longleftrightarrow>
   (\<forall>t \<in> set (timers s). tmInstance t = i \<and> tmState t = TimSCHEDULED \<longrightarrow> remainingAt at t \<le> INT4_MAX) \<and>
   ts = filter (\<lambda>t. tmInstance t = i \<and> tmState t = TimSCHEDULED) (timers s) \<and>
   s' = s\<lparr>timers := updateWhere (\<lambda>t. tmInstance t = i \<and> tmState t = TimSCHEDULED)
     (\<lambda>t. t\<lparr>tmState := TimPAUSED, tmRemaining := Some (remainingAt at t)\<rparr>) (timers s)\<rparr>"
  by (auto simp: pauseTimers_def updateTimers_def tx_Inr_simps Let_def)

lemma resumeTimers_Inr:
  "resumeTimers i at s = Inr (ts, s') \<longleftrightarrow>
   ts = map (resumedTimer at) (filter (\<lambda>t. tmInstance t = i \<and> tmState t = TimPAUSED) (timers s)) \<and>
   s' = s\<lparr>timers := updateWhere (\<lambda>t. tmInstance t = i \<and> tmState t = TimPAUSED) (resumedTimer at) (timers s)\<rparr>"
  by (auto simp: resumeTimers_def updateTimers_def tx_Inr_simps Let_def)

lemma dropJobs_calls: "dropJobs ts s = Inr (u, s') \<Longrightarrow> \<exists>q. s' = s\<lparr>queueCalls := q\<rparr>"
proof (induction ts arbitrary: s)
  case (Cons t ts)
  then obtain s1 where s1: "s1 = s \<or> (\<exists>q. s1 = s\<lparr>queueCalls := q\<rparr>)" and rest: "dropJobs ts s1 = Inr (u, s')"
    by (auto simp: dropJobs_def thenT_Inr callQueue_def split: if_splits)
  then show ?case using Cons.IH [OF rest] by auto
qed (simp add: dropJobs_def, metis wf_state.surjective wf_state.update_convs(6))

lemma enqueue_only_calls: "enqueue rq ts s = Inr (u, s') \<longleftrightarrow> s' = s\<lparr>queueCalls := queueCalls s @ armCalls rq ts\<rparr>"
  by (auto simp: enqueue_def enqueue_calls)

end
