(* ===== verification/Workflow_Engine.thy ===== *)
theory Workflow_Engine
  imports Workflow_Timers
begin

text \<open>
  The approval engine: \<open>src/apps/api/src/modules/workflow/application/workflow-engine.service.ts\<close>, with the document's
  approval context (\<open>approvalContext\<close> of \<open>document.service.ts\<close>), the adapters between the two modules and the
  definition vocabulary of \<open>src/packages/contracts/src/admin/workflow.ts\<close>.

  A version's definition has been validated when it is read, with its defaults applied. What the engine asks
  of other modules is a parameter: the directory, the working calendar of an entity, the stored versions, the
  authority of a delegation, the view permission, and what configuration knows of a document's type, level,
  category, placement and metadata. Numbering and delegation are optional, as in the constructor. Instants in
  audit payloads and events are written as numbers.
\<close>

subsection \<open>Definitions a tenant authors\<close>

datatype reject_behaviour = RejectTERMINATE | RETURN_TO_AUTHOR

datatype overdue_behaviour = NotifyOnly | Escalate participant bool | AutoApprove | TerminateOverdue

record stage_def =
  sdName :: string
  sdParticipants :: "participant list"
  sdRule :: completion_rule
  sdThreshold :: "int option"
  sdOrdered :: bool
  sdCondition :: "stage_condition option"
  sdDeadline :: "(string \<times> deadline_calendar) option"
  sdReminders :: "string list"
  sdOnOverdue :: overdue_behaviour
  sdOnReject :: reject_behaviour
  sdMaxEscalations :: nat

record definition_body =
  dbTypes :: "string list"
  dbCondition :: "stage_condition option"
  dbStages :: "stage_def list"
  dbAssignNumber :: bool

record workflow_version =
  vnId :: ident
  vnVersion :: int
  vnBody :: definition_body

subsection \<open>What the engine asks of others\<close>

record context_ports =
  cpType :: "ident \<Rightarrow> (string \<times> ident option) option"
  cpRank :: "ident \<Rightarrow> int option"
  cpCategoryCode :: "ident \<Rightarrow> string option"
  cpFolderOwner :: "ident \<Rightarrow> (ident \<times> string) option"
  cpScopeChain :: "ident \<Rightarrow> string \<Rightarrow> place_node list"
  cpMetadata :: "document_row \<Rightarrow> (string \<times> bool \<times> fact_value) list"
  cpCreatedBy :: "document_row \<Rightarrow> ident option"

record wf_ports =
  wpContext :: context_ports
  wpDirectory :: directory
  wpCalendar :: "ident option \<Rightarrow> working_calendar"
  wpPublished :: "ident \<Rightarrow> workflow_version option"
  wpVersionById :: "ident \<Rightarrow> workflow_version option"
  wpNumbering :: "number_ports option"
  wpAuthority :: "(ident \<Rightarrow> ident \<Rightarrow> string \<Rightarrow> instant \<Rightarrow> ident option \<times> string option) option"
  wpMayView :: "request \<Rightarrow> ident \<Rightarrow> bool"

subsection \<open>The document's context\<close>

definition organisationalPlacement :: "context_ports \<Rightarrow> ident \<Rightarrow> place_node option \<times> place_node option" where
  "organisationalPlacement p folderId =
     (case cpFolderOwner p folderId of
        None \<Rightarrow> (None, None)
      | Some (i, ty) \<Rightarrow>
          (let chain = cpScopeChain p i ty
           in (List.find (\<lambda>n. pnType n = ''ENTITY'') chain, List.find (\<lambda>n. pnType n = ''DEPARTMENT'') (rev chain))))"

definition textFact :: "string option \<Rightarrow> fact_value" where
  "textFact v = (case v of None \<Rightarrow> FNull | Some t \<Rightarrow> FStr t)"

definition latestOrdinal :: "document_row \<Rightarrow> doc_state \<Rightarrow> int" where
  "latestOrdinal d s =
     (case Option.bind (dLatestRevisionId d) (\<lambda>r. List.find (\<lambda>v. rId v = r) (revs s)) of
        None \<Rightarrow> 0 | Some v \<Rightarrow> rOrdinal v)"

definition documentFacts :: "context_ports \<Rightarrow> document_row \<Rightarrow> doc_state \<Rightarrow> document_facts" where
  "documentFacts p d s =
     (let (entity, department) = organisationalPlacement p (dFolderId d);
          fixed =
            [(''documentType.code'', textFact (map_option fst (cpType p (dDocumentTypeId d)))),
             (''category.code'', textFact (Option.bind (dCategoryId d) (cpCategoryCode p))),
             (''confidentiality.rank'', case cpRank p (dConfidentialityId d) of None \<Rightarrow> FNull | Some n \<Rightarrow> FNum n),
             (''department.code'', textFact (map_option pnCode department)),
             (''entity.code'', textFact (map_option pnCode entity)),
             (''revision.isFirst'', FBool (latestOrdinal d s = 0)),
             (''revision.ordinal'', FNum (latestOrdinal d s))]
      in map_of (rev (fixed @ map (\<lambda>(k, _, v). (''metadata.'' @ k, v)) (cpMetadata p d))))"

fun userField :: "string \<times> bool \<times> fact_value \<Rightarrow> (string \<times> ident) option" where
  "userField (k, True, FStr u) = Some (k, u)"
| "userField _ = None"

definition approvalContext :: "context_ports \<Rightarrow> ident \<Rightarrow> doc_state \<Rightarrow> approval_context option" where
  "approvalContext p i s =
     map_option (\<lambda>d. let (entity, department) = organisationalPlacement p (dFolderId d)
       in \<lparr>cxDocumentId = dId d, cxStatus = dStatus d,
           cxWorkflowDefinitionId = Option.bind (cpType p (dDocumentTypeId d)) snd,
           cxOwnerUserId = dOwnerUserId d, cxAuthorUserId = cpCreatedBy p d,
           cxLatestRevisionId = dLatestRevisionId d, cxEntityId = map_option pnId entity,
           cxDepartmentId = map_option pnId department,
           cxUserFields = map_of (rev (List.map_filter userField (cpMetadata p d))),
           cxFacts = documentFacts p d s\<rparr>)
     (findById i False s)"

definition contextForDocument :: "wf_ports \<Rightarrow> ident \<Rightarrow> 'z wf_state_scheme \<Rightarrow> approval_context option" where
  "contextForDocument p i s = approvalContext (wpContext p) i (doc_state.truncate s)"

definition gateTransition ::
  "request \<Rightarrow> ident \<Rightarrow> document_status \<Rightarrow> ident \<Rightarrow> string option \<Rightarrow> string option \<Rightarrow> ('z, unit) wtx" where
  "gateTransition rq documentId to instanceId why decisionComment =
     bindT (onDocs (applyLifecycleTransition rq
       \<lparr>tDocumentId = documentId, tTo = to, tWorkflowInstanceId = Some instanceId, tReason = why,
        tAuditAction = None, tAuditFacts = [], tAttestReason = False, tDecisionComment = decisionComment\<rparr>))
     (\<lambda>_. returnT ())"

subsection \<open>Guards and small readers\<close>

definition requireContextFor :: "wf_ports \<Rightarrow> ident \<Rightarrow> ('z, approval_context) wtx" where
  "requireContextFor p i =
     bindT (getsT (contextForDocument p i)) (\<lambda>cx.
     case cx of None \<Rightarrow> throwT (NotFoundError ''The requested resource'') | Some c \<Rightarrow> returnT c)"

definition requireApprover :: "request \<Rightarrow> ('s, ident) tx" where
  "requireApprover rq = requireUser rq ''act on an approval without a signed-in user''"

definition requireAggregate :: "ident \<Rightarrow> ('z, aggregate) wtx" where
  "requireAggregate i =
     bindT (getsT (loadAggregate i)) (\<lambda>ag.
     case ag of None \<Rightarrow> throwT (NotFoundError ''The requested approval'') | Some a \<Rightarrow> returnT a)"

definition lockApproval :: "ident \<Rightarrow> ('z, unit) wtx" where
  "lockApproval i =
     bindT (getsT (lockInstance i)) (\<lambda>held. requireT held (NotFoundError ''The requested approval''))"

definition requireStage :: "aggregate \<Rightarrow> ident \<Rightarrow> ('s, stage_row) tx" where
  "requireStage ag i =
     (case List.find (\<lambda>g. wsId g = i) (agStages ag) of
        None \<Rightarrow> throwT (NotFoundError ''The requested stage'') | Some g \<Rightarrow> returnT g)"

definition definitionFor :: "wf_ports \<Rightarrow> ident \<Rightarrow> definition_body option" where
  "definitionFor p versionId = map_option vnBody (wpVersionById p versionId)"

definition stageDef :: "definition_body option \<Rightarrow> nat \<Rightarrow> stage_def option" where
  "stageDef body index =
     (case body of None \<Rightarrow> None
      | Some b \<Rightarrow> if index < length (dbStages b) then Some (dbStages b ! index) else None)"

definition appliesTo :: "definition_body \<Rightarrow> approval_context \<Rightarrow> bool" where
  "appliesTo body cx \<longleftrightarrow>
     (dbTypes body = [] \<or> (case cxFacts cx ''documentType.code'' of Some (FStr code) \<Rightarrow> code \<in> set (dbTypes body) | _ \<Rightarrow> False))
     \<and> (case dbCondition body of None \<Rightarrow> True | Some c \<Rightarrow> evaluateCondition c (cxFacts cx))"

fun decisionName :: "task_decision \<Rightarrow> string" where
  "decisionName DecAPPROVED = ''APPROVED''"
| "decisionName DecREJECTED = ''REJECTED''"
| "decisionName DecCHANGES = ''CHANGES_REQUESTED''"

fun outcomeName :: "stage_outcome \<Rightarrow> string" where
  "outcomeName OutPENDING = ''PENDING''"
| "outcomeName OutAPPROVED = ''APPROVED''"
| "outcomeName OutREJECTED = ''REJECTED''"
| "outcomeName OutCHANGES = ''CHANGES_REQUESTED''"
| "outcomeName OutUNREACHABLE = ''UNREACHABLE''"

definition permissionFor :: "task_decision \<Rightarrow> string" where
  "permissionFor d = (if d = DecAPPROVED then ''document:approve'' else ''document:reject'')"

definition auditActionFor :: "task_decision \<Rightarrow> string" where
  "auditActionFor d = decisionName d"

definition jwhen :: "instant option \<Rightarrow> json" where
  "jwhen v = (case v of None \<Rightarrow> JNull | Some t \<Rightarrow> JNum t)"

definition wfChange :: "string \<Rightarrow> string \<Rightarrow> ident \<Rightarrow> payload option \<Rightarrow> payload option \<Rightarrow> change" where
  "wfChange act subject i b a =
     \<lparr>action = act, subjectType = subject, subjectId = i, operation = UPDATED, before = b, after = a,
      reason = None, outcome = None\<rparr>"

definition noop :: "ident \<Rightarrow> string option \<Rightarrow> change" where
  "noop i jobId =
     wfChange ''TIMER_FIRED'' ''WORKFLOW'' i None
       (Some ((''effect'', JStr ''none'') # (case jobId of None \<Rightarrow> [] | Some j \<Rightarrow> [(''jobId'', JStr j)])))"

definition addressed :: "string \<Rightarrow> aggregate \<Rightarrow> ident \<Rightarrow> nat \<Rightarrow> string \<Rightarrow> ident list \<Rightarrow> instant option \<Rightarrow> event" where
  "addressed ty ag documentId index name who dueAt =
     Event ty (wiId (agInstance ag))
       [(''workflowInstanceId'', JStr (wiId (agInstance ag))), (''documentId'', JStr documentId),
        (''stageIndex'', JNum (int index)), (''stageName'', JStr name), (''assigneeIds'', JStrs who), (''dueAt'', jwhen dueAt)]"

definition plainComment :: "request \<Rightarrow> ident \<Rightarrow> ident \<Rightarrow> ident \<Rightarrow> string \<Rightarrow> ('z, unit) wtx" where
  "plainComment rq instanceId documentId author body =
     bindT (nextId rq) (\<lambda>c.
     addComment \<lparr>cmId = c, cmInstance = instanceId, cmDocument = documentId, cmStage = None, cmTask = None,
        cmAuthor = author, cmBody = body, cmDecision = None, cmAt = now rq\<rparr>)"

definition withNumbering :: "wf_ports \<Rightarrow> (number_ports \<Rightarrow> ('s, unit) tx) \<Rightarrow> ('s, unit) tx" where
  "withNumbering p f = (case wpNumbering p of None \<Rightarrow> returnT () | Some n \<Rightarrow> f n)"

subsection \<open>Completing, activating and advancing\<close>

definition completeApproval :: "wf_ports \<Rightarrow> request \<Rightarrow> aggregate \<Rightarrow> definition_body \<Rightarrow> ('z, unit) wtx" where
  "completeApproval p rq ag body =
     (let w = agInstance ag in
      bindT (case wpNumbering p of
               Some n \<Rightarrow>
                 if dbAssignNumber body
                 then bindT (assignAtApproval n rq (wiDocumentId w) (wiId w)) (\<lambda>number. returnT (number \<noteq> []))
                 else returnT False
             | None \<Rightarrow> returnT False) (\<lambda>numberAssigned.
      thenT (endInstance (wiId w) InsCOMPLETED None (now rq) numberAssigned)
      (thenT (cancelInstanceTimers (wiId w))
      (thenT (gateTransition rq (wiDocumentId w) APPROVED (wiId w) None None)
      (publishT [Event ''workflow.completed'' (wiId w)
         [(''workflowInstanceId'', JStr (wiId w)), (''documentId'', JStr (wiDocumentId w)),
          (''stagesCompleted'', JNum (int (length (filter (\<lambda>g. wsState g = StgCOMPLETED) (agStages ag)))))]])))))"

definition newTasks ::
  "request \<Rightarrow> aggregate \<Rightarrow> stage_row \<Rightarrow> instant option \<Rightarrow> resolved_participant list \<Rightarrow> ('z, new_task list) wtx" where
  "newTasks rq ag stage dueAt resolved =
     collectT (\<lambda>(position, r).
       bindT (nextId rq) (\<lambda>i.
       returnT \<lparr>ntId = i, ntInstance = wiId (agInstance ag), ntStage = wsId stage, ntAssignee = rpUserId r,
          ntResolvedBy = rpResolvedBy r, ntSequence = (if wsOrdered stage then int position else 0),
          ntDueAt = dueAt, ntEscalatedFrom = None\<rparr>)) (zip [0..<length resolved] resolved)"

definition activate ::
  "wf_ports \<Rightarrow> request \<Rightarrow> aggregate \<Rightarrow> nat \<Rightarrow> stage_row \<Rightarrow> stage_def \<Rightarrow> approval_context \<Rightarrow> ident list
   \<Rightarrow> ('z, timer_row list) wtx" where
  "activate p rq ag index stage authored cx previousApprovers =
     (let w = agInstance ag;
          planned = (\<lambda>taskIds. plan rq \<lparr>piInstance = wiId w, piStage = wsId stage, piTasks = taskIds,
             piDeadline = sdDeadline authored, piReminders = sdReminders authored, piFrom = now rq,
             piCalendar = wpCalendar p (cxEntityId cx)\<rparr>)
      in
      bindT (liftT (resolveParticipants (wpDirectory p) (sdParticipants authored) cx (sdName authored) previousApprovers))
        (\<lambda>resolved.
      bindT (planned []) (\<lambda>(firstDue, _).
      bindT (newTasks rq ag stage firstDue resolved) (\<lambda>ts.
      thenT (createTasks rq ts)
      (bindT (planned (map ntId ts)) (\<lambda>(dueAt, armed).
      thenT (createTimers armed)
      (thenT (activateStage (wsId stage) (now rq) dueAt)
      (thenT (moveToStage (wiId w) index)
      (thenT (gateTransition rq (cxDocumentId cx) UNDER_REVIEW (wiId w) None None)
      (thenT (publishT
        [Event ''workflow.stage-activated'' (wiId w)
           [(''workflowInstanceId'', JStr (wiId w)), (''stageIndex'', JNum (int index)),
            (''assigneeIds'', JStrs (map ntAssignee ts)), (''dueAt'', jwhen dueAt)],
         addressed ''workflow.task-assigned'' ag (cxDocumentId cx) index (sdName authored) (map ntAssignee ts) dueAt])
      (returnT armed)))))))))))"

fun advance ::
  "wf_ports \<Rightarrow> request \<Rightarrow> aggregate \<Rightarrow> approval_context \<Rightarrow> definition_body \<Rightarrow> ident list \<Rightarrow> nat \<Rightarrow> stage_row list
   \<Rightarrow> ('z, document_status \<times> timer_row list) wtx" where
  "advance p rq ag cx body previousApprovers index [] =
     thenT (completeApproval p rq ag body) (returnT (APPROVED, []))"
| "advance p rq ag cx body previousApprovers index (stage # rest) =
     (if length (dbStages body) \<le> index then thenT (completeApproval p rq ag body) (returnT (APPROVED, []))
      else
        (let authored = dbStages body ! index in
         if (case sdCondition authored of None \<Rightarrow> False | Some c \<Rightarrow> \<not> evaluateCondition c (cxFacts cx))
         then thenT (skipStage (wsId stage) ''CONDITION_FALSE'' (now rq))
              (advance p rq ag cx body previousApprovers (Suc index) rest)
         else bindT (activate p rq ag index stage authored cx previousApprovers) (\<lambda>armed.
              returnT (UNDER_REVIEW, armed))))"

definition advanceFrom ::
  "wf_ports \<Rightarrow> request \<Rightarrow> aggregate \<Rightarrow> nat \<Rightarrow> approval_context \<Rightarrow> definition_body \<Rightarrow> ident list
   \<Rightarrow> ('z, document_status \<times> timer_row list) wtx" where
  "advanceFrom p rq ag fromIndex cx body previousApprovers =
     advance p rq ag cx body previousApprovers fromIndex (drop fromIndex (agStages ag))"

subsection \<open>Settling a stage\<close>

definition stageTasks :: "aggregate \<Rightarrow> ident \<Rightarrow> task_row list" where
  "stageTasks ag i = filter (\<lambda>k. tkStage k = i) (agTasks ag)"

definition stageRule :: "stage_row \<Rightarrow> stage_rule" where
  "stageRule g = \<lparr>srRule = wsRule g, srThreshold = wsThreshold g\<rparr>"

definition settleApproved ::
  "wf_ports \<Rightarrow> request \<Rightarrow> aggregate \<Rightarrow> stage_row \<Rightarrow> ('z, timer_row list) wtx" where
  "settleApproved p rq ag stage =
     (let w = agInstance ag in
      thenT (closePendingTasks (wsId stage) TaskSUPERSEDED)
      (thenT (completeStage (wsId stage) (now rq))
      (bindT (requireContextFor p (wiDocumentId w)) (\<lambda>cx.
      case definitionFor p (wiVersionId w) of
        None \<Rightarrow> throwT (NotFoundError ''The workflow version this approval is running under'')
      | Some body \<Rightarrow>
          bindT (requireAggregate (wiId w)) (\<lambda>fresh.
          bindT (advanceFrom p rq fresh (wsIndex stage + 1) cx body
            (map tkAssignee (filter (\<lambda>k. taDecision k = Some DecAPPROVED) (stageTasks ag (wsId stage))))) (\<lambda>(_, armed).
          returnT armed))))))"

definition refuseApproval ::
  "wf_ports \<Rightarrow> request \<Rightarrow> aggregate \<Rightarrow> stage_row \<Rightarrow> stage_outcome \<Rightarrow> ('z, unit) wtx" where
  "refuseApproval p rq ag stage result =
     (let w = agInstance ag;
          refusal = List.find (\<lambda>k. taDecision k = Some DecREJECTED \<or> taDecision k = Some DecCHANGES)
            (stageTasks ag (wsId stage));
          authored = stageDef (definitionFor p (wiVersionId w)) (wsIndex stage);
          returnToAuthor = (result = OutCHANGES \<or> map_option sdOnReject authored = Some RETURN_TO_AUTHOR)
      in
      thenT (closePendingTasks (wsId stage) TaskWITHDRAWN)
      (thenT (completeStage (wsId stage) (now rq))
      (thenT (cancelRemainingStages (wiId w) (wsIndex stage + 1))
      (thenT (cancelInstanceTimers (wiId w))
      (thenT (withNumbering p (\<lambda>_. voidReservation rq (wiId w) (outcomeName result)))
      (thenT (if returnToAuthor
              then thenT (endInstance (wiId w) InsCANCELLED (Some ''RETURNED'') (now rq) False)
                   (gateTransition rq (wiDocumentId w) CHANGES_REQUESTED (wiId w) (Some (outcomeName result)) None)
              else thenT (endInstance (wiId w) InsREJECTED (Some (outcomeName result)) (now rq) False)
                   (gateTransition rq (wiDocumentId w) REJECTED (wiId w) (Some (outcomeName result))
                      (Option.bind refusal tkComment)))
      (publishT [Event ''workflow.cancelled'' (wiId w)
         [(''workflowInstanceId'', JStr (wiId w)), (''documentId'', JStr (wiDocumentId w)),
          (''reason'', JStr (outcomeName result))]])))))))"

definition settleStage ::
  "wf_ports \<Rightarrow> request \<Rightarrow> aggregate \<Rightarrow> stage_row \<Rightarrow> ('z, stage_outcome \<times> timer_row list) wtx" where
  "settleStage p rq ag stage =
     (let result = evaluateStage (stageRule stage) (stageTasks ag (wsId stage)) in
      if result = OutPENDING then returnT (result, [])
      else
        thenT (cancelStageTimers (wsId stage))
        (if result = OutAPPROVED
         then bindT (settleApproved p rq ag stage) (\<lambda>armed. returnT (result, armed))
         else thenT (refuseApproval p rq ag stage result) (returnT (result, []))))"

subsection \<open>Submission\<close>

definition newStages :: "request \<Rightarrow> ident \<Rightarrow> definition_body \<Rightarrow> ('z, new_stage list) wtx" where
  "newStages rq instanceId body =
     collectT (\<lambda>(index, d).
       bindT (nextId rq) (\<lambda>i.
       returnT \<lparr>ngId = i, ngInstance = instanceId, ngIndex = index, ngName = sdName d, ngRule = sdRule d,
          ngThreshold = sdThreshold d, ngOrdered = sdOrdered d\<rparr>)) (zip [0..<length (dbStages body)] (dbStages body))"

definition submitChange :: "ident \<Rightarrow> document_status \<Rightarrow> ident \<Rightarrow> workflow_version \<Rightarrow> ident \<Rightarrow> change" where
  "submitChange documentId status instanceId v revisionId =
     wfChange ''SUBMITTED'' ''DOCUMENT'' documentId (Some [(''status'', JStr (statusName DRAFT))])
       (Some [(''status'', JStr (statusName status)), (''workflowInstanceId'', JStr instanceId),
          (''workflowVersionId'', JStr (vnId v)), (''workflowVersion'', JNum (vnVersion v)),
          (''revisionId'', JStr revisionId)])"

definition startApproval ::
  "wf_ports \<Rightarrow> request \<Rightarrow> ident \<Rightarrow> string option \<Rightarrow> ident \<Rightarrow> approval_context \<Rightarrow> ident \<Rightarrow> ident \<Rightarrow> workflow_version
   \<Rightarrow> ('z, ((ident \<times> document_status) \<times> timer_row list) \<times> change) wtx" where
  "startApproval p rq documentId remark actor cx revisionId definitionId v =
     bindT (nextId rq) (\<lambda>instanceId.
     thenT (createInstance rq \<lparr>niId = instanceId, niDocumentId = documentId, niRevisionId = revisionId,
        niDefinitionId = definitionId, niVersionId = vnId v, niStartedAt = now rq\<rparr>)
     (bindT (newStages rq instanceId (vnBody v)) (\<lambda>gs.
     thenT (createStages gs)
     (thenT (gateTransition rq documentId SUBMITTED instanceId None None)
     (thenT (withNumbering p (\<lambda>n. bindT (reserveForSubmission n rq documentId instanceId) (\<lambda>_. returnT ())))
     (thenT (case remark of None \<Rightarrow> returnT () | Some text \<Rightarrow> plainComment rq instanceId documentId actor text)
     (thenT (publishT [Event ''workflow.started'' instanceId
        [(''workflowInstanceId'', JStr instanceId), (''documentId'', JStr documentId), (''revisionId'', JStr revisionId),
         (''workflowVersionId'', JStr (vnId v))]])
     (bindT (requireAggregate instanceId) (\<lambda>ag.
     bindT (advanceFrom p rq ag 0 cx (vnBody v) []) (\<lambda>(status, armed).
     returnT (((instanceId, status), armed), submitChange documentId status instanceId v revisionId)))))))))))"

definition submit :: "wf_ports \<Rightarrow> request \<Rightarrow> ident \<Rightarrow> string option \<Rightarrow> ('z, ident \<times> document_status) wtx" where
  "submit p rq documentId remark =
     bindT (writeT rq
       (bindT (requireContextFor p documentId) (\<lambda>cx.
        bindT (requireApprover rq) (\<lambda>actor.
        thenT (requireT (cxStatus cx = DRAFT)
                 (ValidationError ''Only a draft can be submitted for approval.'' [(''status'', statusName (cxStatus cx))]))
        (case cxLatestRevisionId cx of
           None \<Rightarrow> throwT (ValidationError ''This document has no content to approve.'' [(''revision'', ''missing'')])
         | Some revisionId \<Rightarrow>
        (case cxWorkflowDefinitionId cx of
           None \<Rightarrow> throwT (ValidationError ''This kind of document does not go through approval.''
                     [(''documentType'', ''no workflow'')])
         | Some definitionId \<Rightarrow>
             bindT (getsT (loadLiveForDocument documentId)) (\<lambda>live.
             thenT (requireT (live = None)
                      (ValidationError ''This document is already in approval.'' [(''status'', ''in approval'')]))
             (case wpPublished p definitionId of
                None \<Rightarrow> throwT (ValidationError ''The workflow for this kind of document has no published version.''
                          [(''workflow'', ''no published version'')])
              | Some v \<Rightarrow>
                  thenT (requireT (appliesTo (vnBody v) cx)
                           (ValidationError ''The workflow attached to this document type does not apply to this document.''
                              [(''workflow'', ''appliesTo'')]))
                  (startApproval p rq documentId remark actor cx revisionId definitionId v)))))))))
     (\<lambda>(submitted, armed). thenT (enqueue rq armed) (returnT submitted))"

subsection \<open>Deciding\<close>

definition authoriseDecision ::
  "wf_ports \<Rightarrow> request \<Rightarrow> ident \<Rightarrow> task_row \<Rightarrow> task_decision \<Rightarrow> ('s, ident option) tx" where
  "authoriseDecision p rq actor task decision =
     (if tkAssignee task = actor then returnT None
      else
        (case wpAuthority p of
           None \<Rightarrow> throwT (ForbiddenError ''decide a task assigned to somebody else'')
         | Some authority \<Rightarrow>
             (case authority actor (tkAssignee task) (permissionFor decision) (now rq) of
                (None, refusal) \<Rightarrow>
                  throwT (ForbiddenError (''decide a task assigned to somebody else ('' @
                     (case refusal of None \<Rightarrow> ''NONE'' | Some why \<Rightarrow> why) @ '')''))
              | (Some delegationId, _) \<Rightarrow> returnT (Some delegationId))))"

definition recordDecision ::
  "request \<Rightarrow> aggregate \<Rightarrow> stage_row \<Rightarrow> task_row \<Rightarrow> ident \<Rightarrow> ident option \<Rightarrow> task_decision \<Rightarrow> string option
   \<Rightarrow> ('z, unit) wtx" where
  "recordDecision rq ag stage task actor delegationId decision remark =
     (let w = agInstance ag;
          behalf = (if delegationId = None then None else Some (tkAssignee task))
      in
      bindT (decideIfPending \<lparr>diTask = tkId task, diDecision = decision, diDecidedBy = actor, diOnBehalfOf = behalf,
         diDelegation = delegationId, diComment = remark, diAt = now rq, diAuto = False\<rparr>) (\<lambda>claimed.
      thenT (requireT claimed (VersionConflictError 0 1))
      (thenT (case remark of
                None \<Rightarrow> returnT ()
              | Some text \<Rightarrow>
                  bindT (nextId rq) (\<lambda>c.
                  addComment \<lparr>cmId = c, cmInstance = wiId w, cmDocument = wiDocumentId w, cmStage = Some (wsId stage),
                     cmTask = Some (tkId task), cmAuthor = actor, cmBody = text, cmDecision = Some decision, cmAt = now rq\<rparr>))
      (thenT (publishT [Event ''workflow.task-decided'' (tkId task)
         [(''taskId'', JStr (tkId task)), (''workflowInstanceId'', JStr (wiId w)), (''decision'', JStr (decisionName decision)),
          (''decidedBy'', JStr actor), (''onBehalfOfId'', jopt behalf)]])
      (case delegationId of
         None \<Rightarrow> returnT ()
       | Some g \<Rightarrow> recordChange rq (wfChange ''DELEGATION_USED'' ''DELEGATION'' g None
            (Some [(''taskId'', JStr (tkId task)), (''workflowInstanceId'', JStr (wiId w)),
               (''documentId'', JStr (wiDocumentId w)), (''decision'', JStr (decisionName decision)),
               (''decidedBy'', JStr actor), (''onBehalfOf'', JStr (tkAssignee task))])))))))"

definition decideChange ::
  "aggregate \<Rightarrow> stage_row \<Rightarrow> task_row \<Rightarrow> ident \<Rightarrow> ident option \<Rightarrow> task_decision \<Rightarrow> string option \<Rightarrow> stage_outcome \<Rightarrow> change" where
  "decideChange ag stage task actor delegationId decision remark result =
     (let w = agInstance ag in
      wfChange (auditActionFor decision) ''TASK'' (tkId task) None
        (Some [(''workflowInstanceId'', JStr (wiId w)), (''documentId'', JStr (wiDocumentId w)),
           (''revisionId'', JStr (wiRevisionId w)), (''stageIndex'', JNum (int (wsIndex stage))),
           (''stageName'', JStr (wsName stage)), (''decision'', JStr (decisionName decision)), (''decidedBy'', JStr actor),
           (''onBehalfOf'', if delegationId = None then JNull else JStr (tkAssignee task)),
           (''delegationId'', jopt delegationId), (''comment'', jopt remark), (''stageOutcome'', JStr (outcomeName result))]))"

definition decideLoaded ::
  "wf_ports \<Rightarrow> request \<Rightarrow> aggregate \<Rightarrow> task_row \<Rightarrow> task_decision \<Rightarrow> string option
   \<Rightarrow> ('z, (ident \<times> timer_row list) \<times> change) wtx" where
  "decideLoaded p rq ag task decision remark =
     bindT (requireApprover rq) (\<lambda>actor.
     thenT (requireT (wiState (agInstance ag) = InsRUNNING)
              (ValidationError ''This approval is not running.'' [(''status'', instanceStatusName (wiState (agInstance ag)))]))
     (bindT (authoriseDecision p rq actor task decision) (\<lambda>delegationId.
     thenT (requireT (decision = DecAPPROVED \<or> remark \<noteq> None)
              (ValidationError ''A rejection or a request for changes has to say why.'' [(''comment'', ''required'')]))
     (bindT (requireStage ag (tkStage task)) (\<lambda>stage.
     thenT (requireT (tkId task \<in> set (map tkId (actionableTasks (wsOrdered stage) (stageTasks ag (wsId stage)))))
              (ValidationError ''An earlier approver has still to decide.'' [(''sequence'', ''not yet'')]))
     (thenT (recordDecision rq ag stage task actor delegationId decision remark)
     (bindT (requireAggregate (wiId (agInstance ag))) (\<lambda>fresh.
      bindT (settleStage p rq fresh stage) (\<lambda>(result, armed).
      returnT ((wiId (agInstance ag), armed), decideChange ag stage task actor delegationId decision remark result))))))))))"

definition decide ::
  "wf_ports \<Rightarrow> request \<Rightarrow> ident \<Rightarrow> task_decision \<Rightarrow> string option \<Rightarrow> ('z, ident) wtx" where
  "decide p rq taskId decision remark =
     (let missing = NotFoundError ''The requested task'' in
      bindT (writeT rq
        (bindT (getsT (instanceIdOfTask taskId)) (\<lambda>owning.
         case owning of
           None \<Rightarrow> throwT missing
         | Some i \<Rightarrow>
             bindT (getsT (lockInstance i)) (\<lambda>held.
             thenT (requireT held missing)
             (bindT (getsT (loadAggregate i)) (\<lambda>loaded.
             case loaded of
               None \<Rightarrow> throwT missing
             | Some ag \<Rightarrow>
                 (case List.find (\<lambda>k. tkId k = taskId) (agTasks ag) of
                    None \<Rightarrow> throwT missing
                  | Some task \<Rightarrow> decideLoaded p rq ag task decision remark)))))))
      (\<lambda>(instanceId, armed). thenT (enqueue rq armed) (returnT instanceId)))"

subsection \<open>Ending\<close>

definition endWithin :: "wf_ports \<Rightarrow> request \<Rightarrow> aggregate \<Rightarrow> string \<Rightarrow> document_status \<Rightarrow> ('z, unit) wtx" where
  "endWithin p rq ag why to =
     (let w = agInstance ag in
      thenT (forEachT (\<lambda>g. if wsState g = StgACTIVE then closePendingTasks (wsId g) TaskWITHDRAWN else returnT ()) (agStages ag))
      (thenT (cancelRemainingStages (wiId w) 0)
      (thenT (cancelInstanceTimers (wiId w))
      (thenT (withNumbering p (\<lambda>_. voidReservation rq (wiId w) why))
      (thenT (endInstance (wiId w) InsCANCELLED (Some why) (now rq) False)
      (thenT (gateTransition rq (wiDocumentId w) to (wiId w) (Some why) None)
      (publishT [Event ''workflow.cancelled'' (wiId w)
         [(''workflowInstanceId'', JStr (wiId w)), (''documentId'', JStr (wiDocumentId w)), (''reason'', JStr why)]])))))))"

definition endApproval :: "wf_ports \<Rightarrow> request \<Rightarrow> ident \<Rightarrow> string \<Rightarrow> string option \<Rightarrow> document_status \<Rightarrow> ('z, unit) wtx" where
  "endApproval p rq instanceId why note_text to =
     writeT rq
       (thenT (lockApproval instanceId)
       (bindT (requireAggregate instanceId) (\<lambda>ag.
        thenT (requireT (wiState (agInstance ag) = InsRUNNING \<or> wiState (agInstance ag) = InsPAUSED)
                 (ValidationError ''This approval has already ended.''
                    [(''status'', instanceStatusName (wiState (agInstance ag)))]))
        (thenT (requireT (\<not> (list_ex (\<lambda>k. taDecision k \<noteq> None) (agTasks ag) \<and> why = ''WITHDRAWN''))
                 (ValidationError ''Somebody has already decided; this can no longer be withdrawn.'' [(''tasks'', ''decided'')]))
        (thenT (endWithin p rq ag why to)
        (thenT (case note_text of
                  None \<Rightarrow> returnT ()
                | Some text \<Rightarrow> bindT (requireApprover rq) (\<lambda>actor.
                    plainComment rq instanceId (wiDocumentId (agInstance ag)) actor text))
        (returnT ((), wfChange ''WITHDRAWN'' ''WORKFLOW'' instanceId
           (Some [(''status'', JStr (instanceStatusName (wiState (agInstance ag))))])
           (Some [(''status'', JStr ''CANCELLED''), (''reason'', JStr why), (''note'', jopt note_text),
              (''documentStatus'', JStr (statusName to))])))))))))"

definition withdraw :: "wf_ports \<Rightarrow> request \<Rightarrow> ident \<Rightarrow> string option \<Rightarrow> ('z, unit) wtx" where
  "withdraw p rq documentId note_text =
     bindT (readT (getsT (loadLiveForDocument documentId))) (\<lambda>live.
     case live of
       None \<Rightarrow> throwT (ValidationError ''This document is not in approval.'' [(''status'', ''not submitted'')])
     | Some ag \<Rightarrow>
         bindT (requireApprover rq) (\<lambda>actor.
         bindT (readT (getsT (contextForDocument p documentId))) (\<lambda>cx.
         thenT (requireT (case cx of None \<Rightarrow> True
                          | Some c \<Rightarrow> cxOwnerUserId c = actor \<or> cxAuthorUserId c = Some actor)
                  (ForbiddenError ''withdraw somebody else's submission''))
         (endApproval p rq (wiId (agInstance ag)) ''WITHDRAWN'' note_text DRAFT))))"

definition cancelApproval :: "wf_ports \<Rightarrow> request \<Rightarrow> ident \<Rightarrow> string \<Rightarrow> string option \<Rightarrow> ('z, unit) wtx" where
  "cancelApproval p rq instanceId why note_text = endApproval p rq instanceId why note_text DRAFT"

subsection \<open>Holding\<close>

definition pauseApproval :: "request \<Rightarrow> ident \<Rightarrow> string \<Rightarrow> string option \<Rightarrow> ('z, unit) wtx" where
  "pauseApproval rq instanceId why note_text =
     writeT rq
       (thenT (lockApproval instanceId)
       (bindT (requireAggregate instanceId) (\<lambda>ag.
        thenT (requireT (wiState (agInstance ag) = InsRUNNING)
                 (ValidationError ''Only a running approval can be held.''
                    [(''status'', instanceStatusName (wiState (agInstance ag)))]))
        (thenT (setPaused instanceId True (Some why) (now rq))
        (thenT (pauseInstanceTimers rq instanceId)
        (returnT ((), wfChange ''WORKFLOW_PAUSED'' ''WORKFLOW'' instanceId (Some [(''status'', JStr ''RUNNING'')])
           (Some [(''status'', JStr ''PAUSED''), (''reason'', JStr why), (''note'', jopt note_text)]))))))))"

definition resumeApproval :: "request \<Rightarrow> ident \<Rightarrow> ('z, unit) wtx" where
  "resumeApproval rq instanceId =
     writeT rq
       (thenT (lockApproval instanceId)
       (bindT (requireAggregate instanceId) (\<lambda>ag.
        thenT (requireT (wiState (agInstance ag) = InsPAUSED)
                 (ValidationError ''This approval is not being held.''
                    [(''status'', instanceStatusName (wiState (agInstance ag)))]))
        (thenT (setPaused instanceId False None (now rq))
        (thenT (resumeInstanceTimers rq instanceId)
        (returnT ((), wfChange ''WORKFLOW_PAUSED'' ''WORKFLOW'' instanceId
           (Some [(''status'', JStr ''PAUSED''), (''pausedAt'', jwhen (wiPausedAt (agInstance ag)))])
           (Some [(''status'', JStr ''RUNNING'')]))))))))"

definition commentOn :: "wf_ports \<Rightarrow> request \<Rightarrow> ident \<Rightarrow> string \<Rightarrow> ('z, unit) wtx" where
  "commentOn p rq instanceId body =
     changeT rq
       (bindT (requireAggregate instanceId) (\<lambda>ag.
        thenT (requireT (wpMayView p rq (wiDocumentId (agInstance ag))) (NotFoundError ''The requested approval''))
        (bindT (requireApprover rq) (\<lambda>actor.
         plainComment rq instanceId (wiDocumentId (agInstance ag)) actor body))))"

subsection \<open>Timers that fire\<close>

record escalation =
  esTo :: "ident list"
  esKeptOriginal :: bool
  esCount :: nat
  esCapped :: bool

definition escalationTasks ::
  "request \<Rightarrow> aggregate \<Rightarrow> stage_row \<Rightarrow> task_row list \<Rightarrow> resolved_participant list \<Rightarrow> ('z, new_task list) wtx" where
  "escalationTasks rq ag stage pending fresh =
     collectT (\<lambda>r.
       bindT (nextId rq) (\<lambda>i.
       returnT \<lparr>ntId = i, ntInstance = wiId (agInstance ag), ntStage = wsId stage, ntAssignee = rpUserId r,
          ntResolvedBy = ''ESCALATION:'' @ rpResolvedBy r, ntSequence = 0, ntDueAt = wsDueAt stage,
          ntEscalatedFrom = (case pending of [] \<Rightarrow> None | k # _ \<Rightarrow> Some (tkId k))\<rparr>)) fresh"

definition escalateTo ::
  "wf_ports \<Rightarrow> request \<Rightarrow> aggregate \<Rightarrow> stage_row \<Rightarrow> participant \<Rightarrow> bool \<Rightarrow> task_row list \<Rightarrow> ('z, escalation) wtx" where
  "escalateTo p rq ag stage target keepOriginal pending =
     (let w = agInstance ag in
      bindT (requireContextFor p (wiDocumentId w)) (\<lambda>cx.
      bindT (liftT (resolveParticipants (wpDirectory p) [target]
          (cx\<lparr>cxAuthorUserId := (case pending of [] \<Rightarrow> cxAuthorUserId cx | k # _ \<Rightarrow> Some (tkAssignee k))\<rparr>)
          (wsName stage) (map tkAssignee pending))) (\<lambda>targets.
      let fresh = filter (\<lambda>t. rpUserId t \<notin> set (map tkAssignee (stageTasks ag (wsId stage)))) targets
      in bindT (recordEscalation (wiId w)) (\<lambda>count.
         thenT (if \<not> keepOriginal then closePendingTasks (wsId stage) TaskWITHDRAWN else returnT ())
         (thenT (if fresh \<noteq> []
                 then bindT (escalationTasks rq ag stage pending fresh) (\<lambda>ts.
                      thenT (createTasks rq ts)
                      (publishT [addressed ''workflow.task-assigned'' ag (wiDocumentId w) (wsIndex stage) (wsName stage)
                         (map rpUserId fresh) (wsDueAt stage)]))
                 else returnT ())
         (thenT (forEachT (\<lambda>t. publishT [Event ''workflow.task-escalated'' (wiId w)
              [(''taskId'', JStr (case pending of [] \<Rightarrow> wiId w | k # _ \<Rightarrow> tkId k)),
               (''fromAssigneeId'', JStr (case pending of [] \<Rightarrow> '''' | k # _ \<Rightarrow> tkAssignee k)),
               (''toAssigneeId'', JStr (rpUserId t)),
               (''dueAt'', JNum (case wsDueAt stage of None \<Rightarrow> now rq | Some d \<Rightarrow> d))]]) fresh)
         (returnT \<lparr>esTo = map rpUserId fresh, esKeptOriginal = keepOriginal, esCount = count, esCapped = False\<rparr>)))))))"

definition escalate ::
  "wf_ports \<Rightarrow> request \<Rightarrow> aggregate \<Rightarrow> stage_row \<Rightarrow> stage_def option \<Rightarrow> task_row list \<Rightarrow> ('z, escalation) wtx" where
  "escalate p rq ag stage authored pending =
     (let count = wiEscalations (agInstance ag) in
      case map_option sdOnOverdue authored of
        Some (Escalate target keepOriginal) \<Rightarrow>
          if (case authored of None \<Rightarrow> 0 | Some d \<Rightarrow> sdMaxEscalations d) \<le> count
          then returnT \<lparr>esTo = [], esKeptOriginal = True, esCount = count, esCapped = True\<rparr>
          else escalateTo p rq ag stage target keepOriginal pending
      | _ \<Rightarrow> returnT \<lparr>esTo = [], esKeptOriginal = True, esCount = count, esCapped = False\<rparr>)"

definition onOverdue ::
  "wf_ports \<Rightarrow> request \<Rightarrow> aggregate \<Rightarrow> stage_row \<Rightarrow> ('z, timer_row list \<times> change) wtx" where
  "onOverdue p rq ag stage =
     (let w = agInstance ag;
          authored = stageDef (definitionFor p (wiVersionId w)) (wsIndex stage);
          behaviour = (case authored of None \<Rightarrow> NotifyOnly | Some d \<Rightarrow> sdOnOverdue d);
          pending = filter (\<lambda>k. taState k = TaskPENDING) (stageTasks ag (wsId stage))
      in
      case behaviour of
        TerminateOverdue \<Rightarrow>
          thenT (endWithin p rq ag ''ADMINISTRATIVE'' DRAFT)
          (returnT ([], wfChange ''WITHDRAWN'' ''WORKFLOW'' (wiId w) None
             (Some [(''reason'', JStr ''DEADLINE_TERMINATE''), (''stageIndex'', JNum (int (wsIndex stage)))])))
      | AutoApprove \<Rightarrow>
          thenT (forEachT (\<lambda>k. bindT (decideIfPending \<lparr>diTask = tkId k, diDecision = DecAPPROVED, diDecidedBy = tkAssignee k,
             diOnBehalfOf = None, diDelegation = None,
             diComment = Some ''Approved automatically when the stage deadline passed.'', diAt = now rq, diAuto = True\<rparr>)
             (\<lambda>_. returnT ())) pending)
          (bindT (requireAggregate (wiId w)) (\<lambda>fresh.
           bindT (settleStage p rq fresh stage) (\<lambda>(_, armed).
           returnT (armed, wfChange ''AUTO_APPROVED'' ''WORKFLOW'' (wiId w) None
             (Some [(''stageIndex'', JNum (int (wsIndex stage))), (''stageName'', JStr (wsName stage)),
                (''taskIds'', JStrs (map tkId pending)), (''nonControlling'', JBool True)])))))
      | Escalate _ _ \<Rightarrow>
          bindT (escalate p rq ag stage authored pending) (\<lambda>e.
          returnT ([], wfChange ''ESCALATED'' ''WORKFLOW'' (wiId w) None
             (Some [(''stageIndex'', JNum (int (wsIndex stage))), (''stageName'', JStr (wsName stage)),
                (''escalatedTo'', JStrs (esTo e)), (''keptOriginal'', JBool (esKeptOriginal e)),
                (''escalationCount'', JNum (int (esCount e))), (''capped'', JBool (esCapped e))])))
      | NotifyOnly \<Rightarrow>
          thenT (publishT [addressed ''workflow.overdue'' ag (wiDocumentId w) (wsIndex stage) (wsName stage)
             (map tkAssignee pending) (wsDueAt stage)])
          (returnT ([], noop (wiId w) None)))"

definition isHexDigit :: "char \<Rightarrow> bool" where
  "isHexDigit c \<longleftrightarrow> isDigit c \<or> lowerChar c \<in> set ''abcdef''"

definition isTimerUuid :: "string \<Rightarrow> bool" where
  "isTimerUuid t =
     (case splitOn (CHR ''-'') t of
        [a, b, c, d, e] \<Rightarrow>
          length a = 8 \<and> length b = 4 \<and> length c = 4 \<and> length d = 4 \<and> length e = 12 \<and>
          list_all isHexDigit (a @ b @ c @ d @ e) \<and> hd c \<in> set ''12345678'' \<and> lowerChar (hd d) \<in> set ''89ab''
      | _ \<Rightarrow> False)"

definition noopForMissingTimer :: "string \<Rightarrow> ('s, change) tx" where
  "noopForMissingTimer jobId =
     (let timerId = (if startsWith jobId TIMER_JOB_PREFIX then drop (length TIMER_JOB_PREFIX) jobId else '''')
      in thenT (requireT (isTimerUuid timerId) (ValidationError (''Not a workflow timer job: '' @ jobId) []))
         (returnT (noop timerId (Some jobId))))"

definition fireLoaded ::
  "wf_ports \<Rightarrow> request \<Rightarrow> string \<Rightarrow> timer_row \<Rightarrow> ('z, timer_row list \<times> change) wtx" where
  "fireLoaded p rq jobId timer =
     (let nothing = returnT ([], noop (tmInstance timer) (Some jobId)) in
      bindT (getsT (loadAggregate (tmInstance timer))) (\<lambda>loaded.
      case loaded of
        None \<Rightarrow> nothing
      | Some ag \<Rightarrow>
          if wiState (agInstance ag) \<noteq> InsRUNNING then nothing
          else
            (case List.find (\<lambda>g. wsId g = tmStage timer) (agStages ag) of
               None \<Rightarrow> nothing
             | Some stage \<Rightarrow>
                 if wsState stage \<noteq> StgACTIVE then nothing
                 else if tmKind timer = TimerREMINDER
                 then thenT (publishT [addressed ''workflow.reminder-due'' ag (wiDocumentId (agInstance ag)) (wsIndex stage)
                         (wsName stage) (map tkAssignee (filter (\<lambda>k. taState k = TaskPENDING) (stageTasks ag (wsId stage))))
                         (wsDueAt stage)]) nothing
                 else onOverdue p rq ag stage)))"

definition onTimerFired :: "wf_ports \<Rightarrow> request \<Rightarrow> string \<Rightarrow> ('z, unit) wtx" where
  "onTimerFired p rq jobId =
     bindT (writeT rq
       (bindT (getsT (findTimerByJobId jobId)) (\<lambda>found.
        case found of
          None \<Rightarrow> bindT (noopForMissingTimer jobId) (\<lambda>c. returnT ([], c))
        | Some timer \<Rightarrow>
            bindT (markTimerFired (tmId timer) (now rq)) (\<lambda>fired.
            if \<not> fired then returnT ([], noop (tmInstance timer) (Some jobId))
            else fireLoaded p rq jobId timer))))
     (enqueue rq)"

end
