(* ===== verification/Workflow_Frames.thy ===== *)
theory Workflow_Frames
  imports Workflow_Engine
begin

text \<open>
  What the parts of an approval leave alone: which steps of the engine touch the instances, stages and tasks, and
  which do not. Everything the proofs about approvals need of documents, numbers, timers and the queue is here.
\<close>

definition wfTables :: "'z wf_state_scheme \<Rightarrow> instance_row list \<times> stage_row list \<times> task_row list" where
  "wfTables s = (instances s, stages s, tasks s)"

lemma wfTables_simps [simp]:
  "wfTables (s\<lparr>trail := a\<rparr>) = wfTables s" "wfTables (s\<lparr>outbox := b\<rparr>) = wfTables s"
  "wfTables (s\<lparr>serial := c\<rparr>) = wfTables s" "wfTables (s\<lparr>invalidations := d\<rparr>) = wfTables s"
  "wfTables (s\<lparr>timers := e\<rparr>) = wfTables s" "wfTables (s\<lparr>comments := f\<rparr>) = wfTables s"
  "wfTables (s\<lparr>queueCalls := g\<rparr>) = wfTables s"
  by (simp_all add: wfTables_def)

lemma aside_wfTables [simp]: "aside wfTables"
  by (simp add: aside_def)

lemma aside_more [simp]: "aside num_state.more"
  by (simp add: aside_def)

lemma same_more_same_tables: "num_state.more s' = num_state.more s \<Longrightarrow> wfTables s' = wfTables s"
  by (cases s; cases s') (simp add: wfTables_def)

lemma same_doc_more: "doc_state.more s' = doc_state.more s \<Longrightarrow> num_state.more s' = num_state.more s"
  by (cases s; cases s') simp

lemma leaves_onDocs_more [leaves_intros]: "leaves num_state.more (onDocs m)"
  using onDocs_leaves_more [of m] by (auto simp: leaves_def intro: same_doc_more)

lemma leaves_tables: "leaves num_state.more m \<Longrightarrow> leaves wfTables m"
  by (auto simp: leaves_def intro: same_more_same_tables)

lemmas leaves_numbers = leaves_aside [OF aside_more]

subsection \<open>Numbers, timers, comments and the document\<close>

lemma leaves_more_numbers [leaves_intros]:
  "leaves num_state.more (reserveNumber c rq rule codes d w)" "leaves num_state.more (commitNumber rq r d)"
  "leaves num_state.more (releaseNumber rq r why)" "leaves num_state.more (reservationForInstance w)"
  unfolding reserveNumber_def commitNumber_def releaseNumber_def reservationForInstance_def draw_def claimNext_def
    upsertSequence_def insertReservation_def markAssigned_def markVoided_def claimReservation_def voidClaimed_def
    requireRule_def
  by (intro leaves_intros leaves_numbers; simp)+

lemma leaves_tables_numbering [leaves_intros]:
  "leaves wfTables (reserveForSubmission n rq d w)" "leaves wfTables (assignAtApproval n rq d w)"
  "leaves wfTables (voidReservation rq w why)"
  unfolding reserveForSubmission_def assignAtApproval_def voidReservation_def writeNumber_def requireNumbering_def
  by (intro leaves_tables leaves_intros leaves_numbers)+

lemma leaves_tables_docs [leaves_intros]:
  "leaves wfTables (onDocs m)" "leaves wfTables (gateTransition rq d to w why remark)"
  unfolding gateTransition_def by (intro leaves_tables leaves_intros)+

lemmas leaves_log = leaves_aside [OF aside_wfTables]

lemma leaves_collect [leaves_intros]: "(\<And>x. leaves t (f x)) \<Longrightarrow> leaves t (collectT f xs)"
  by (induction xs) (auto intro!: leaves_intros)

lemma leaves_tables_timers [leaves_intros]:
  "leaves wfTables (createTimers ts)" "leaves wfTables (updateTimers P f)" "leaves wfTables (callQueue calls)"
  "leaves wfTables (addComment c)"
  unfolding createTimers_def updateTimers_def callQueue_def addComment_def by (intro leaves_intros; simp)+

lemma leaves_tables_queue [leaves_intros]:
  "leaves wfTables (newTimer rq i g t k at off)" "leaves wfTables (plan rq inp)" "leaves wfTables (enqueue rq ts)"
  "leaves wfTables (dropJobs ts)" "leaves wfTables (markTimerFired tm at)" "leaves wfTables (cancelStageTimers g)"
  "leaves wfTables (cancelInstanceTimers i)" "leaves wfTables (pauseInstanceTimers rq i)"
  "leaves wfTables (resumeInstanceTimers rq i)" "leaves wfTables (plainComment rq i d a b)"
  unfolding newTimer_def plan_def planReminder_def enqueue_def enqueueOne_def dropJobs_def markTimerFired_def
    cancelStageTimers_def cancelInstanceTimers_def pauseInstanceTimers_def resumeInstanceTimers_def
    cancelTimersForStage_def cancelTimersForInstance_def cancelTimers_def pauseTimers_def resumeTimers_def
    plainComment_def
  by (intro leaves_intros leaves_log)+

lemma leaves_tables_readers [leaves_intros]:
  "leaves wfTables (requireContextFor p d)" "leaves wfTables (requireAggregate i)" "leaves wfTables (lockApproval i)"
  "leaves wfTables (requireStage ag g)" "leaves wfTables (requireApprover rq)"
  "leaves wfTables (newTasks rq ag stage due rs)" "leaves wfTables (newStages rq i body)"
  "leaves wfTables (escalationTasks rq ag stage ks rs)" "leaves wfTables (noopForMissingTimer j)"
  unfolding requireContextFor_def requireAggregate_def lockApproval_def requireStage_def requireApprover_def
    newTasks_def newStages_def escalationTasks_def noopForMissingTimer_def
  by (intro leaves_intros leaves_log)+

end
