(* ===== verification/Workflow_Invariants.thy ===== *)
theory Workflow_Invariants
  imports Workflow_Frames
begin

text \<open>
  The invariant of the approval tables. Its shape is what the database's keys and constraints say; its content is
  that a live approval stands at one active stage with every earlier stage passed and every later one untouched,
  and that a completed approval has passed them all. A stage is passed when its condition scoped it away or when
  the completion rule its definition gives it is met by decisions that can no longer change.
\<close>

subsection \<open>Shape\<close>

definition rowShape :: "instance_row list \<Rightarrow> stage_row list \<Rightarrow> task_row list \<Rightarrow> bool" where
  "rowShape ws gs ks \<longleftrightarrow>
     distinct (map wiId ws) \<and> uniqueWhere liveInstance wiDocumentId wiId ws \<and>
     (\<forall>w \<in> set ws. endedInstance w \<longleftrightarrow> wiEndedAt w \<noteq> None) \<and>
     (\<forall>g \<in> set gs. wsInstance g \<in> set (map wiId ws)) \<and>
     distinct (map wsId gs) \<and> uniqueWhere (\<lambda>_. True) (\<lambda>g. (wsInstance g, wsIndex g)) wsId gs \<and>
     distinct (map tkId ks) \<and> uniqueWhere (\<lambda>_. True) (\<lambda>k. (tkStage k, tkAssignee k)) tkId ks \<and>
     (\<forall>k \<in> set ks. \<exists>g \<in> set gs. wsId g = tkStage k \<and> wsInstance g = tkInstance k) \<and>
     (\<forall>k \<in> set ks. taState k = TaskDECIDED \<longleftrightarrow> taDecision k \<noteq> None)"

definition shapely :: "'z wf_state_scheme \<Rightarrow> bool" where
  "shapely s \<longleftrightarrow> rowShape (instances s) (stages s) (tasks s)"

lemma endedInstance_iff: "endedInstance w \<longleftrightarrow> \<not> liveInstance w"
  by (cases "wiState w") (auto simp: endedInstance_def liveInstance_def)

text \<open>What an update of a row may not change.\<close>

definition sameStage :: "stage_row \<Rightarrow> stage_row \<Rightarrow> bool" where
  "sameStage g h \<longleftrightarrow> wsId g = wsId h \<and> wsInstance g = wsInstance h \<and> wsIndex g = wsIndex h \<and> wsRule g = wsRule h \<and>
     wsThreshold g = wsThreshold h"

definition sameTask :: "task_row \<Rightarrow> task_row \<Rightarrow> bool" where
  "sameTask k h \<longleftrightarrow> tkId k = tkId h \<and> tkInstance k = tkInstance h \<and> tkStage k = tkStage h \<and> tkAssignee k = tkAssignee h"

definition sameInstance :: "instance_row \<Rightarrow> instance_row \<Rightarrow> bool" where
  "sameInstance w v \<longleftrightarrow> wiId w = wiId v \<and> wiDocumentId w = wiDocumentId v \<and> wiVersionId w = wiVersionId v"

lemma shape_update_stages:
  assumes "rowShape ws gs ks" and "\<And>g. sameStage (f g) g"
  shows "rowShape ws (updateWhere P f gs) ks"
proof -
  have "map wsId (updateWhere P f gs) = map wsId gs" using assms(2) by (intro map_updateWhere) (simp add: sameStage_def)
  moreover have "uniqueWhere (\<lambda>_. True) (\<lambda>g. (wsInstance g, wsIndex g)) wsId (updateWhere P f gs)"
    by (rule uniqueWhere_update) (use assms in \<open>auto simp: rowShape_def sameStage_def\<close>)
  moreover have "\<forall>g \<in> set (updateWhere P f gs). wsInstance g \<in> set (map wiId ws)"
    unfolding ball_updateWhere using assms by (simp add: rowShape_def sameStage_def)
  moreover have "\<forall>k \<in> set ks. \<exists>g \<in> set (updateWhere P f gs). wsId g = tkStage k \<and> wsInstance g = tkInstance k"
    unfolding bex_updateWhere using assms by (fastforce simp: rowShape_def sameStage_def)
  ultimately show ?thesis using assms(1) unfolding rowShape_def by simp
qed

lemma shape_update_tasks:
  assumes "rowShape ws gs ks" and "\<And>k. P k \<Longrightarrow> sameTask (f k) k"
    and "\<And>k. P k \<Longrightarrow> taState (f k) = TaskDECIDED \<longleftrightarrow> taDecision (f k) \<noteq> None"
  shows "rowShape ws gs (updateWhere P f ks)"
proof -
  have "map tkId (updateWhere P f ks) = map tkId ks" using assms(2) by (intro map_updateWhere) (simp add: sameTask_def)
  moreover have "uniqueWhere (\<lambda>_. True) (\<lambda>k. (tkStage k, tkAssignee k)) tkId (updateWhere P f ks)"
    by (rule uniqueWhere_update) (use assms in \<open>auto simp: rowShape_def sameTask_def\<close>)
  moreover have "\<forall>k \<in> set (updateWhere P f ks). \<exists>g \<in> set gs. wsId g = tkStage k \<and> wsInstance g = tkInstance k"
    unfolding ball_updateWhere using assms by (auto simp: rowShape_def sameTask_def)
  moreover have "\<forall>k \<in> set (updateWhere P f ks). taState k = TaskDECIDED \<longleftrightarrow> taDecision k \<noteq> None"
    unfolding ball_updateWhere using assms by (auto simp: rowShape_def)
  ultimately show ?thesis using assms(1) by (simp add: rowShape_def)
qed

lemma shape_update_instances:
  assumes "rowShape ws gs ks" and "\<And>w. w \<in> set ws \<Longrightarrow> P w \<Longrightarrow> sameInstance (f w) w"
    and "\<And>w. w \<in> set ws \<Longrightarrow> P w \<Longrightarrow> liveInstance (f w) \<Longrightarrow> liveInstance w"
    and "\<And>w. w \<in> set ws \<Longrightarrow> P w \<Longrightarrow> endedInstance (f w) \<longleftrightarrow> wiEndedAt (f w) \<noteq> None"
  shows "rowShape (updateWhere P f ws) gs ks"
proof -
  have "map wiId (updateWhere P f ws) = map wiId ws"
    unfolding updateWhere_def using assms(2) by (simp add: sameInstance_def)
  moreover have "uniqueWhere liveInstance wiDocumentId wiId (updateWhere P f ws)"
    by (rule uniqueWhere_update) (use assms in \<open>auto simp: rowShape_def sameInstance_def\<close>)
  moreover have "\<forall>w \<in> set (updateWhere P f ws). endedInstance w \<longleftrightarrow> wiEndedAt w \<noteq> None"
    unfolding ball_updateWhere using assms by (auto simp: rowShape_def)
  ultimately show ?thesis using assms(1) by (simp add: rowShape_def)
qed

lemma shape_insert_task:
  assumes "rowShape ws gs ks" and "\<forall>h \<in> set ks. tkId h \<noteq> tkId k"
    and "\<forall>h \<in> set ks. \<not> (tkStage h = tkStage k \<and> tkAssignee h = tkAssignee k)"
    and "\<exists>g \<in> set gs. wsId g = tkStage k \<and> wsInstance g = tkInstance k" and "taState k = TaskPENDING" "taDecision k = None"
  shows "rowShape ws gs (ks @ [k])"
proof -
  have "uniqueWhere (\<lambda>_. True) (\<lambda>k. (tkStage k, tkAssignee k)) tkId (ks @ [k])"
    by (rule uniqueWhere_append) (use assms in \<open>auto simp: rowShape_def\<close>)
  then show ?thesis using assms by (auto simp: rowShape_def)
qed

subsection \<open>Content\<close>

definition tasksOf :: "task_row list \<Rightarrow> ident \<Rightarrow> task_row list" where
  "tasksOf ks x = filter (\<lambda>k. tkStage k = x) ks"

definition settled :: "stage_row \<Rightarrow> task_row list \<Rightarrow> bool" where
  "settled g ks \<longleftrightarrow>
     evaluateStage (stageRule g) (tasksOf ks (wsId g)) = OutAPPROVED \<and> (\<forall>k \<in> set (tasksOf ks (wsId g)). taState k \<noteq> TaskPENDING)"

definition passed :: "stage_row \<Rightarrow> task_row list \<Rightarrow> bool" where
  "passed g ks \<longleftrightarrow> wsState g = StgSKIPPED \<and> tasksOf ks (wsId g) = [] \<or> wsState g = StgCOMPLETED \<and> settled g ks"

definition untouched :: "stage_row \<Rightarrow> task_row list \<Rightarrow> bool" where
  "untouched g ks \<longleftrightarrow> wsState g = StgPENDING \<and> tasksOf ks (wsId g) = []"

definition mid :: "ident \<Rightarrow> nat \<Rightarrow> stage_row list \<Rightarrow> task_row list \<Rightarrow> bool" where
  "mid i n gs ks \<longleftrightarrow>
     (\<forall>g \<in> set gs. wsInstance g = i \<longrightarrow> (wsIndex g < n \<longrightarrow> passed g ks) \<and> (n < wsIndex g \<longrightarrow> untouched g ks))"

definition frontier :: "ident \<Rightarrow> nat \<Rightarrow> stage_row list \<Rightarrow> task_row list \<Rightarrow> bool" where
  "frontier i n gs ks \<longleftrightarrow>
     (\<forall>g \<in> set gs. wsInstance g = i \<longrightarrow> (wsIndex g < n \<longrightarrow> passed g ks) \<and> (n \<le> wsIndex g \<longrightarrow> untouched g ks))"

definition atRest :: "ident \<Rightarrow> nat \<Rightarrow> stage_row list \<Rightarrow> task_row list \<Rightarrow> bool" where
  "atRest i n gs ks \<longleftrightarrow>
     mid i n gs ks \<and> (\<exists>g \<in> set gs. wsInstance g = i \<and> wsIndex g = n) \<and>
     (\<forall>g \<in> set gs. wsInstance g = i \<longrightarrow> wsIndex g = n \<longrightarrow> wsState g = StgACTIVE)"

text \<open>The stages of an approval are those of the version it is bound to.\<close>

definition boundTo :: "wf_ports \<Rightarrow> ident \<Rightarrow> ident \<Rightarrow> stage_row list \<Rightarrow> bool" where
  "boundTo p i v gs \<longleftrightarrow>
     (case definitionFor p v of
        None \<Rightarrow> False
      | Some body \<Rightarrow>
          wsIndex ` {g \<in> set gs. wsInstance g = i} = {..<length (dbStages body)} \<and>
          (\<forall>g \<in> set gs. wsInstance g = i \<longrightarrow>
             wsRule g = sdRule (dbStages body ! wsIndex g) \<and> wsThreshold g = sdThreshold (dbStages body ! wsIndex g)))"

definition instanceOk :: "wf_ports \<Rightarrow> stage_row list \<Rightarrow> task_row list \<Rightarrow> instance_row \<Rightarrow> bool" where
  "instanceOk p gs ks w \<longleftrightarrow>
     boundTo p (wiId w) (wiVersionId w) gs \<and>
     (liveInstance w \<longrightarrow> (\<exists>n. atRest (wiId w) n gs ks)) \<and>
     (wiState w = InsCOMPLETED \<longrightarrow> (\<forall>g \<in> set gs. wsInstance g = wiId w \<longrightarrow> passed g ks))"

definition wfInv :: "wf_ports \<Rightarrow> 'z wf_state_scheme \<Rightarrow> bool" where
  "wfInv p s \<longleftrightarrow> shapely s \<and> (\<forall>w \<in> set (instances s). instanceOk p (stages s) (tasks s) w)"

subsection \<open>Changes inside one approval\<close>

definition within :: "ident \<Rightarrow> 'z wf_state_scheme \<Rightarrow> 'z wf_state_scheme \<Rightarrow> bool" where
  "within i s0 s \<longleftrightarrow>
     shapely s \<and> list_all2 sameStage (stages s) (stages s0) \<and>
     filter (\<lambda>g. wsInstance g \<noteq> i) (stages s) = filter (\<lambda>g. wsInstance g \<noteq> i) (stages s0) \<and>
     filter (\<lambda>k. tkInstance k \<noteq> i) (tasks s) = filter (\<lambda>k. tkInstance k \<noteq> i) (tasks s0) \<and>
     filter (\<lambda>w. wiId w \<noteq> i) (instances s) = filter (\<lambda>w. wiId w \<noteq> i) (instances s0)"

lemma within_refl: "shapely s \<Longrightarrow> within i s s"
  by (simp add: within_def list_all2_same sameStage_def)

lemma within_tables: "wfTables s' = wfTables s \<Longrightarrow> within i s0 s' = within i s0 s"
  by (simp add: within_def wfTables_def shapely_def)

lemma tasksOf_elsewhere:
  assumes "rowShape ws gs ks" and "g \<in> set gs" and "wsInstance g \<noteq> i"
  shows "tasksOf ks (wsId g) = tasksOf (filter (\<lambda>k. tkInstance k \<noteq> i) ks) (wsId g)"
proof -
  have "tkInstance k \<noteq> i" if "k \<in> set ks" "tkStage k = wsId g" for k
  proof -
    obtain h where h: "h \<in> set gs" "wsId h = tkStage k" "wsInstance h = tkInstance k"
      using assms(1) \<open>k \<in> set ks\<close> by (auto simp: rowShape_def)
    have "h = g" using distinct_map_eq [of wsId gs h g] assms h that by (simp add: rowShape_def)
    then show ?thesis using h(3) assms(3) by simp
  qed
  then show ?thesis unfolding tasksOf_def filter_filter by (intro filter_cong) auto
qed

lemma passed_tasks: "tasksOf ks' (wsId g) = tasksOf ks (wsId g) \<Longrightarrow> passed g ks' = passed g ks"
  by (simp add: passed_def settled_def)

lemma untouched_tasks: "tasksOf ks' (wsId g) = tasksOf ks (wsId g) \<Longrightarrow> untouched g ks' = untouched g ks"
  by (simp add: untouched_def)

lemma within_elsewhere:
  assumes w: "within i s0 s" and "shapely s0" and "j \<noteq> i"
  shows "g \<in> set (stages s) \<and> wsInstance g = j \<longleftrightarrow> g \<in> set (stages s0) \<and> wsInstance g = j"
    and "\<lbrakk>g \<in> set (stages s); wsInstance g = j\<rbrakk> \<Longrightarrow> tasksOf (tasks s) (wsId g) = tasksOf (tasks s0) (wsId g)"
proof -
  have "g \<in> set (filter (\<lambda>g. wsInstance g \<noteq> i) (stages s)) \<longleftrightarrow> g \<in> set (filter (\<lambda>g. wsInstance g \<noteq> i) (stages s0))" for g
    using w by (simp add: within_def)
  then show eq: "g \<in> set (stages s) \<and> wsInstance g = j \<longleftrightarrow> g \<in> set (stages s0) \<and> wsInstance g = j" for g
    using \<open>j \<noteq> i\<close> by auto
  assume g: "g \<in> set (stages s)" "wsInstance g = j"
  have "tasksOf (tasks s) (wsId g) = tasksOf (filter (\<lambda>k. tkInstance k \<noteq> i) (tasks s)) (wsId g)"
    using w g \<open>j \<noteq> i\<close> by (intro tasksOf_elsewhere [of "instances s" "stages s"]) (auto simp: within_def shapely_def)
  moreover have "tasksOf (tasks s0) (wsId g) = tasksOf (filter (\<lambda>k. tkInstance k \<noteq> i) (tasks s0)) (wsId g)"
    using eq [of g] g \<open>j \<noteq> i\<close> \<open>shapely s0\<close> by (intro tasksOf_elsewhere [of "instances s0" "stages s0"]) (auto simp: shapely_def)
  ultimately show "tasksOf (tasks s) (wsId g) = tasksOf (tasks s0) (wsId g)" using w by (simp add: within_def)
qed

lemma phases_local:
  assumes "\<And>g. g \<in> set gs' \<and> wsInstance g = j \<longleftrightarrow> g \<in> set gs \<and> wsInstance g = j"
    and "\<And>g. \<lbrakk>g \<in> set gs'; wsInstance g = j\<rbrakk> \<Longrightarrow> tasksOf ks' (wsId g) = tasksOf ks (wsId g)"
  shows "boundTo p j v gs' = boundTo p j v gs" and "atRest j n gs' ks' = atRest j n gs ks"
    and "(\<forall>g \<in> set gs'. wsInstance g = j \<longrightarrow> passed g ks') = (\<forall>g \<in> set gs. wsInstance g = j \<longrightarrow> passed g ks)"
proof -
  have set_eq: "{g \<in> set gs'. wsInstance g = j} = {g \<in> set gs. wsInstance g = j}" using assms(1) by auto
  have ball: "(\<forall>g \<in> set gs'. wsInstance g = j \<longrightarrow> Q g) = (\<forall>g \<in> set gs. wsInstance g = j \<longrightarrow> Q g)" for Q using assms(1) by blast
  have same: "passed g ks' = passed g ks" "untouched g ks' = untouched g ks" if "g \<in> set gs" "wsInstance g = j" for g
  proof -
    have "tasksOf ks' (wsId g) = tasksOf ks (wsId g)" using assms(1) [of g] assms(2) [of g] that by blast
    then show "passed g ks' = passed g ks" "untouched g ks' = untouched g ks"
      by (rule passed_tasks, rule untouched_tasks)
  qed
  have tasks: "(\<forall>g \<in> set gs. wsInstance g = j \<longrightarrow> Q g (passed g ks') (untouched g ks'))
      = (\<forall>g \<in> set gs. wsInstance g = j \<longrightarrow> Q g (passed g ks) (untouched g ks))" for Q
    by (intro ball_cong refl imp_cong) (simp add: same)
  show "boundTo p j v gs' = boundTo p j v gs" unfolding boundTo_def set_eq ball ..
  have ex: "(\<exists>g \<in> set gs'. wsInstance g = j \<and> wsIndex g = n) = (\<exists>g \<in> set gs. wsInstance g = j \<and> wsIndex g = n)"
    using assms(1) by blast
  have "mid j n gs' ks' = mid j n gs ks"
    unfolding mid_def ball by (rule tasks [of "\<lambda>g a b. (wsIndex g < n \<longrightarrow> a) \<and> (n < wsIndex g \<longrightarrow> b)"])
  then show "atRest j n gs' ks' = atRest j n gs ks" unfolding atRest_def ball ex by simp
  show "(\<forall>g \<in> set gs'. wsInstance g = j \<longrightarrow> passed g ks') = (\<forall>g \<in> set gs. wsInstance g = j \<longrightarrow> passed g ks)"
    unfolding ball by (rule tasks [of "\<lambda>g a b. a"])
qed

lemma instanceOk_elsewhere:
  assumes "within i s0 s" and "shapely s0" and "wiId w \<noteq> i"
  shows "instanceOk p (stages s) (tasks s) w = instanceOk p (stages s0) (tasks s0) w"
  unfolding instanceOk_def
  using phases_local [of "stages s" "wiId w" "stages s0" "tasks s" "tasks s0", OF within_elsewhere [OF assms]]
  by (intro conj_cong imp_cong ex_cong1 refl) simp_all

definition okBut :: "wf_ports \<Rightarrow> ident \<Rightarrow> 'z wf_state_scheme \<Rightarrow> bool" where
  "okBut p i s \<longleftrightarrow> shapely s \<and> (\<forall>w \<in> set (instances s). wiId w \<noteq> i \<longrightarrow> instanceOk p (stages s) (tasks s) w)"

definition finished :: "wf_ports \<Rightarrow> ident \<Rightarrow> 'z wf_state_scheme \<Rightarrow> 'z wf_state_scheme \<Rightarrow> bool" where
  "finished p i s0 s \<longleftrightarrow>
     within i s0 s \<and> (\<forall>w \<in> set (instances s). wiId w = i \<longrightarrow> instanceOk p (stages s) (tasks s) w)"

lemma wfInv_finished:
  assumes "okBut p i s0" and "finished p i s0 s"
  shows "wfInv p s"
proof -
  have w: "within i s0 s" and s0: "shapely s0" using assms by (simp_all add: finished_def okBut_def)
  have same: "filter (\<lambda>w. wiId w \<noteq> i) (instances s) = filter (\<lambda>w. wiId w \<noteq> i) (instances s0)" using w by (simp add: within_def)
  have "instanceOk p (stages s) (tasks s) w" if "w \<in> set (instances s)" for w
  proof (cases "wiId w = i")
    case False
    then have "w \<in> set (filter (\<lambda>w. wiId w \<noteq> i) (instances s0))" using that unfolding same [symmetric] by simp
    then show ?thesis using assms(1) instanceOk_elsewhere [OF w s0 False] by (simp add: okBut_def)
  qed (use assms(2) that in \<open>simp add: finished_def\<close>)
  then show ?thesis using w by (simp add: wfInv_def within_def)
qed

lemma finished_tables: "wfTables s' = wfTables s \<Longrightarrow> finished p i s0 s' = finished p i s0 s"
  using within_tables [of s' s i s0] by (simp add: finished_def wfTables_def)

subsection \<open>Updates inside one approval\<close>

lemma filter_updateWhere_other:
  "(\<And>r. r \<in> set rows \<Longrightarrow> P r \<Longrightarrow> \<not> Q r \<and> \<not> Q (f r)) \<Longrightarrow> filter Q (updateWhere P f rows) = filter Q rows"
  by (induction rows) auto

lemma list_all2_updateWhere:
  assumes "list_all2 R rows rows0" and "\<And>r r0. \<lbrakk>R r r0; P r\<rbrakk> \<Longrightarrow> R (f r) r0"
  shows "list_all2 R (updateWhere P f rows) rows0"
  using assms(1) by (induction rule: list_all2_induct) (auto intro: assms(2))

lemma within_update_stages:
  assumes "within i s0 s" and "\<forall>g \<in> set (stages s). P g \<longrightarrow> wsInstance g = i" and same: "\<And>g. sameStage (f g) g"
  shows "within i s0 (s\<lparr>stages := updateWhere P f (stages s)\<rparr>)"
proof -
  have "list_all2 sameStage (updateWhere P f (stages s)) (stages s0)"
    by (rule list_all2_updateWhere) (use assms(1) same in \<open>auto simp: within_def sameStage_def\<close>)
  moreover have "filter (\<lambda>g. wsInstance g \<noteq> i) (updateWhere P f (stages s)) = filter (\<lambda>g. wsInstance g \<noteq> i) (stages s)"
    by (rule filter_updateWhere_other) (use assms(2) same in \<open>auto simp: sameStage_def\<close>)
  moreover have "rowShape (instances s) (updateWhere P f (stages s)) (tasks s)"
    by (rule shape_update_stages) (use assms(1) same in \<open>auto simp: within_def shapely_def\<close>)
  ultimately show ?thesis using assms(1) by (simp add: within_def shapely_def)
qed

lemma within_update_tasks:
  assumes "within i s0 s" and own: "\<forall>k \<in> set (tasks s). P k \<longrightarrow> tkInstance k = i" and same: "\<And>k. sameTask (f k) k"
    and ck: "\<And>k. P k \<Longrightarrow> taState (f k) = TaskDECIDED \<longleftrightarrow> taDecision (f k) \<noteq> None"
  shows "within i s0 (s\<lparr>tasks := updateWhere P f (tasks s)\<rparr>)"
proof -
  have "filter (\<lambda>k. tkInstance k \<noteq> i) (updateWhere P f (tasks s)) = filter (\<lambda>k. tkInstance k \<noteq> i) (tasks s)"
    by (rule filter_updateWhere_other) (use own same in \<open>auto simp: sameTask_def\<close>)
  moreover have "rowShape (instances s) (stages s) (updateWhere P f (tasks s))"
    by (rule shape_update_tasks) (use assms(1) same ck in \<open>auto simp: within_def shapely_def\<close>)
  ultimately show ?thesis using assms(1) by (simp add: within_def shapely_def)
qed

lemma within_update_instances:
  assumes "within i s0 s" and own: "\<And>w. P w \<Longrightarrow> wiId w = i" and same: "\<And>w. sameInstance (f w) w"
    and "\<And>w. w \<in> set (instances s) \<Longrightarrow> P w \<Longrightarrow> liveInstance (f w) \<Longrightarrow> liveInstance w"
    and "\<And>w. w \<in> set (instances s) \<Longrightarrow> P w \<Longrightarrow> endedInstance (f w) \<longleftrightarrow> wiEndedAt (f w) \<noteq> None"
  shows "within i s0 (s\<lparr>instances := updateWhere P f (instances s)\<rparr>)"
proof -
  have "filter (\<lambda>w. wiId w \<noteq> i) (updateWhere P f (instances s)) = filter (\<lambda>w. wiId w \<noteq> i) (instances s)"
    by (rule filter_updateWhere_other) (use own same in \<open>auto simp: sameInstance_def\<close>)
  moreover have "rowShape (updateWhere P f (instances s)) (stages s) (tasks s)"
    by (rule shape_update_instances) (use assms in \<open>auto simp: within_def shapely_def\<close>)
  ultimately show ?thesis using assms(1) by (simp add: within_def shapely_def)
qed

definition stageAt :: "ident \<Rightarrow> nat \<Rightarrow> ident \<Rightarrow> stage_row list \<Rightarrow> bool" where
  "stageAt i n x gs \<longleftrightarrow> (\<exists>g \<in> set gs. wsId g = x \<and> wsInstance g = i \<and> wsIndex g = n)"

lemma list_all2_mem: "list_all2 R xs ys \<Longrightarrow> x \<in> set xs \<Longrightarrow> \<exists>y \<in> set ys. R x y"
  by (induction rule: list_all2_induct) auto

lemma list_all2_mem2: "list_all2 R xs ys \<Longrightarrow> y \<in> set ys \<Longrightarrow> \<exists>x \<in> set xs. R x y"
  by (induction rule: list_all2_induct) auto

lemma stageAt_within:
  assumes "within i s0 s"
  shows "stageAt j n x (stages s) = stageAt j n x (stages s0)"
proof -
  have all: "list_all2 sameStage (stages s) (stages s0)" using assms by (simp add: within_def)
  show ?thesis using list_all2_mem [OF all] list_all2_mem2 [OF all] by (fastforce simp: sameStage_def stageAt_def)
qed

lemma boundTo_within:
  assumes "within i s0 s"
  shows "boundTo p j v (stages s) = boundTo p j v (stages s0)"
proof -
  have all: "list_all2 sameStage (stages s) (stages s0)" using assms by (simp add: within_def)
  have idx: "wsIndex ` {g \<in> set (stages s). wsInstance g = j} = wsIndex ` {g \<in> set (stages s0). wsInstance g = j}"
    using list_all2_mem [OF all] list_all2_mem2 [OF all] by (fastforce simp: sameStage_def image_iff)
  have rules: "(\<forall>g \<in> set (stages s). wsInstance g = j \<longrightarrow>
        wsRule g = sdRule (dbStages b ! wsIndex g) \<and> wsThreshold g = sdThreshold (dbStages b ! wsIndex g))
      = (\<forall>g \<in> set (stages s0). wsInstance g = j \<longrightarrow>
        wsRule g = sdRule (dbStages b ! wsIndex g) \<and> wsThreshold g = sdThreshold (dbStages b ! wsIndex g))" for b
    using list_all2_mem [OF all] list_all2_mem2 [OF all] by (fastforce simp: sameStage_def)
  show ?thesis unfolding boundTo_def by (simp only: idx rules)
qed

lemma stageAt_id:
  assumes "rowShape ws gs ks" and "stageAt i n x gs" and "g \<in> set gs"
  shows "wsId g = x \<longleftrightarrow> wsInstance g = i \<and> wsIndex g = n"
proof -
  obtain h where h: "h \<in> set gs" "wsId h = x" "wsInstance h = i" "wsIndex h = n" using assms(2) by (auto simp: stageAt_def)
  have "uniqueWhere (\<lambda>_. True) (\<lambda>g. (wsInstance g, wsIndex g)) wsId gs" "distinct (map wsId gs)"
    using assms(1) by (simp_all add: rowShape_def)
  then show ?thesis using h assms(3) uniqueWhereD [of "\<lambda>_. True" "\<lambda>g. (wsInstance g, wsIndex g)" wsId gs g h]
      distinct_map_eq [of wsId gs g h] by auto
qed

text \<open>The tasks of the stage at \<open>n\<close> may change without touching the stages around it.\<close>

lemma mid_tasks:
  assumes "rowShape ws gs ks" and "stageAt i n x gs" and "mid i n gs ks"
    and "\<And>y. y \<noteq> x \<Longrightarrow> tasksOf ks' y = tasksOf ks y"
  shows "mid i n gs ks'"
proof -
  have "wsId g \<noteq> x" if "g \<in> set gs" "wsIndex g \<noteq> n" for g using stageAt_id [OF assms(1,2) that(1)] that(2) by simp
  then have "tasksOf ks' (wsId g) = tasksOf ks (wsId g)" if "g \<in> set gs" "wsIndex g \<noteq> n" for g using assms(4) that by blast
  then show ?thesis using assms(3) passed_tasks untouched_tasks unfolding mid_def by (metis nat_neq_iff)
qed

lemma atRest_tasks:
  assumes "rowShape ws gs ks" and "stageAt i n x gs" and "atRest i n gs ks"
    and "\<And>y. y \<noteq> x \<Longrightarrow> tasksOf ks' y = tasksOf ks y"
  shows "atRest i n gs ks'"
  using mid_tasks [OF assms(1,2) _ assms(4)] assms(3) by (simp add: atRest_def)

lemma pending_task_at_rest:
  assumes "rowShape ws gs ks" and "mid i n gs ks" and "k \<in> set ks" "tkInstance k = i" "taState k = TaskPENDING"
  shows "stageAt i n (tkStage k) gs"
proof -
  obtain g where g: "g \<in> set gs" "wsId g = tkStage k" "wsInstance g = i" using assms(1,3,4) by (auto simp: rowShape_def)
  have k: "k \<in> set (tasksOf ks (wsId g))" using g assms(3) by (simp add: tasksOf_def)
  have "\<not> passed g ks" "\<not> untouched g ks" using k assms(5) by (auto simp: passed_def settled_def untouched_def)
  then have "wsIndex g = n" using assms(2) g by (auto simp: mid_def)
  then show ?thesis using g by (auto simp: stageAt_def)
qed

lemma skip_moves_frontier:
  assumes "rowShape ws gs ks" and "stageAt i n x gs" and "frontier i n gs ks" and "\<And>g. sameStage (f g) g"
    and "\<And>g. wsState (f g) = StgSKIPPED"
  shows "frontier i (Suc n) (updateWhere (\<lambda>g. wsId g = x) f gs) ks"
  unfolding frontier_def ball_updateWhere
proof (intro ballI impI)
  fix g
  assume g: "g \<in> set gs" and i: "wsInstance (if wsId g = x then f g else g) = i"
  note at = stageAt_id [OF assms(1,2) g]
  have f: "wsInstance (f g) = wsInstance g" "wsIndex (f g) = wsIndex g" "wsId (f g) = wsId g" using assms(4) [of g] by (simp_all add: sameStage_def)
  show "(wsIndex (if wsId g = x then f g else g) < Suc n \<longrightarrow> passed (if wsId g = x then f g else g) ks) \<and>
      (Suc n \<le> wsIndex (if wsId g = x then f g else g) \<longrightarrow> untouched (if wsId g = x then f g else g) ks)"
  proof (cases "wsId g = x")
    case True
    then have "untouched g ks" using assms(3) g at by (simp add: frontier_def)
    then show ?thesis using True at f assms(5) [of g] by (simp add: passed_def untouched_def)
  next
    case False
    then have "wsIndex g \<noteq> n" using at i by (auto split: if_splits)
    then show ?thesis using assms(3) g i False by (auto simp: frontier_def)
  qed
qed

lemma activate_rests:
  assumes "rowShape ws gs ks" and "stageAt i n x gs" and "mid i n gs ks" and "\<And>g. sameStage (f g) g"
    and "\<And>g. wsState (f g) = StgACTIVE"
  shows "atRest i n (updateWhere (\<lambda>g. wsId g = x) f gs) ks"
proof -
  have f: "wsInstance (f g) = wsInstance g" "wsIndex (f g) = wsIndex g" for g using assms(4) [of g] by (simp_all add: sameStage_def)
  have "mid i n (updateWhere (\<lambda>g. wsId g = x) f gs) ks"
    unfolding mid_def ball_updateWhere
  proof (intro ballI impI)
    fix g assume "g \<in> set gs" and "wsInstance (if wsId g = x then f g else g) = i"
    then show "(wsIndex (if wsId g = x then f g else g) < n \<longrightarrow> passed (if wsId g = x then f g else g) ks) \<and>
        (n < wsIndex (if wsId g = x then f g else g) \<longrightarrow> untouched (if wsId g = x then f g else g) ks)"
      using stageAt_id [OF assms(1,2), of g] f [of g] assms(3) by (auto simp: mid_def)
  qed
  moreover have "\<forall>g \<in> set gs. wsInstance g = i \<longrightarrow> wsIndex g = n \<longrightarrow> wsId g = x" using stageAt_id [OF assms(1,2)] by blast
  moreover obtain h where "h \<in> set gs" "wsId h = x" "wsInstance h = i" "wsIndex h = n" using assms(2) by (auto simp: stageAt_def)
  ultimately show ?thesis
    unfolding atRest_def ball_updateWhere bex_updateWhere using f assms(5) by auto
qed

lemma complete_moves_frontier:
  assumes "rowShape ws gs ks" and "stageAt i n x gs" and "mid i n gs ks" and "\<And>g. sameStage (f g) g"
    and "\<And>g. wsState (f g) = StgCOMPLETED" and "\<forall>g \<in> set gs. wsId g = x \<longrightarrow> settled g ks"
  shows "frontier i (Suc n) (updateWhere (\<lambda>g. wsId g = x) f gs) ks"
  unfolding frontier_def ball_updateWhere
proof (intro ballI impI)
  fix g
  assume g: "g \<in> set gs" and i: "wsInstance (if wsId g = x then f g else g) = i"
  note at = stageAt_id [OF assms(1,2) g]
  have f: "wsInstance (f g) = wsInstance g" "wsIndex (f g) = wsIndex g" "wsId (f g) = wsId g" "stageRule (f g) = stageRule g"
    using assms(4) [of g] by (simp_all add: sameStage_def stageRule_def)
  show "(wsIndex (if wsId g = x then f g else g) < Suc n \<longrightarrow> passed (if wsId g = x then f g else g) ks) \<and>
      (Suc n \<le> wsIndex (if wsId g = x then f g else g) \<longrightarrow> untouched (if wsId g = x then f g else g) ks)"
  proof (cases "wsId g = x")
    case True
    then have "settled g ks" using assms(6) g by blast
    then show ?thesis using True at f assms(5) [of g] by (simp add: passed_def settled_def)
  next
    case False
    then have "wsIndex g \<noteq> n" using at i by (auto split: if_splits)
    then show ?thesis using assms(3) g i False by (auto simp: mid_def)
  qed
qed

lemma frontier_mid: "frontier i n gs ks \<Longrightarrow> mid i n gs ks"
  by (simp add: frontier_def mid_def)

end
