(* ===== verification/Workflow_Soundness.thy ===== *)
theory Workflow_Soundness
  imports Workflow_Invariants
begin

text \<open>
  Every operation of the engine keeps the invariant of the approval tables. Each step of an operation moves one
  approval from phase to phase: at rest at a stage, between stages, ended.
\<close>

subsection \<open>Phases of a running approval\<close>

definition inPhase ::
  "ident \<Rightarrow> ident \<Rightarrow> (stage_row list \<Rightarrow> task_row list \<Rightarrow> bool) \<Rightarrow> 'z wf_state_scheme \<Rightarrow> 'z wf_state_scheme \<Rightarrow> bool" where
  "inPhase i v \<Phi> s0 s \<longleftrightarrow>
     within i s0 s \<and> (\<exists>w \<in> set (instances s). wiId w = i \<and> liveInstance w \<and> wiVersionId w = v) \<and>
     \<Phi> (stages s) (tasks s)"

definition endedAs ::
  "ident \<Rightarrow> ident \<Rightarrow> instance_status \<Rightarrow> (stage_row list \<Rightarrow> task_row list \<Rightarrow> bool) \<Rightarrow> 'z wf_state_scheme \<Rightarrow> 'z wf_state_scheme \<Rightarrow> bool" where
  "endedAs i v st \<Phi> s0 s \<longleftrightarrow>
     within i s0 s \<and> (\<forall>w \<in> set (instances s). wiId w = i \<longrightarrow> wiState w = st \<and> wiVersionId w = v) \<and> \<Phi> (stages s) (tasks s)"

lemma hoare_frame:
  assumes "leaves wfTables m" and "\<And>s s'. wfTables s' = wfTables s \<Longrightarrow> P s' = P s"
  shows "hoare P m (\<lambda>_. P)"
proof (rule hoareI)
  fix s x s'
  assume "P s" and "m s = Inr (x, s')"
  then show "P s'" using assms(2) [OF leavesD [OF assms(1)]] by blast
qed

lemma inPhase_tables: "wfTables s' = wfTables s \<Longrightarrow> inPhase i v \<Phi> s0 s' = inPhase i v \<Phi> s0 s"
  using within_tables [of s' s i s0] by (simp add: inPhase_def wfTables_def)

lemma endedAs_tables: "wfTables s' = wfTables s \<Longrightarrow> endedAs i v st \<Phi> s0 s' = endedAs i v st \<Phi> s0 s"
  using within_tables [of s' s i s0] by (simp add: endedAs_def wfTables_def)

lemma phase_frame:
  assumes "leaves wfTables m"
  shows "hoare (inPhase i v \<Phi> s0) m (\<lambda>_. inPhase i v \<Phi> s0)" and "hoare (endedAs i v st \<Phi> s0) m (\<lambda>_. endedAs i v st \<Phi> s0)"
    and "hoare (finished p i s0) m (\<lambda>_. finished p i s0)"
  by (rule hoare_frame [OF assms], erule inPhase_tables, rule hoare_frame [OF assms], erule endedAs_tables,
      rule hoare_frame [OF assms], erule finished_tables)

lemma inPhase_weaken: "\<lbrakk>inPhase i v \<Phi> s0 s; \<Phi> (stages s) (tasks s) \<Longrightarrow> \<Psi> (stages s) (tasks s)\<rbrakk> \<Longrightarrow> inPhase i v \<Psi> s0 s"
  by (simp add: inPhase_def)

lemma inPhase_only:
  assumes "inPhase i v \<Phi> s0 s" and "w \<in> set (instances s)" and "wiId w = i"
  shows "liveInstance w \<and> wiVersionId w = v"
proof -
  obtain u where u: "u \<in> set (instances s)" "wiId u = i" "liveInstance u" "wiVersionId u = v"
    using assms(1) by (auto simp: inPhase_def)
  have "u = w" using distinct_map_eq [of wiId "instances s" u w] assms u
    by (simp add: inPhase_def within_def shapely_def rowShape_def)
  then show ?thesis using u by simp
qed

lemma rest_finished:
  assumes "inPhase i v (atRest i n) s0 s" and "boundTo p i v (stages s0)"
  shows "finished p i s0 s"
  unfolding finished_def
proof (intro conjI ballI impI)
  show "within i s0 s" using assms(1) by (simp add: inPhase_def)
  fix w assume "w \<in> set (instances s)" "wiId w = i"
  then have "liveInstance w" "wiVersionId w = v" using inPhase_only [OF assms(1)] by simp_all
  moreover have "boundTo p i v (stages s)" using assms boundTo_within [of i s0 s] by (simp add: inPhase_def)
  ultimately show "instanceOk p (stages s) (tasks s) w"
    using assms(1) \<open>wiId w = i\<close> by (auto simp: instanceOk_def inPhase_def liveInstance_def)
qed

lemma ended_finished:
  assumes "endedAs i v st \<Phi> s0 s" and "boundTo p i v (stages s0)" and "st \<noteq> InsRUNNING" "st \<noteq> InsPAUSED"
    and "st = InsCOMPLETED \<Longrightarrow> \<Phi> (stages s) (tasks s) \<Longrightarrow> \<forall>g \<in> set (stages s). wsInstance g = i \<longrightarrow> passed g (tasks s)"
  shows "finished p i s0 s"
  unfolding finished_def
proof (intro conjI ballI impI)
  show "within i s0 s" using assms(1) by (simp add: endedAs_def)
  fix w assume w: "w \<in> set (instances s)" "wiId w = i"
  then have "wiState w = st" "wiVersionId w = v" using assms(1) by (simp_all add: endedAs_def)
  moreover have "boundTo p i v (stages s)" using assms(1,2) boundTo_within [of i s0 s] by (simp add: endedAs_def)
  ultimately show "instanceOk p (stages s) (tasks s) w"
    using assms w by (auto simp: instanceOk_def endedAs_def liveInstance_def)
qed

subsection \<open>Steps between phases\<close>

lemma stageAt_own: "inPhase i v \<Phi> s0 s \<Longrightarrow> stageAt i n x (stages s0) \<Longrightarrow> stageAt i n x (stages s)"
  using stageAt_within [of i s0 s] by (simp add: inPhase_def)

lemma inPhase_shape: "inPhase i v \<Phi> s0 s \<Longrightarrow> rowShape (instances s) (stages s) (tasks s)"
  by (simp add: inPhase_def within_def shapely_def)

text \<open>An update of the stage with a known identifier.\<close>

lemma update_stage_phase:
  assumes at: "stageAt i n x (stages s0)" and same: "\<And>g. sameStage (f g) g"
    and move: "\<And>ws gs ks. \<lbrakk>rowShape ws gs ks; stageAt i n x gs; \<Phi> gs ks\<rbrakk> \<Longrightarrow> \<Psi> (updateWhere (\<lambda>g. wsId g = x) f gs) ks"
  shows "hoare (inPhase i v \<Phi> s0) (updateStages (\<lambda>g. wsId g = x) f) (\<lambda>_. inPhase i v \<Psi> s0)"
proof (rule hoareI)
  fix s y s'
  assume s: "inPhase i v \<Phi> s0 s" and run: "updateStages (\<lambda>g. wsId g = x) f s = Inr (y, s')"
  have s': "s' = s\<lparr>stages := updateWhere (\<lambda>g. wsId g = x) f (stages s)\<rparr>" using run by (simp add: updateStages_def)
  note here = inPhase_shape [OF s] stageAt_own [OF s at]
  have "\<forall>g \<in> set (stages s). wsId g = x \<longrightarrow> wsInstance g = i" using stageAt_id [OF here] by blast
  then have "within i s0 s'" unfolding s' using s same by (intro within_update_stages) (simp_all add: inPhase_def)
  then show "inPhase i v \<Psi> s0 s'" using s move [OF here] by (simp add: inPhase_def s')
qed

lemma skipStage_phase:
  assumes "stageAt i n x (stages s0)"
  shows "hoare (inPhase i v (frontier i n) s0) (skipStage x why at) (\<lambda>_. inPhase i v (frontier i (Suc n)) s0)"
  unfolding skipStage_def
  by (rule update_stage_phase [OF assms]) (auto simp: sameStage_def intro!: skip_moves_frontier)

lemma activateStage_phase:
  assumes "stageAt i n x (stages s0)"
  shows "hoare (inPhase i v (mid i n) s0) (activateStage x at due) (\<lambda>_. inPhase i v (atRest i n) s0)"
  unfolding activateStage_def
  by (rule update_stage_phase [OF assms]) (auto simp: sameStage_def intro!: activate_rests)

lemma completeStage_phase:
  assumes "stageAt i n x (stages s0)"
  shows "hoare (inPhase i v (\<lambda>gs ks. mid i n gs ks \<and> (\<forall>g \<in> set gs. wsId g = x \<longrightarrow> settled g ks)) s0) (completeStage x at)
    (\<lambda>_. inPhase i v (frontier i (Suc n)) s0)"
  unfolding completeStage_def
  by (rule update_stage_phase [OF assms]) (auto simp: sameStage_def intro!: complete_moves_frontier)

lemma completeStage_any:
  assumes "stageAt i n x (stages s0)"
  shows "hoare (inPhase i v \<Phi> s0) (completeStage x at) (\<lambda>_. inPhase i v (\<lambda>_ _. True) s0)"
  unfolding completeStage_def by (rule update_stage_phase [OF assms]) (auto simp: sameStage_def)

lemma cancelRemaining_any: "hoare (inPhase i v \<Phi> s0) (cancelRemainingStages i n) (\<lambda>_. inPhase i v (\<lambda>_ _. True) s0)"
proof (rule hoareI)
  fix s y s'
  assume s: "inPhase i v \<Phi> s0 s" and run: "cancelRemainingStages i n s = Inr (y, s')"
  then have "within i s0 s'"
    by (auto simp: cancelRemainingStages_def updateStages_def sameStage_def inPhase_def intro!: within_update_stages)
  then show "inPhase i v (\<lambda>_ _. True) s0 s'" using s run
    by (auto simp: inPhase_def cancelRemainingStages_def updateStages_def)
qed

text \<open>Updates of the instance row that keep it running, and the one that ends it.\<close>

lemma update_instance_phase:
  assumes "\<And>w. sameInstance (f w) w \<and> wiState (f w) = wiState w \<and> wiEndedAt (f w) = wiEndedAt w"
  shows "hoare (inPhase i v \<Phi> s0) (updateInstances (\<lambda>w. wiId w = i) f) (\<lambda>_. inPhase i v \<Phi> s0)"
proof (rule hoareI)
  fix s y s'
  assume s: "inPhase i v \<Phi> s0 s" and run: "updateInstances (\<lambda>w. wiId w = i) f s = Inr (y, s')"
  have s': "s' = s\<lparr>instances := updateWhere (\<lambda>w. wiId w = i) f (instances s)\<rparr>" using run by (simp add: updateInstances_def)
  have "within i s0 s'" unfolding s'
    by (rule within_update_instances)
      (use s assms in \<open>auto simp: inPhase_def liveInstance_def endedInstance_def within_def shapely_def rowShape_def\<close>)
  moreover have "\<exists>w \<in> set (instances s'). wiId w = i \<and> liveInstance w \<and> wiVersionId w = v"
    unfolding s' using s assms by (auto simp: bex_updateWhere inPhase_def sameInstance_def liveInstance_def)
  ultimately show "inPhase i v \<Phi> s0 s'" using s by (simp add: inPhase_def s')
qed

lemma moveToStage_phase: "hoare (inPhase i v \<Phi> s0) (moveToStage i n) (\<lambda>_. inPhase i v \<Phi> s0)"
  unfolding moveToStage_def by (rule update_instance_phase) (simp add: sameInstance_def)

lemma recordEscalation_phase: "hoare (inPhase i v \<Phi> s0) (recordEscalation i) (\<lambda>_. inPhase i v \<Phi> s0)"
  unfolding recordEscalation_def
  by (rule hoare_bind [OF hoare_gets], rule hoare_option, rule hoare_throw)
    (rule hoare_strengthen [OF hoare_then [OF update_instance_phase hoare_return]], auto simp: sameInstance_def)

lemma endInstance_phase:
  assumes "st \<noteq> InsRUNNING" and "st \<noteq> InsPAUSED"
  shows "hoare (inPhase i v \<Phi> s0) (endInstance i st why at num) (\<lambda>_. endedAs i v st \<Phi> s0)"
proof (rule hoareI)
  fix s y s'
  let ?P = "\<lambda>w. wiId w = i \<and> liveInstance w"
  let ?f = "\<lambda>w. w\<lparr>wiState := st, wiEndReason := why, wiEndedAt := Some at, wiPausedAt := None, wiPauseReason := None,
     wiNumberAssigned := num, wiStageIndex := -1, wiVersion := wiVersion w + 1\<rparr>"
  assume s: "inPhase i v \<Phi> s0 s" and run: "endInstance i st why at num s = Inr (y, s')"
  have s': "s' = s\<lparr>instances := updateWhere ?P ?f (instances s)\<rparr>" using run by (simp add: endInstance_def updateInstances_def)
  have "within i s0 s'" unfolding s'
    by (rule within_update_instances)
      (use s assms in \<open>auto simp: inPhase_def liveInstance_def endedInstance_iff sameInstance_def\<close>)
  moreover have "\<forall>w \<in> set (instances s'). wiId w = i \<longrightarrow> wiState w = st \<and> wiVersionId w = v"
    unfolding s' using inPhase_only [OF s] by (auto simp: ball_updateWhere liveInstance_def)
  ultimately show "endedAs i v st \<Phi> s0 s'" using s by (simp add: endedAs_def inPhase_def s')
qed

subsection \<open>Tasks of the stage at rest\<close>

lemma tasksOf_update_other:
  assumes "\<And>k. \<lbrakk>k \<in> set ks; P k\<rbrakk> \<Longrightarrow> tkStage k = x" and "\<And>k. sameTask (f k) k" and "y \<noteq> x"
  shows "tasksOf (updateWhere P f ks) y = tasksOf ks y"
  unfolding tasksOf_def by (rule filter_updateWhere_other) (use assms in \<open>auto simp: sameTask_def\<close>)

lemma stage_tasks_own:
  assumes "rowShape ws gs ks" and "stageAt i n x gs" and "k \<in> set ks" and "tkStage k = x"
  shows "tkInstance k = i"
proof -
  obtain g where g: "g \<in> set gs" "wsId g = tkStage k" "wsInstance g = tkInstance k" using assms(1,3) by (auto simp: rowShape_def)
  then show ?thesis using stageAt_id [OF assms(1,2) g(1)] assms(4) by simp
qed

lemma update_tasks_phase:
  assumes at: "stageAt i n x (stages s0)" and P: "\<And>gs ks k. \<lbrakk>\<Phi> gs ks; k \<in> set ks; P k\<rbrakk> \<Longrightarrow> tkStage k = x"
    and same: "\<And>k. sameTask (f k) k"
    and ck: "\<And>k. P k \<Longrightarrow> taState (f k) = TaskDECIDED \<longleftrightarrow> taDecision (f k) \<noteq> None"
    and move: "\<And>ws gs ks. \<lbrakk>rowShape ws gs ks; stageAt i n x gs; \<Phi> gs ks\<rbrakk> \<Longrightarrow> \<Psi> gs (updateWhere P f ks)"
  shows "hoare (inPhase i v \<Phi> s0) (modifyT (\<lambda>s. s\<lparr>tasks := updateWhere P f (tasks s)\<rparr>)) (\<lambda>_. inPhase i v \<Psi> s0)"
proof (rule hoareI)
  fix s y s'
  assume s: "inPhase i v \<Phi> s0 s" and run: "modifyT (\<lambda>s. s\<lparr>tasks := updateWhere P f (tasks s)\<rparr>) s = Inr (y, s')"
  note here = inPhase_shape [OF s] stageAt_own [OF s at]
  have "\<forall>k \<in> set (tasks s). P k \<longrightarrow> tkStage k = x" using P [of "stages s" "tasks s"] s by (auto simp: inPhase_def)
  then have "\<forall>k \<in> set (tasks s). P k \<longrightarrow> tkInstance k = i" using stage_tasks_own [OF here] by blast
  then have "within i s0 (s\<lparr>tasks := updateWhere P f (tasks s)\<rparr>)"
    using s same ck by (intro within_update_tasks) (simp_all add: inPhase_def)
  then show "inPhase i v \<Psi> s0 s'" using s run move [OF here] by (simp add: inPhase_def)
qed

lemma closePending_rest:
  assumes "stageAt i n x (stages s0)" and "ph \<noteq> TaskDECIDED"
  shows "hoare (inPhase i v (atRest i n) s0) (closePendingTasks x ph) (\<lambda>_. inPhase i v (atRest i n) s0)"
  unfolding closePendingTasks_def
proof (rule update_tasks_phase [OF assms(1)])
  fix ws gs ks
  assume "rowShape ws gs ks" "stageAt i n x gs" "atRest i n gs ks"
  then show "atRest i n gs (updateWhere (\<lambda>k. tkStage k = x \<and> taState k = TaskPENDING \<and> taDecision k = None)
      (\<lambda>k. k\<lparr>taState := ph\<rparr>) ks)"
    by (rule atRest_tasks) (rule tasksOf_update_other, auto simp: sameTask_def)
qed (use assms(2) in \<open>auto simp: sameTask_def\<close>)

lemma closePending_any:
  assumes "stageAt i n x (stages s0)" and "ph \<noteq> TaskDECIDED"
  shows "hoare (inPhase i v \<Phi> s0) (closePendingTasks x ph) (\<lambda>_. inPhase i v (\<lambda>_ _. True) s0)"
  unfolding closePendingTasks_def
  by (rule update_tasks_phase [OF assms(1)]) (use assms(2) in \<open>auto simp: sameTask_def\<close>)

subsection \<open>Superseding what is left of an approved stage\<close>

lemma countTasks_update:
  "(\<And>k. P k \<Longrightarrow> Q (f k) = Q k) \<Longrightarrow> countTasks Q (updateWhere P f ks) = countTasks Q ks"
  by (induction ks) (auto simp: countTasks_def)

lemma find_none_update:
  "(\<And>k. P k \<Longrightarrow> Q (f k) = Q k) \<Longrightarrow> List.find Q (updateWhere P f ks) = None \<longleftrightarrow> List.find Q ks = None"
  by (induction ks) auto

lemma evaluateStage_approved_iff:
  "evaluateStage rule ts = OutAPPROVED \<longleftrightarrow>
     ts \<noteq> [] \<and> List.find (\<lambda>t. taDecision t = Some DecREJECTED) ts = None \<and>
     List.find (\<lambda>t. taDecision t = Some DecCHANGES) ts = None \<and> populationOf rule ts \<noteq> 0 \<and>
     approvalsRequired rule (populationOf rule ts) \<le> countTasks (\<lambda>t. taDecision t = Some DecAPPROVED) ts"
  by (auto simp: evaluateStage_def Let_def)

lemma updateWhere_Nil_iff: "updateWhere P f xs = [] \<longleftrightarrow> xs = []"
  by (cases xs) auto

lemma evaluateStage_superseded:
  assumes "\<And>k. P k \<Longrightarrow> taState k = TaskPENDING"
  shows "evaluateStage rule (updateWhere P (\<lambda>k. k\<lparr>taState := TaskSUPERSEDED\<rparr>) ks) = OutAPPROVED \<longleftrightarrow>
    evaluateStage rule ks = OutAPPROVED"
proof -
  have "populationOf rule (updateWhere P (\<lambda>k. k\<lparr>taState := TaskSUPERSEDED\<rparr>) ks) = populationOf rule ks"
    using assms countTasks_update [of P "\<lambda>t. taState t \<noteq> TaskWITHDRAWN"] by (auto simp: populationOf_def)
  then show ?thesis unfolding evaluateStage_approved_iff
    by (simp add: find_none_update countTasks_update updateWhere_Nil_iff)
qed

lemma tasksOf_close:
  "tasksOf (updateWhere (\<lambda>k. tkStage k = x \<and> Q k) (\<lambda>k. k\<lparr>taState := ph\<rparr>) ks) x
     = updateWhere Q (\<lambda>k. k\<lparr>taState := ph\<rparr>) (tasksOf ks x)"
  by (induction ks) (auto simp: tasksOf_def)

lemma supersede_settles:
  assumes "stageAt i n x (stages s0)"
  shows "hoare (inPhase i v (\<lambda>gs ks. atRest i n gs ks \<and>
        (\<forall>g \<in> set gs. wsId g = x \<longrightarrow> evaluateStage (stageRule g) (tasksOf ks x) = OutAPPROVED)) s0)
      (closePendingTasks x TaskSUPERSEDED)
      (\<lambda>_. inPhase i v (\<lambda>gs ks. mid i n gs ks \<and> (\<forall>g \<in> set gs. wsId g = x \<longrightarrow> settled g ks)) s0)"
  unfolding closePendingTasks_def
proof (rule update_tasks_phase [OF assms])
  fix ws gs and ks :: "task_row list"
  let ?ks = "updateWhere (\<lambda>k. tkStage k = x \<and> taState k = TaskPENDING \<and> taDecision k = None) (\<lambda>k. k\<lparr>taState := TaskSUPERSEDED\<rparr>) ks"
  assume sh: "rowShape ws gs ks" and at: "stageAt i n x gs"
    and ok: "atRest i n gs ks \<and> (\<forall>g \<in> set gs. wsId g = x \<longrightarrow> evaluateStage (stageRule g) (tasksOf ks x) = OutAPPROVED)"
  have "atRest i n gs ?ks"
    by (rule atRest_tasks [OF sh at]) (use ok in simp, rule tasksOf_update_other, auto simp: sameTask_def)
  moreover have "settled g ?ks" if "g \<in> set gs" "wsId g = x" for g
  proof -
    have "taState k \<noteq> TaskPENDING \<or> taDecision k = None" if "k \<in> set ks" for k using sh that by (auto simp: rowShape_def)
    then have "\<forall>k \<in> set (tasksOf ?ks x). taState k \<noteq> TaskPENDING"
      unfolding tasksOf_close ball_updateWhere by (auto simp: tasksOf_def)
    moreover have "evaluateStage (stageRule g) (tasksOf ?ks x) = OutAPPROVED"
      unfolding tasksOf_close using ok that by (subst evaluateStage_superseded) auto
    ultimately show ?thesis using that by (simp add: settled_def)
  qed
  ultimately show "mid i n gs ?ks \<and> (\<forall>g \<in> set gs. wsId g = x \<longrightarrow> settled g ?ks)" by (simp add: atRest_def)
qed (auto simp: sameTask_def)

subsection \<open>New tasks\<close>

lemma hoare_both:
  assumes "hoare P m Q" and "hoare (\<lambda>_. True) m R"
  shows "hoare P m (\<lambda>x s. R x s \<and> Q x s)"
  using assms unfolding hoare_def by blast

lemma hoare_conj_pre: "(A \<Longrightarrow> hoare P m Q) \<Longrightarrow> hoare (\<lambda>s. A \<and> P s) m Q"
  unfolding hoare_def by blast

lemma hoare_collect:
  assumes "\<And>x. hoare (\<lambda>_. True) (f x) (\<lambda>y _. R y)"
  shows "hoare (\<lambda>_. True) (collectT f xs) (\<lambda>ys _. \<forall>y \<in> set ys. R y)"
proof (induction xs)
  case Nil
  then show ?case by (simp add: hoare_return)
next
  case (Cons x xs)
  have "hoare (\<lambda>_. R y) (bindT (collectT f xs) (\<lambda>ys. returnT (y # ys))) (\<lambda>ys _. \<forall>y \<in> set ys. R y)" for y
    by (rule hoareI) (use hoareD [OF Cons.IH] in \<open>fastforce simp: bindT_Inr\<close>)
  then show ?case by (auto intro: hoare_bind [OF assms])
qed

definition ofStage :: "ident \<Rightarrow> ident \<Rightarrow> new_task list \<Rightarrow> bool" where
  "ofStage i x ts \<longleftrightarrow> (\<forall>t \<in> set ts. ntStage t = x \<and> ntInstance t = i)"

lemma newTasks_own:
  "hoare (\<lambda>_. True) (newTasks rq ag stage due rs) (\<lambda>ts _. ofStage (wiId (agInstance ag)) (wsId stage) ts)"
  unfolding newTasks_def ofStage_def by (rule hoare_collect) (auto simp: hoare_def bindT_Inr)

lemma escalationTasks_own:
  "hoare (\<lambda>_. True) (escalationTasks rq ag stage ks rs) (\<lambda>ts _. ofStage (wiId (agInstance ag)) (wsId stage) ts)"
  unfolding escalationTasks_def ofStage_def by (rule hoare_collect) (auto simp: hoare_def bindT_Inr)

definition taskFree :: "ident \<Rightarrow> nat \<Rightarrow> ident \<Rightarrow> (stage_row list \<Rightarrow> task_row list \<Rightarrow> bool) \<Rightarrow> bool" where
  "taskFree i n x \<Phi> \<longleftrightarrow>
     (\<forall>ws gs ks ks'. rowShape ws gs ks \<longrightarrow> stageAt i n x gs \<longrightarrow> (\<forall>y. y \<noteq> x \<longrightarrow> tasksOf ks' y = tasksOf ks y) \<longrightarrow> \<Phi> gs ks \<longrightarrow> \<Phi> gs ks')"

lemma taskFree_phases: "taskFree i n x (mid i n)" "taskFree i n x (atRest i n)"
  unfolding taskFree_def by (blast intro: mid_tasks, blast intro: atRest_tasks)

lemma insertTask_phase:
  assumes at: "stageAt i n x (stages s0)" and t: "ntStage t = x" "ntInstance t = i" and free: "taskFree i n x \<Phi>"
  shows "hoare (inPhase i v \<Phi> s0) (insertTask w t) (\<lambda>_. inPhase i v \<Phi> s0)"
proof (rule hoareI)
  fix s y s'
  assume s: "inPhase i v \<Phi> s0 s" and run: "insertTask w t s = Inr (y, s')"
  note here = inPhase_shape [OF s] stageAt_own [OF s at]
  define k where "k = \<lparr>taState = TaskPENDING, taDecision = None, taSequence = ntSequence t, tkId = ntId t,
      tkInstance = ntInstance t, tkStage = ntStage t, tkAssignee = ntAssignee t, tkResolvedBy = ntResolvedBy t,
      tkDecidedBy = None, tkOnBehalfOf = None, tkDelegation = None, tkDecidedAt = None, tkComment = None,
      tkDueAt = ntDueAt t, tkEscalatedFrom = ntEscalatedFrom t, tkAutoDecided = False, tkCreatedAt = w\<rparr>"
  have s': "s' = s\<lparr>tasks := tasks s @ [k]\<rparr>"
    and new: "\<forall>h \<in> set (tasks s). tkId h \<noteq> ntId t" "\<forall>h \<in> set (tasks s). \<not> (tkStage h = x \<and> tkAssignee h = ntAssignee t)"
    using run t(1) by (simp_all add: insertTask_def bindT_Inr thenT_Inr k_def)
  have k: "tkStage k = x" "tkInstance k = i" "tkId k = ntId t" "tkAssignee k = ntAssignee t" "taState k = TaskPENDING" "taDecision k = None"
    using t by (simp_all add: k_def)
  have "\<exists>g \<in> set (stages s). wsId g = tkStage k \<and> wsInstance g = tkInstance k" using here(2) k by (auto simp: stageAt_def)
  then have "rowShape (instances s) (stages s) (tasks s @ [k])" by (intro shape_insert_task here(1)) (simp_all add: k new)
  then have "within i s0 s'" using s k by (simp add: s' inPhase_def within_def shapely_def)
  moreover have "tasksOf (tasks s @ [k]) z = tasksOf (tasks s) z" if "z \<noteq> x" for z using k that by (simp add: tasksOf_def)
  then have "\<Phi> (stages s') (tasks s')" using free here s unfolding taskFree_def s' inPhase_def by simp
  ultimately show "inPhase i v \<Phi> s0 s'" using s by (simp add: inPhase_def s')
qed

lemma createTasks_phase:
  assumes "stageAt i n x (stages s0)" and "ofStage i x ts" and "taskFree i n x \<Phi>"
  shows "hoare (inPhase i v \<Phi> s0) (createTasks rq ts) (\<lambda>_. inPhase i v \<Phi> s0)"
  unfolding createTasks_def using assms(2)
proof (induction ts)
  case (Cons t ts)
  then have t: "ntStage t = x" "ntInstance t = i" and rest: "ofStage i x ts" by (simp_all add: ofStage_def)
  show ?case
    using hoare_then [OF insertTask_phase [OF assms(1) t assms(3)] Cons.IH [OF rest]] by simp
qed (simp add: hoare_return)

subsection \<open>A decision\<close>

definition holds :: "ident set \<Rightarrow> ident \<Rightarrow> task_row list \<Rightarrow> bool" where
  "holds T x ks \<longleftrightarrow> (\<forall>k \<in> set ks. tkId k \<in> T \<longrightarrow> tkStage k = x)"

lemma decideIfPending_phase:
  assumes at: "stageAt i n x (stages s0)" and T: "diTask d \<in> T"
  shows "hoare (inPhase i v (\<lambda>gs ks. atRest i n gs ks \<and> holds T x ks) s0) (decideIfPending d)
    (\<lambda>_. inPhase i v (\<lambda>gs ks. atRest i n gs ks \<and> holds T x ks) s0)"
proof -
  define hit :: "task_row \<Rightarrow> bool" where "hit = (\<lambda>k. tkId k = diTask d \<and> taDecision k = None \<and> taState k = TaskPENDING)"
  define f :: "task_row \<Rightarrow> task_row" where
    "f = (\<lambda>k. k\<lparr>taState := TaskDECIDED, taDecision := Some (diDecision d), tkDecidedBy := Some (diDecidedBy d),
        tkOnBehalfOf := diOnBehalfOf d, tkDelegation := diDelegation d, tkDecidedAt := Some (diAt d),
        tkComment := diComment d, tkAutoDecided := diAuto d\<rparr>)"
  have f: "sameTask (f k) k" "taState (f k) = TaskDECIDED \<longleftrightarrow> taDecision (f k) \<noteq> None" "tkId (f k) = tkId k" "tkStage (f k) = tkStage k" for k
    by (simp_all add: f_def sameTask_def)
  have "hoare (inPhase i v (\<lambda>gs ks. atRest i n gs ks \<and> holds T x ks) s0) (modifyT (\<lambda>s. s\<lparr>tasks := updateWhere hit f (tasks s)\<rparr>))
    (\<lambda>_. inPhase i v (\<lambda>gs ks. atRest i n gs ks \<and> holds T x ks) s0)"
  proof (rule update_tasks_phase [OF at])
    fix gs and ks :: "task_row list" and k
    assume "atRest i n gs ks \<and> holds T x ks" "k \<in> set ks" "hit k"
    then show "tkStage k = x" using T by (auto simp: holds_def hit_def)
  next
    fix ws gs and ks :: "task_row list"
    assume sh: "rowShape ws gs ks" and here: "stageAt i n x gs" and ok: "atRest i n gs ks \<and> holds T x ks"
    have "tasksOf (updateWhere hit f ks) y = tasksOf ks y" if "y \<noteq> x" for y
      by (rule tasksOf_update_other [OF _ f(1) that]) (use ok T in \<open>auto simp: holds_def hit_def\<close>)
    then have "atRest i n gs (updateWhere hit f ks)" using atRest_tasks [OF sh here] ok by blast
    moreover have "holds T x (updateWhere hit f ks)" using ok by (auto simp: holds_def ball_updateWhere f)
    ultimately show "atRest i n gs (updateWhere hit f ks) \<and> holds T x (updateWhere hit f ks)" ..
  qed (use f in auto)
  then show ?thesis
    unfolding decideIfPending_def hoare_def hit_def f_def by (simp add: bindT_Inr thenT_Inr Let_def)
qed

end
