(* ===== verification/Workflow_Operations.thy ===== *)
theory Workflow_Operations
  imports Workflow_Soundness
begin

text \<open>
  Every operation of the engine keeps the invariant of the approval tables: the aggregate it loads is the version's
  stages in order, and each path through it leaves the approval at rest at a stage or ended.
\<close>

subsection \<open>Sequencing over a frame\<close>

lemma frame_then:
  "\<lbrakk>leaves wfTables m; hoare (inPhase i v \<Phi> s0) n Q\<rbrakk> \<Longrightarrow> hoare (inPhase i v \<Phi> s0) (thenT m n) Q"
  by (rule hoare_then [OF phase_frame(1)])

lemma frame_bind:
  "\<lbrakk>leaves wfTables m; \<And>x. hoare (inPhase i v \<Phi> s0) (f x) Q\<rbrakk> \<Longrightarrow> hoare (inPhase i v \<Phi> s0) (bindT m f) Q"
  by (rule hoare_bind [OF phase_frame(1)])

lemma frame_finished: "leaves wfTables m \<Longrightarrow> hoare (finished p i s0) m (\<lambda>_. finished p i s0)"
  by (rule phase_frame(3))

lemma hoare_prod: "(\<And>a b. hoare P (f a b) Q) \<Longrightarrow> hoare P (case v of (a, b) \<Rightarrow> f a b) Q"
  by (cases v) auto

lemma ended_frame:
  assumes "leaves wfTables m" and "boundTo p i v (stages s0)" and "st \<noteq> InsRUNNING" "st \<noteq> InsPAUSED"
    and "\<And>gs ks. st = InsCOMPLETED \<Longrightarrow> boundTo p i v gs \<Longrightarrow> \<Phi> gs ks \<Longrightarrow> \<forall>g \<in> set gs. wsInstance g = i \<longrightarrow> passed g ks"
  shows "hoare (endedAs i v st \<Phi> s0) m (\<lambda>_. finished p i s0)"
proof (rule hoareI)
  fix s x s'
  assume "endedAs i v st \<Phi> s0 s" and "m s = Inr (x, s')"
  then have ended: "endedAs i v st \<Phi> s0 s'" using hoareD [OF phase_frame(2) [OF assms(1)]] by blast
  then have "boundTo p i v (stages s')" using assms(2) boundTo_within [of i s0 s'] by (simp add: endedAs_def)
  then show "finished p i s0 s'" by (intro ended_finished [OF ended assms(2,3,4)] assms(5))
qed

subsection \<open>What an aggregate holds\<close>

definition ordered :: "ident \<Rightarrow> definition_body \<Rightarrow> aggregate \<Rightarrow> stage_row list \<Rightarrow> bool" where
  "ordered i body ag gs \<longleftrightarrow>
     wiId (agInstance ag) = i \<and> length (agStages ag) = length (dbStages body) \<and>
     (\<forall>j < length (dbStages body). stageAt i j (wsId (agStages ag ! j)) gs)"

lemma aggregate_ordered:
  assumes "loadAggregate i s = Some ag" and "shapely s" and "boundTo p i v (stages s)" and "definitionFor p v = Some body"
  shows "ordered i body ag (stages s)"
proof -
  let ?gs = "filter (\<lambda>g. wsInstance g = i) (stages s)"
  let ?N = "length (dbStages body)"
  have i: "wiId (agInstance ag) = i" and gs: "agStages ag = sort_key wsIndex ?gs"
    using assms(1) by (auto simp: loadAggregate_def toAggregate_def find_Some_iff)
  have sh: "distinct (map wsId (stages s))" "uniqueWhere (\<lambda>_. True) (\<lambda>g. (wsInstance g, wsIndex g)) wsId (stages s)"
    using assms(2) by (simp_all add: shapely_def rowShape_def)
  have "inj_on wsIndex (set ?gs)"
  proof (rule inj_onI)
    fix g h assume g: "g \<in> set ?gs" and h: "h \<in> set ?gs" and eq: "wsIndex g = wsIndex h"
    then have "wsId g = wsId h" using uniqueWhereD [OF sh(2), of g h] by auto
    then show "g = h" using distinct_map_eq [OF sh(1)] g h by auto
  qed
  moreover have "distinct ?gs" using sh(1) by (auto simp: distinct_map)
  ultimately have "distinct (map wsIndex (agStages ag))" by (simp add: gs distinct_map)
  moreover have "set (map wsIndex (agStages ag)) = set [0..<?N]" using assms(3,4) by (auto simp: gs boundTo_def)
  moreover have "sorted (map wsIndex (agStages ag))" by (simp add: gs)
  ultimately have idx: "map wsIndex (agStages ag) = [0..<?N]" by (intro sorted_distinct_set_unique) simp_all
  have len: "length (agStages ag) = ?N" using arg_cong [OF idx, of length] by simp
  have "stageAt i j (wsId (agStages ag ! j)) (stages s)" if "j < ?N" for j
  proof -
    have "wsIndex (agStages ag ! j) = j" using arg_cong [OF idx, of "\<lambda>xs. xs ! j"] that len by simp
    moreover have "agStages ag ! j \<in> set (sort_key wsIndex ?gs)" using that len unfolding gs [symmetric] by (simp add: nth_mem)
    then have "agStages ag ! j \<in> set (stages s)" "wsInstance (agStages ag ! j) = i" by simp_all
    ultimately show ?thesis by (auto simp: stageAt_def)
  qed
  then show ?thesis using i len by (simp add: ordered_def)
qed

lemma ordered_within: "within i s0 s \<Longrightarrow> ordered i body ag (stages s) = ordered i body ag (stages s0)"
  by (simp add: ordered_def stageAt_within)

subsection \<open>Completing, activating, advancing\<close>

lemma completeApproval_finishes:
  assumes "boundTo p i v (stages s0)" and "definitionFor p v = Some body" and "wiId (agInstance ag) = i"
    and "length (dbStages body) \<le> n"
  shows "hoare (inPhase i v (frontier i n) s0) (completeApproval p rq ag body) (\<lambda>_. finished p i s0)"
  unfolding completeApproval_def Let_def assms(3)
proof (rule frame_bind)
  show "leaves wfTables (case wpNumbering p of
         None \<Rightarrow> returnT False
       | Some n \<Rightarrow> if dbAssignNumber body
            then bindT (assignAtApproval n rq (wiDocumentId (agInstance ag)) i) (\<lambda>number. returnT (number \<noteq> []))
            else returnT False)" by (intro leaves_intros)
next
  fix number
  show "hoare (inPhase i v (frontier i n) s0) (thenT (endInstance i InsCOMPLETED None (now rq) number)
      (thenT (cancelInstanceTimers i)
      (thenT (gateTransition rq (wiDocumentId (agInstance ag)) APPROVED i None None)
      (publishT [Event ''workflow.completed'' i
         [(''workflowInstanceId'', JStr i), (''documentId'', JStr (wiDocumentId (agInstance ag))),
          (''stagesCompleted'', JNum (int (length (filter (\<lambda>g. wsState g = StgCOMPLETED) (agStages ag)))))]])))) (\<lambda>_. finished p i s0)"
  proof (rule hoare_then [OF endInstance_phase ended_frame])
    fix gs ks assume "boundTo p i v gs" and fr: "frontier i n gs ks"
    then have idx: "wsIndex ` {g \<in> set gs. wsInstance g = i} = {..<length (dbStages body)}" using assms(2) by (simp add: boundTo_def)
    have "wsIndex g < n" if "g \<in> set gs" "wsInstance g = i" for g
      using imageI [of g "{g \<in> set gs. wsInstance g = i}" wsIndex] that assms(4) unfolding idx by simp
    then show "\<forall>g \<in> set gs. wsInstance g = i \<longrightarrow> passed g ks" using fr by (simp add: frontier_def)
  qed (use assms(1) in \<open>auto intro!: leaves_intros leaves_log\<close>)
qed

lemma activate_finishes:
  assumes "boundTo p i v (stages s0)" and i: "wiId (agInstance ag) = i" and at: "stageAt i n (wsId stage) (stages s0)"
  shows "hoare (inPhase i v (mid i n) s0) (activate p rq ag n stage authored cx prev) (\<lambda>_. finished p i s0)"
proof -
  have rest: "hoare (inPhase i v (atRest i n) s0) m (\<lambda>_. finished p i s0)" if "leaves wfTables m" for m :: "('a, 'b) wtx"
    by (rule hoare_strengthen [OF phase_frame(1) [OF that]]) (auto intro: rest_finished [OF _ assms(1)])
  have made: "hoare (inPhase i v (mid i n) s0) (newTasks rq ag stage due rs)
      (\<lambda>ts s. ofStage i (wsId stage) ts \<and> inPhase i v (mid i n) s0 s)" for due rs
    by (rule hoare_both [OF phase_frame(1)]) (use newTasks_own [of rq ag stage due rs] i in \<open>auto intro: leaves_intros\<close>)
  show ?thesis
    unfolding activate_def Let_def i
    by (intro frame_bind hoare_prod leaves_intros
        hoare_bind [OF made] hoare_conj_pre hoare_then [OF createTasks_phase [OF at _ taskFree_phases(1)]]
        frame_then hoare_then [OF activateStage_phase [OF at]] hoare_then [OF moveToStage_phase] rest leaves_log)
qed

lemma advance_finishes:
  assumes "boundTo p i v (stages s0)" and "definitionFor p v = Some body" and "ordered i body ag (stages s0)"
  shows "hoare (inPhase i v (frontier i n) s0) (advance p rq ag cx body prev n (drop n (agStages ag))) (\<lambda>_. finished p i s0)"
proof (induction "length (agStages ag) - n" arbitrary: n)
  case 0
  have "hoare (inPhase i v (frontier i n) s0) (completeApproval p rq ag body) (\<lambda>_. finished p i s0)"
    by (rule completeApproval_finishes) (use assms 0 in \<open>simp_all add: ordered_def\<close>)
  then show ?case using 0 by (auto intro!: hoare_then [OF _ hoare_return])
next
  case (Suc m)
  let ?g = "agStages ag ! n"
  have n: "n < length (agStages ag)" "n < length (dbStages body)" using Suc(2) assms(3) by (simp_all add: ordered_def)
  have at: "stageAt i n (wsId ?g) (stages s0)" and i: "wiId (agInstance ag) = i" using assms(3) n by (simp_all add: ordered_def)
  have skip: "hoare (inPhase i v (frontier i n) s0) (thenT (skipStage (wsId ?g) why w)
      (advance p rq ag cx body prev (Suc n) (drop (Suc n) (agStages ag)))) (\<lambda>_. finished p i s0)" for why w
    by (rule hoare_then [OF skipStage_phase [OF at]]) (use Suc in simp)
  have act: "hoare (inPhase i v (frontier i n) s0) (bindT (activate p rq ag n ?g authored cx prev)
      (\<lambda>armed. returnT (UNDER_REVIEW, armed))) (\<lambda>_. finished p i s0)" for authored
    by (rule hoare_bind [OF hoare_strengthen [OF activate_finishes [OF assms(1) i at]] hoare_return])
      (auto elim: inPhase_weaken dest: frontier_mid)
  show ?case using skip act n by (simp add: Cons_nth_drop_Suc [symmetric] Let_def)
qed

lemma advanceFrom_finishes:
  assumes "boundTo p i v (stages s0)" and "definitionFor p v = Some body" and "ordered i body ag (stages s0)"
  shows "hoare (inPhase i v (frontier i n) s0) (advanceFrom p rq ag n cx body prev) (\<lambda>_. finished p i s0)"
  unfolding advanceFrom_def by (rule advance_finishes [OF assms])

lemma requireAggregate_ordered:
  assumes "boundTo p i v (stages s0)" and "definitionFor p v = Some body"
  shows "hoare (inPhase i v \<Phi> s0) (requireAggregate i) (\<lambda>ag s. ordered i body ag (stages s0) \<and> inPhase i v \<Phi> s0 s)"
proof (rule hoareI)
  fix s ag s'
  assume s: "inPhase i v \<Phi> s0 s" and run: "requireAggregate i s = Inr (ag, s')"
  have ag: "loadAggregate i s = Some ag" "s' = s" using run by (auto simp: requireAggregate_def bindT_Inr split: option.splits)
  have w: "within i s0 s" using s by (simp add: inPhase_def)
  then have "ordered i body ag (stages s)"
    using aggregate_ordered [OF ag(1) _ _ assms(2)] assms(1) boundTo_within [OF w] by (simp add: within_def)
  then show "ordered i body ag (stages s0) \<and> inPhase i v \<Phi> s0 s'" using s ag ordered_within [OF w] by simp
qed

subsection \<open>Settling\<close>

lemma settleApproved_finishes:
  assumes bound: "boundTo p i v (stages s0)" and i: "wiId (agInstance ag) = i" "wiVersionId (agInstance ag) = v"
    and at: "stageAt i n (wsId stage) (stages s0)" and n: "wsIndex stage = n"
  shows "hoare (inPhase i v (\<lambda>gs ks. atRest i n gs ks \<and>
        (\<forall>g \<in> set gs. wsId g = wsId stage \<longrightarrow> evaluateStage (stageRule g) (tasksOf ks (wsId stage)) = OutAPPROVED)) s0)
      (settleApproved p rq ag stage) (\<lambda>_. finished p i s0)"
  unfolding settleApproved_def Let_def i n Suc_eq_plus1 [symmetric]
  by (rule hoare_then [OF supersede_settles [OF at]], rule hoare_then [OF completeStage_phase [OF at]], rule frame_bind,
      intro leaves_intros, rule hoare_option_eq [OF hoare_throw],
      rule hoare_bind [OF requireAggregate_ordered [OF bound]], assumption, rule hoare_conj_pre,
      rule hoare_bind [OF advanceFrom_finishes [OF bound]])
    (auto intro!: hoare_prod hoare_return)

lemma refuseApproval_finishes:
  assumes bound: "boundTo p i v (stages s0)" and i: "wiId (agInstance ag) = i"
    and at: "stageAt i n (wsId stage) (stages s0)"
  shows "hoare (inPhase i v (atRest i n) s0) (refuseApproval p rq ag stage result) (\<lambda>_. finished p i s0)"
proof -
  have ended: "hoare (inPhase i v \<Phi> s0) (thenT (endInstance i st why w num) m) (\<lambda>_. finished p i s0)"
    if "st = InsCANCELLED \<or> st = InsREJECTED" "leaves wfTables m" for \<Phi> st why w num and m :: "('a, unit) wtx"
    by (rule hoare_then [OF endInstance_phase ended_frame [OF that(2) bound]]) (use that(1) in auto)
  show ?thesis
    unfolding refuseApproval_def Let_def i
    by (rule hoare_then [OF closePending_any [OF at]], simp, rule hoare_then [OF completeStage_any [OF at]],
        rule hoare_then [OF cancelRemaining_any], rule frame_then, intro leaves_intros, rule frame_then,
        unfold withNumbering_def, intro leaves_intros,
        rule hoare_then [OF hoare_if frame_finished])
      (auto intro!: ended leaves_intros leaves_log)
qed

text \<open>The stage the engine holds while it settles is the row of the table, up to its state.\<close>

definition rowOf :: "ident \<Rightarrow> nat \<Rightarrow> stage_row \<Rightarrow> stage_row list \<Rightarrow> bool" where
  "rowOf i n stage gs \<longleftrightarrow>
     (\<exists>g \<in> set gs. wsId g = wsId stage \<and> wsInstance g = i \<and> wsIndex g = n \<and> stageRule g = stageRule stage)"

lemma rowOf_at: "rowOf i n stage gs \<Longrightarrow> stageAt i n (wsId stage) gs"
  by (auto simp: rowOf_def stageAt_def)

lemma rowOf_within:
  assumes "within i s0 s" and "rowOf i n stage (stages s0)"
  shows "rowOf i n stage (stages s)"
proof -
  have "list_all2 sameStage (stages s) (stages s0)" using assms(1) by (simp add: within_def)
  then show ?thesis using assms(2) list_all2_mem2 by (fastforce simp: rowOf_def sameStage_def stageRule_def)
qed

lemma evaluateStage_sorted:
  "evaluateStage rule (sort_key a (sort_key b ts)) = OutAPPROVED \<longleftrightarrow> evaluateStage rule ts = OutAPPROVED"
  unfolding evaluateStage_approved_iff populationOf_def countTasks_def
  by (simp add: find_None_iff filter_sort) (metis length_0_conv length_sort)

lemma stageTasks_loaded:
  assumes "loadAggregate i s = Some ag" and "shapely s" and "stageAt i n x (stages s)"
  shows "stageTasks ag x = sort_key taSequence (sort_key tkCreatedAt (tasksOf (tasks s) x))"
proof -
  have "filter (\<lambda>k. tkStage k = x \<and> tkInstance k = i) (tasks s) = filter (\<lambda>k. tkStage k = x) (tasks s)"
    using stage_tasks_own [OF _ assms(3)] assms(2) by (intro filter_cong) (auto simp: shapely_def)
  moreover have "agTasks ag = sort_key taSequence (sort_key tkCreatedAt (filter (\<lambda>k. tkInstance k = i) (tasks s)))"
    using assms(1) by (auto simp: loadAggregate_def toAggregate_def find_Some_iff)
  ultimately show ?thesis by (simp add: stageTasks_def filter_sort tasksOf_def conj_commute)
qed

lemma approved_row:
  assumes "inPhase i v (atRest i n) s0 s" and "loadAggregate i s = Some ag" and "rowOf i n stage (stages s0)"
    and "evaluateStage (stageRule stage) (stageTasks ag (wsId stage)) = OutAPPROVED"
  shows "inPhase i v (\<lambda>gs ks. atRest i n gs ks \<and>
    (\<forall>g \<in> set gs. wsId g = wsId stage \<longrightarrow> evaluateStage (stageRule g) (tasksOf ks (wsId stage)) = OutAPPROVED)) s0 s"
proof -
  have w: "within i s0 s" and sh: "shapely s" using assms(1) by (simp_all add: inPhase_def within_def)
  have row: "rowOf i n stage (stages s)" by (rule rowOf_within [OF w assms(3)])
  then obtain h where h: "h \<in> set (stages s)" "wsId h = wsId stage" "stageRule h = stageRule stage" by (auto simp: rowOf_def)
  have "stageRule g = stageRule stage" if "g \<in> set (stages s)" "wsId g = wsId stage" for g
    using distinct_map_eq [of wsId "stages s" g h] h that sh by (simp add: shapely_def rowShape_def)
  moreover have "evaluateStage (stageRule stage) (tasksOf (tasks s) (wsId stage)) = OutAPPROVED"
    using assms(4) unfolding stageTasks_loaded [OF assms(2) sh rowOf_at [OF row]] evaluateStage_sorted .
  ultimately show ?thesis using assms(1) by (simp add: inPhase_def)
qed

definition holding :: "ident \<Rightarrow> ident \<Rightarrow> aggregate \<Rightarrow> 'z wf_state_scheme \<Rightarrow> bool" where
  "holding i v ag s \<longleftrightarrow> loadAggregate i s = Some ag \<and> wiId (agInstance ag) = i \<and> wiVersionId (agInstance ag) = v"

lemma requireAggregate_holding:
  "hoare (inPhase i v \<Phi> s0) (requireAggregate i) (\<lambda>ag s. holding i v ag s \<and> inPhase i v \<Phi> s0 s)"
proof (rule hoareI)
  fix s ag s'
  assume s: "inPhase i v \<Phi> s0 s" and run: "requireAggregate i s = Inr (ag, s')"
  then have ag: "loadAggregate i s = Some ag" "s' = s" by (auto simp: requireAggregate_def bindT_Inr split: option.splits)
  then have "agInstance ag \<in> set (instances s) \<and> wiId (agInstance ag) = i"
    by (auto simp: loadAggregate_def toAggregate_def find_Some_iff nth_mem)
  then show "holding i v ag s' \<and> inPhase i v \<Phi> s0 s'" using s ag inPhase_only [OF s] by (simp add: holding_def)
qed

lemma settleStage_finishes:
  assumes bound: "boundTo p i v (stages s0)" and row: "rowOf i n stage (stages s0)" and n: "wsIndex stage = n"
  shows "hoare (\<lambda>s. holding i v ag s \<and> inPhase i v (atRest i n) s0 s) (settleStage p rq ag stage) (\<lambda>_. finished p i s0)"
proof (rule hoareI)
  fix s r s'
  assume pre: "holding i v ag s \<and> inPhase i v (atRest i n) s0 s" and run: "settleStage p rq ag stage s = Inr (r, s')"
  let ?out = "evaluateStage (stageRule stage) (stageTasks ag (wsId stage))"
  have ag: "loadAggregate i s = Some ag" "wiId (agInstance ag) = i" "wiVersionId (agInstance ag) = v"
    and s: "inPhase i v (atRest i n) s0 s" using pre by (simp_all add: holding_def)
  consider (pend) "?out = OutPENDING" | (ok) "?out = OutAPPROVED" | (no) "?out \<noteq> OutPENDING" "?out \<noteq> OutAPPROVED" by blast
  then show "finished p i s0 s'"
  proof cases
    case pend
    then show ?thesis using run rest_finished [OF s bound] by (simp add: settleStage_def Let_def)
  next
    case ok
    have "hoare (inPhase i v (\<lambda>gs ks. atRest i n gs ks \<and>
        (\<forall>g \<in> set gs. wsId g = wsId stage \<longrightarrow> evaluateStage (stageRule g) (tasksOf ks (wsId stage)) = OutAPPROVED)) s0)
      (settleStage p rq ag stage) (\<lambda>_. finished p i s0)"
      unfolding settleStage_def Let_def ok
      by (simp, rule frame_then, intro leaves_intros,
          rule hoare_bind [OF settleApproved_finishes [OF bound ag(2,3) rowOf_at [OF row] n]], rule hoare_return)
    from hoareD [OF this approved_row [OF s ag(1) row ok] run] show ?thesis .
  next
    case no
    have "hoare (inPhase i v (atRest i n) s0) (settleStage p rq ag stage) (\<lambda>_. finished p i s0)"
      unfolding settleStage_def Let_def if_not_P [OF no(1)] if_not_P [OF no(2)]
      by (rule frame_then, intro leaves_intros,
          rule hoare_then [OF refuseApproval_finishes [OF bound ag(2) rowOf_at [OF row]]], rule hoare_return)
    from hoareD [OF this s run] show ?thesis .
  qed
qed

subsection \<open>Deciding\<close>

lemma loaded_rows:
  assumes "loadAggregate i s = Some ag"
  shows "agInstance ag \<in> set (instances s)" and "wiId (agInstance ag) = i"
    and "set (agStages ag) = {g \<in> set (stages s). wsInstance g = i}" and "set (agTasks ag) = {k \<in> set (tasks s). tkInstance k = i}"
  using assms by (auto simp: loadAggregate_def toAggregate_def find_Some_iff nth_mem)

lemma live_start:
  assumes "wfInv p s" and "loadAggregate i s = Some ag" and "liveInstance (agInstance ag)"
  obtains n where "inPhase i (wiVersionId (agInstance ag)) (atRest i n) s s"
    and "boundTo p i (wiVersionId (agInstance ag)) (stages s)"
proof -
  obtain n where n: "atRest i n (stages s) (tasks s)" "boundTo p i (wiVersionId (agInstance ag)) (stages s)"
    using assms loaded_rows [OF assms(2)] by (auto simp: wfInv_def instanceOk_def)
  have "inPhase i (wiVersionId (agInstance ag)) (atRest i n) s s"
    using n assms loaded_rows [OF assms(2)] by (auto simp: inPhase_def wfInv_def intro: within_refl)
  then show ?thesis using that n by blast
qed

lemma wfInv_okBut: "wfInv p s \<Longrightarrow> okBut p i s"
  by (simp add: wfInv_def okBut_def)

lemma loaded_row:
  assumes "loadAggregate i s = Some ag" and "shapely s" and "stageAt i n (wsId g) (stages s)" and "g \<in> set (agStages ag)"
  shows "rowOf i n g (stages s)" and "wsIndex g = n"
proof -
  have g: "g \<in> set (stages s)" "wsInstance g = i" using assms(4) loaded_rows(3) [OF assms(1)] by auto
  then show n: "wsIndex g = n" using stageAt_id [OF _ assms(3) g(1)] assms(2) by (simp add: shapely_def)
  show "rowOf i n g (stages s)" using g n by (auto simp: rowOf_def)
qed

lemma hoare_find:
  "(\<And>x. \<lbrakk>x \<in> set xs; f x\<rbrakk> \<Longrightarrow> hoare P (g x) Q) \<Longrightarrow> hoare P (bindT (case List.find f xs of None \<Rightarrow> throwT e | Some x \<Rightarrow> returnT x) g) Q"
  using find_Some_mem [of f xs] by (cases "List.find f xs") (auto simp: hoare_def bindT_Inr)

lemma leaves_authorise [leaves_intros]: "leaves t (authoriseDecision p rq actor task d)"
  unfolding authoriseDecision_def by (intro leaves_intros)

lemma leaves_recordChange: "(\<And>s y. t (s\<lparr>trail := y\<rparr>) = t s) \<Longrightarrow> leaves t (recordChange rq c)"
  unfolding recordChange_def by (rule leaves_modify)

lemma recordDecision_phase:
  assumes at: "stageAt i n x (stages s0)"
  shows "hoare (inPhase i v (\<lambda>gs ks. atRest i n gs ks \<and> holds {tkId task} x ks) s0)
    (recordDecision rq ag stage task actor g d remark) (\<lambda>_. inPhase i v (atRest i n) s0)"
proof -
  have weak: "hoare (inPhase i v (\<lambda>gs ks. atRest i n gs ks \<and> holds {tkId task} x ks) s0) m (\<lambda>_. inPhase i v (atRest i n) s0)"
    if "leaves wfTables m" for m :: "('a, unit) wtx"
    by (rule hoare_strengthen [OF phase_frame(1) [OF that]]) (auto elim: inPhase_weaken)
  show ?thesis
    unfolding recordDecision_def Let_def
    by (rule hoare_bind [OF decideIfPending_phase [OF at]], simp, rule hoare_require, rule weak)
      (auto intro!: leaves_intros leaves_log leaves_recordChange)
qed

lemma decideLoaded_finishes:
  assumes "loadAggregate i s0 = Some ag" and "task \<in> set (agTasks ag)" and start: "inPhase i v (atRest i n) s0 s0"
    and bound: "boundTo p i v (stages s0)"
  shows "hoare (inPhase i v (\<lambda>gs ks. atRest i n gs ks \<and> holds {tkId task} (tkStage task) ks) s0)
    (decideLoaded p rq ag task d remark) (\<lambda>_. finished p i s0)"
proof -
  have i: "wiId (agInstance ag) = i" by (rule loaded_rows(2) [OF assms(1)])
  have sh: "shapely s0" and rest: "mid i n (stages s0) (tasks s0)" using start by (auto simp: inPhase_def within_def atRest_def)
  have tail: "hoare (inPhase i v (\<lambda>gs ks. atRest i n gs ks \<and> holds {tkId task} (tkStage task) ks) s0)
     (thenT (recordDecision rq ag stage task actor g d remark)
     (bindT (requireAggregate i) (\<lambda>fresh.
      bindT (settleStage p rq fresh stage) (\<lambda>(result, armed).
      returnT ((i, armed), decideChange ag stage task actor g d remark result))))) (\<lambda>_. finished p i s0)"
    if stage: "stage \<in> set (agStages ag)" "wsId stage = tkStage task"
      and act: "tkId task \<in> set (map tkId (actionableTasks (wsOrdered stage) (stageTasks ag (wsId stage))))" for stage actor g
  proof -
    obtain k where k: "k \<in> set (agTasks ag)" "isAvailable k" "tkId k = tkId task"
      using act by (auto simp: actionableTasks_def stageTasks_def Let_def split: if_splits)
    then have "k = task" using distinct_map_eq [of tkId "tasks s0" k task] sh assms(2) loaded_rows(4) [OF assms(1)]
      by (simp add: shapely_def rowShape_def)
    then have "stageAt i n (tkStage task) (stages s0)"
      using pending_task_at_rest [OF _ rest, of "instances s0" task] k sh assms(2) loaded_rows(4) [OF assms(1)]
      by (simp add: isAvailable_def shapely_def)
    then have at: "stageAt i n (wsId stage) (stages s0)" using stage(2) by simp
    note row = loaded_row [OF assms(1) sh at stage(1)]
    show ?thesis unfolding stage(2) [symmetric]
      by (rule hoare_then [OF recordDecision_phase [OF at]], rule hoare_bind [OF requireAggregate_holding],
          rule hoare_bind [OF settleStage_finishes [OF bound row]]) (auto intro!: hoare_prod hoare_return)
  qed
  show ?thesis
    unfolding decideLoaded_def requireStage_def i
    by (intro frame_bind leaves_intros hoare_require hoare_find tail) auto
qed

lemma leaves_keeps [preserves_intros]: "leaves wfTables m \<Longrightarrow> preserves (wfInv p) m"
  by (auto intro!: preservesI dest!: leavesD simp: wfInv_def wfTables_def shapely_def)

lemma write_keeps: "preserves (wfInv p) m \<Longrightarrow> preserves (wfInv p) (writeT rq m)"
  by (rule preserves_write) (simp_all add: wfInv_def shapely_def)

lemma decide_found:
  assumes inv: "wfInv p s" and load: "loadAggregate i s = Some ag" and task: "task \<in> set (agTasks ag)"
    and body: "decideLoaded p rq ag task d remark s = Inr (r, s')"
  shows "wfInv p s'"
proof -
  have "liveInstance (agInstance ag)" using body by (auto simp: decideLoaded_def bindT_Inr thenT_Inr liveInstance_def)
  then obtain n where start: "inPhase i (wiVersionId (agInstance ag)) (atRest i n) s s"
    and bound: "boundTo p i (wiVersionId (agInstance ag)) (stages s)" by (rule live_start [OF inv load])
  have sh: "shapely s" using inv by (simp add: wfInv_def)
  have "k = task" if "k \<in> set (tasks s)" "tkId k = tkId task" for k
    using distinct_map_eq [of tkId "tasks s" k task] that sh task loaded_rows(4) [OF load] by (simp add: shapely_def rowShape_def)
  then have "inPhase i (wiVersionId (agInstance ag)) (\<lambda>gs ks. atRest i n gs ks \<and> holds {tkId task} (tkStage task) ks) s s"
    using start by (auto simp: inPhase_def holds_def)
  then have "finished p i s s'" using hoareD [OF decideLoaded_finishes [OF load task start bound] _ body] by blast
  then show ?thesis by (rule wfInv_finished [OF wfInv_okBut [OF inv]])
qed

lemma decide_keeps: "preserves (wfInv p) (decide p rq t d remark)"
proof -
  have found: "preserves (wfInv p) (bindT (getsT (loadAggregate i)) (\<lambda>loaded.
      case loaded of None \<Rightarrow> throwT e
      | Some ag \<Rightarrow> (case List.find (\<lambda>k. tkId k = t) (agTasks ag) of None \<Rightarrow> throwT e
                   | Some task \<Rightarrow> decideLoaded p rq ag task d remark)))" for i e
    by (rule preservesI) (auto simp: bindT_Inr split: option.splits dest!: find_Some_mem intro: decide_found)
  show ?thesis
    unfolding decide_def Let_def
    by (intro found preserves_bind write_keeps preserves_option preserves_then preserves_basic preserves_prod leaves_keeps leaves_intros)
qed

subsection \<open>Ending and holding\<close>

lemma hoare_forEach: "(\<And>x. x \<in> set xs \<Longrightarrow> hoare P (f x) (\<lambda>_. P)) \<Longrightarrow> hoare P (forEachT f xs) (\<lambda>_. P)"
proof (induction xs)
  case (Cons x xs)
  then show ?case using hoare_then [of P "f x" P "forEachT f xs" "\<lambda>_. P"] by simp
qed (simp add: hoare_return)

lemma loaded_stageAt:
  assumes "loadAggregate i s = Some ag" and "g \<in> set (agStages ag)"
  shows "stageAt i (wsIndex g) (wsId g) (stages s)"
  using assms loaded_rows(3) [OF assms(1)] by (auto simp: stageAt_def)

lemma endWithin_finishes:
  assumes bound: "boundTo p i v (stages s0)" and load: "loadAggregate i s0 = Some ag"
  shows "hoare (inPhase i v \<Phi> s0) (endWithin p rq ag why to) (\<lambda>_. finished p i s0)"
proof -
  let ?all = "\<lambda>(_ :: stage_row list) (_ :: task_row list). True"
  have close: "hoare (inPhase i v ?all s0) (forEachT (\<lambda>g. if wsState g = StgACTIVE then closePendingTasks (wsId g) TaskWITHDRAWN else returnT ())
      (agStages ag)) (\<lambda>_. inPhase i v ?all s0)"
    by (intro hoare_forEach hoare_if closePending_any [OF loaded_stageAt [OF load]] hoare_return) simp_all
  have "hoare (inPhase i v ?all s0) (endWithin p rq ag why to) (\<lambda>_. finished p i s0)"
    unfolding endWithin_def Let_def loaded_rows(2) [OF load] withNumbering_def
    by (rule hoare_then [OF close], rule hoare_then [OF cancelRemaining_any], rule frame_then, intro leaves_intros,
        rule frame_then, intro leaves_intros, rule hoare_then [OF endInstance_phase ended_frame [OF _ bound]])
      (auto intro!: leaves_intros leaves_log)
  then show ?thesis by (rule hoare_strengthen) (auto elim: inPhase_weaken)
qed

lemma aggregate_keeps:
  assumes "\<And>s ag x s'. \<lbrakk>wfInv p s; loadAggregate i s = Some ag; f ag s = Inr (x, s')\<rbrakk> \<Longrightarrow> wfInv p s'"
  shows "preserves (wfInv p) (bindT (requireAggregate i) f)"
  by (rule preservesI) (auto simp: requireAggregate_def bindT_Inr split: option.splits intro: assms)

lemma endApproval_keeps: "preserves (wfInv p) (endApproval p rq i why remark to :: ('a, unit) wtx)"
proof -
  have found: "wfInv p s'" if inv: "wfInv p s" and load: "loadAggregate i s = Some ag" and live: "liveInstance (agInstance ag)"
    and run: "endWithin p rq ag why to s = Inr (x, s')" for s ag x s'
  proof -
    obtain n where start: "inPhase i (wiVersionId (agInstance ag)) (atRest i n) s s"
      and bound: "boundTo p i (wiVersionId (agInstance ag)) (stages s)" by (rule live_start [OF inv load live])
    show ?thesis using hoareD [OF endWithin_finishes [OF bound load] start run] by (rule wfInv_finished [OF wfInv_okBut [OF inv]])
  qed
  show ?thesis
    unfolding endApproval_def
  proof (intro write_keeps preserves_then aggregate_keeps)
    fix s :: "'a wf_state_scheme" and ag :: aggregate and r s'
    let ?say = "case remark of None \<Rightarrow> returnT ()
      | Some text \<Rightarrow> bindT (requireApprover rq) (\<lambda>actor. plainComment rq i (wiDocumentId (agInstance ag)) actor text)"
    assume inv: "wfInv p s" and load: "loadAggregate i s = Some ag"
      and "thenT (requireT (wiState (agInstance ag) = InsRUNNING \<or> wiState (agInstance ag) = InsPAUSED)
                 (ValidationError ''This approval has already ended.''
                    [(''status'', instanceStatusName (wiState (agInstance ag)))]))
        (thenT (requireT (\<not> (list_ex (\<lambda>k. taDecision k \<noteq> None) (agTasks ag) \<and> why = ''WITHDRAWN''))
                 (ValidationError ''Somebody has already decided; this can no longer be withdrawn.'' [(''tasks'', ''decided'')]))
        (thenT (endWithin p rq ag why to)
        (thenT ?say
        (returnT ((), wfChange ''WITHDRAWN'' ''WORKFLOW'' i
           (Some [(''status'', JStr (instanceStatusName (wiState (agInstance ag))))])
           (Some [(''status'', JStr ''CANCELLED''), (''reason'', JStr why), (''note'', jopt remark),
              (''documentStatus'', JStr (statusName to))])))))) s = Inr (r, s')"
    then obtain x s1 y where live: "liveInstance (agInstance ag)" and run: "endWithin p rq ag why to s = Inr (x, s1)"
      and say: "?say s1 = Inr (y, s')" by (auto simp: thenT_Inr liveInstance_def)
    have "preserves (wfInv p) ?say" by (intro leaves_keeps leaves_intros)
    from preservesD [OF this found [OF inv load live run] say] show "wfInv p s'" .
  qed (intro leaves_keeps leaves_intros)
qed

lemma withdraw_keeps: "preserves (wfInv p) (withdraw p rq d remark)"
  unfolding withdraw_def
  by (intro preserves_bind preserves_read preserves_basic preserves_option preserves_then endApproval_keeps leaves_keeps
      leaves_intros)

lemma cancelApproval_keeps: "preserves (wfInv p) (cancelApproval p rq i why remark)"
  unfolding cancelApproval_def by (rule endApproval_keeps)

lemma setPaused_keeps:
  assumes "wfInv p s" and "setPaused i b why at s = Inr (x, s')"
  shows "wfInv p s'"
proof -
  let ?f = "\<lambda>w. w\<lparr>wiState := (if b then InsPAUSED else InsRUNNING), wiPausedAt := (if b then Some at else None),
     wiPauseReason := (if b then why else None), wiVersion := wiVersion w + 1\<rparr>"
  have s': "s' = s\<lparr>instances := updateWhere (\<lambda>w. wiId w = i) ?f (instances s)\<rparr>"
    and open': "\<forall>w \<in> set (instances s). wiId w = i \<longrightarrow> wiEndedAt w = None"
    using assms(2) by (simp_all add: setPaused_def bindT_Inr thenT_Inr updateInstances_def)
  have sh: "shapely s" using assms(1) by (simp add: wfInv_def)
  have live: "liveInstance w" if "w \<in> set (instances s)" "wiId w = i" for w
    using sh open' that by (auto simp: shapely_def rowShape_def endedInstance_iff)
  have "within i s s'" unfolding s'
    by (rule within_update_instances [OF within_refl [OF sh]])
      (use live open' in \<open>auto simp: sameInstance_def liveInstance_def endedInstance_def\<close>)
  moreover have "instanceOk p (stages s') (tasks s') w" if "w \<in> set (instances s')" "wiId w = i" for w
  proof -
    have "w \<in> (\<lambda>u. if wiId u = i then ?f u else u) ` set (instances s)" using that(1) by (simp add: s' updateWhere_def)
    then obtain u where "u \<in> set (instances s)" "w = (if wiId u = i then ?f u else u)" by blast
    then have u: "u \<in> set (instances s)" "wiId u = i" "w = ?f u" using that(2) by (auto split: if_splits)
    then have "instanceOk p (stages s) (tasks s) u" "liveInstance u" using assms(1) live by (simp_all add: wfInv_def)
    then show ?thesis using u by (auto simp: s' instanceOk_def liveInstance_def)
  qed
  ultimately have "finished p i s s'" by (simp add: finished_def)
  then show ?thesis by (rule wfInv_finished [OF wfInv_okBut [OF assms(1)]])
qed

lemma hold_keeps: "preserves (wfInv p) (pauseApproval rq i why remark)" "preserves (wfInv p) (resumeApproval rq i)"
proof -
  have set: "preserves (wfInv p) (setPaused i b w at)" for b w at by (rule preservesI) (rule setPaused_keeps)
  show "preserves (wfInv p) (pauseApproval rq i why remark)"
    unfolding pauseApproval_def
    by (intro write_keeps preserves_then preserves_bind preserves_basic set) (intro leaves_keeps leaves_intros)+
  show "preserves (wfInv p) (resumeApproval rq i)"
    unfolding resumeApproval_def
    by (intro write_keeps preserves_then preserves_bind preserves_basic set) (intro leaves_keeps leaves_intros)+
qed

lemma commentOn_keeps: "preserves (wfInv p) (commentOn p rq i b)"
  unfolding commentOn_def changeT_def by (intro leaves_keeps leaves_intros)

end
