(* ===== verification/Workflow_Reach.thy ===== *)
theory Workflow_Reach
  imports Workflow_Operations
begin

text \<open>
  Timers that fire and submissions keep the invariant of the approval tables too, so every state the engine reaches
  has it: the step relation over the engine's operations, its reachable states, and what the invariant says of them.
\<close>

subsection \<open>Timers that fire\<close>

lemma active_at_rest:
  assumes "atRest i n gs ks" and "g \<in> set gs" "wsInstance g = i" "wsState g = StgACTIVE"
  shows "wsIndex g = n"
proof (rule ccontr)
  assume "wsIndex g \<noteq> n"
  then have "passed g ks \<or> untouched g ks" using assms by (auto simp: atRest_def mid_def nat_neq_iff)
  then show False using assms(4) by (auto simp: passed_def untouched_def)
qed

lemma rest_frame:
  assumes "boundTo p i v (stages s0)" and "leaves wfTables m"
  shows "hoare (inPhase i v (atRest i n) s0) m (\<lambda>_. finished p i s0)"
  by (rule hoare_strengthen [OF phase_frame(1) [OF assms(2)]]) (auto intro: rest_finished [OF _ assms(1)])

lemma escalate_finishes:
  assumes bound: "boundTo p i v (stages s0)" and i: "wiId (agInstance ag) = i" and at: "stageAt i n (wsId stage) (stages s0)"
  shows "hoare (inPhase i v (atRest i n) s0) (escalate p rq ag stage authored pending) (\<lambda>_. finished p i s0)"
proof -
  have close: "hoare (inPhase i v (atRest i n) s0) (if b then closePendingTasks (wsId stage) TaskWITHDRAWN else returnT ())
      (\<lambda>_. inPhase i v (atRest i n) s0)" for b
    by (intro hoare_if closePending_rest [OF at] hoare_return) simp_all
  have made: "hoare (inPhase i v (atRest i n) s0) (escalationTasks rq ag stage ks rs)
      (\<lambda>ts s. ofStage i (wsId stage) ts \<and> inPhase i v (atRest i n) s0 s)" for ks rs
    by (rule hoare_both [OF phase_frame(1)]) (use escalationTasks_own [of rq ag stage ks rs] i in \<open>auto intro: leaves_intros\<close>)
  have send: "hoare (inPhase i v (atRest i n) s0)
      (if b then bindT (escalationTasks rq ag stage ks rs) (\<lambda>ts. thenT (createTasks rq ts) (publishT es)) else returnT ())
      (\<lambda>_. inPhase i v (atRest i n) s0)" for b ks rs es
    by (intro hoare_if hoare_return hoare_bind [OF made] hoare_conj_pre hoare_then [OF createTasks_phase [OF at _ taskFree_phases(2)]]
        phase_frame(1) leaves_log)
  have "hoare (inPhase i v (atRest i n) s0) (escalateTo p rq ag stage target keep pending) (\<lambda>_. finished p i s0)" for target keep
    unfolding escalateTo_def Let_def i
    by (rule frame_bind, intro leaves_intros, rule frame_bind, intro leaves_intros, rule hoare_bind [OF recordEscalation_phase],
        rule hoare_then [OF close], rule hoare_then [OF send])
      (intro rest_frame [OF bound] leaves_intros leaves_log)
  then show ?thesis unfolding escalate_def Let_def
    by (auto split: option.splits overdue_behaviour.splits intro!: rest_frame [OF bound] leaves_intros)
qed

lemma onOverdue_finishes:
  assumes load: "loadAggregate i s0 = Some ag" and start: "inPhase i v (atRest i n) s0 s0"
    and bound: "boundTo p i v (stages s0)" and stage: "stage \<in> set (agStages ag)" "wsState stage = StgACTIVE"
  shows "hoare (\<lambda>s. s = s0) (onOverdue p rq ag stage) (\<lambda>_. finished p i s0)"
proof -
  have i: "wiId (agInstance ag) = i" by (rule loaded_rows(2) [OF load])
  have sh: "shapely s0" and rest: "atRest i n (stages s0) (tasks s0)" using start by (auto simp: inPhase_def within_def)
  have g: "stage \<in> set (stages s0)" "wsInstance stage = i" using stage(1) loaded_rows(3) [OF load] by auto
  have n: "wsIndex stage = n" by (rule active_at_rest [OF rest g stage(2)])
  have at: "stageAt i n (wsId stage) (stages s0)" using loaded_stageAt [OF load stage(1)] n by simp
  note row = loaded_row [OF load sh at stage(1)]
  define pending where "pending = filter (\<lambda>k. taState k = TaskPENDING) (stageTasks ag (wsId stage))"
  let ?T = "tkId ` set pending"
  have "holds ?T (wsId stage) (tasks s0)"
    unfolding holds_def
  proof (intro ballI impI)
    fix k assume k: "k \<in> set (tasks s0)" "tkId k \<in> ?T"
    then obtain h where h: "h \<in> set (tasks s0)" "tkStage h = wsId stage" "tkId h = tkId k"
      using loaded_rows(4) [OF load] by (auto simp: pending_def stageTasks_def)
    then show "tkStage k = wsId stage" using distinct_map_eq [of tkId "tasks s0" k h] k sh by (simp add: shapely_def rowShape_def)
  qed
  then have held: "inPhase i v (\<lambda>gs ks. atRest i n gs ks \<and> holds ?T (wsId stage) ks) s0 s0" using start by (simp add: inPhase_def)
  have auto_all: "hoare (inPhase i v (\<lambda>gs ks. atRest i n gs ks \<and> holds ?T (wsId stage) ks) s0)
      (forEachT (\<lambda>k. bindT (decideIfPending \<lparr>diTask = tkId k, diDecision = DecAPPROVED, diDecidedBy = tkAssignee k,
         diOnBehalfOf = None, diDelegation = None, diComment = c, diAt = now rq, diAuto = True\<rparr>) (\<lambda>_. returnT ())) pending)
      (\<lambda>_. inPhase i v (\<lambda>gs ks. atRest i n gs ks \<and> holds ?T (wsId stage) ks) s0)" for c
    by (rule hoare_forEach, rule hoare_bind [OF decideIfPending_phase [OF at]]) (auto intro: hoare_return)
  have weak: "hoare (inPhase i v (\<lambda>gs ks. atRest i n gs ks \<and> holds ?T (wsId stage) ks) s0) m Q"
    if "hoare (inPhase i v (atRest i n) s0) m Q" for m :: "('a, 'b) wtx" and Q
    using that by (rule hoare_strengthen) (auto elim: inPhase_weaken)
  have settle: "hoare (inPhase i v (atRest i n) s0) (bindT (requireAggregate i) (\<lambda>fresh.
        bindT (settleStage p rq fresh stage) (\<lambda>(r, armed). returnT (armed, c)))) (\<lambda>_. finished p i s0)" for c :: change
    by (rule hoare_bind [OF requireAggregate_holding], rule hoare_bind [OF settleStage_finishes [OF bound row]])
      (auto intro!: hoare_prod hoare_return)
  have "hoare (inPhase i v (\<lambda>gs ks. atRest i n gs ks \<and> holds ?T (wsId stage) ks) s0) (onOverdue p rq ag stage) (\<lambda>_. finished p i s0)"
    unfolding onOverdue_def Let_def i pending_def [symmetric]
    by (split overdue_behaviour.split, intro conjI allI impI,
        rule weak [OF rest_frame [OF bound]], intro leaves_intros leaves_log,
        rule weak [OF hoare_bind [OF escalate_finishes [OF bound i at]]], rule hoare_return, assumption,
        rule hoare_then [OF auto_all weak [OF settle]],
        rule hoare_then [OF endWithin_finishes [OF bound load]], rule hoare_return)
  then show ?thesis by (rule hoare_strengthen) (use held in auto)
qed

lemma fireLoaded_keeps: "preserves (wfInv p) (fireLoaded p rq j timer)"
proof -
  have overdue: "wfInv p s'" if inv: "wfInv p s" and load: "loadAggregate i s = Some ag"
    and running: "wiState (agInstance ag) = InsRUNNING" and stage: "stage \<in> set (agStages ag)" "wsState stage = StgACTIVE"
    and run: "onOverdue p rq ag stage s = Inr (x, s')" for s i ag stage x s'
  proof -
    have live: "liveInstance (agInstance ag)" using running by (simp add: liveInstance_def)
    obtain n where start: "inPhase i (wiVersionId (agInstance ag)) (atRest i n) s s"
      and bound: "boundTo p i (wiVersionId (agInstance ag)) (stages s)" by (rule live_start [OF inv load live])
    show ?thesis using hoareD [OF onOverdue_finishes [OF load start bound stage] refl run]
      by (rule wfInv_finished [OF wfInv_okBut [OF inv]])
  qed
  have remind: "wfInv p s'" if "wfInv p s" "thenT (publishT es) (returnT r) s = Inr (x, s')" for s es r x s'
  proof -
    have "preserves (wfInv p) (thenT (publishT es) (returnT r))" by (intro leaves_keeps leaves_intros leaves_log)
    from preservesD [OF this that] show ?thesis .
  qed
  show ?thesis
    unfolding fireLoaded_def Let_def
    by (rule preservesI)
      (auto simp: bindT_Inr split: option.splits if_splits dest!: find_Some_mem intro: remind overdue)
qed

lemma onTimerFired_keeps: "preserves (wfInv p) (onTimerFired p rq j)"
  unfolding onTimerFired_def
  by (intro preserves_bind write_keeps preserves_basic preserves_option preserves_if fireLoaded_keeps leaves_keeps leaves_intros)

subsection \<open>Submission\<close>

lemma collect_pairs:
  assumes "\<And>x s y s'. f x s = Inr (y, s') \<Longrightarrow> R x y"
  shows "collectT f xs s = Inr (ys, s') \<Longrightarrow> list_all2 R xs ys"
  by (induction xs arbitrary: ys s) (auto simp: bindT_Inr intro: assms)

definition written :: "definition_body \<Rightarrow> ident \<Rightarrow> nat \<Rightarrow> new_stage \<Rightarrow> bool" where
  "written body i j n \<longleftrightarrow>
     ngInstance n = i \<and> ngIndex n = j \<and> ngRule n = sdRule (dbStages body ! j) \<and> ngThreshold n = sdThreshold (dbStages body ! j)"

lemma newStages_written:
  assumes "newStages rq i body s = Inr (ns, s')"
  shows "list_all2 (written body i) [0..<length (dbStages body)] ns"
proof -
  have "list_all2 (\<lambda>(j, d) n. ngInstance n = i \<and> ngIndex n = j \<and> ngRule n = sdRule d \<and> ngThreshold n = sdThreshold d)
      (zip [0..<length (dbStages body)] (dbStages body)) ns"
    by (rule collect_pairs [OF _ assms [unfolded newStages_def]]) (auto simp: bindT_Inr)
  then show ?thesis unfolding list_all2_conv_all_nth by (auto simp: written_def)
qed

text \<open>While the stages are written one by one: those of the new approval are the first \<open>j\<close>, untouched.\<close>

definition writing :: "wf_ports \<Rightarrow> definition_body \<Rightarrow> ident \<Rightarrow> ident \<Rightarrow> nat \<Rightarrow> 'z wf_state_scheme \<Rightarrow> bool" where
  "writing p body i v j s \<longleftrightarrow>
     okBut p i s \<and> (\<exists>w \<in> set (instances s). wiId w = i \<and> liveInstance w \<and> wiVersionId w = v) \<and>
     wsIndex ` {g \<in> set (stages s). wsInstance g = i} = {..<j} \<and>
     (\<forall>g \<in> set (stages s). wsInstance g = i \<longrightarrow> untouched g (tasks s) \<and>
        wsRule g = sdRule (dbStages body ! wsIndex g) \<and> wsThreshold g = sdThreshold (dbStages body ! wsIndex g))"

lemma writing_tables: "wfTables s' = wfTables s \<Longrightarrow> writing p body i v j s' = writing p body i v j s"
  by (simp add: writing_def okBut_def shapely_def wfTables_def)

lemma shape_insert_stage:
  assumes "rowShape ws gs ks" and "wsInstance g \<in> set (map wiId ws)" and "\<forall>h \<in> set gs. wsId h \<noteq> wsId g"
    and "\<forall>h \<in> set gs. \<not> (wsInstance h = wsInstance g \<and> wsIndex h = wsIndex g)"
  shows "rowShape ws (gs @ [g]) ks" and "tasksOf ks (wsId g) = []"
proof -
  have "uniqueWhere (\<lambda>_. True) (\<lambda>g. (wsInstance g, wsIndex g)) wsId (gs @ [g])"
    by (rule uniqueWhere_append) (use assms in \<open>auto simp: rowShape_def\<close>)
  moreover have "\<forall>k \<in> set ks. \<exists>h \<in> set gs. wsId h = tkStage k \<and> wsInstance h = tkInstance k" using assms(1) by (simp add: rowShape_def)
  ultimately show "rowShape ws (gs @ [g]) ks" using assms unfolding rowShape_def by auto
  show "tasksOf ks (wsId g) = []" using assms(1,3) by (force simp: tasksOf_def filter_empty_conv rowShape_def)
qed

lemma insertStage_writes:
  assumes "written body i j n"
  shows "hoare (writing p body i v j) (insertStage n) (\<lambda>_. writing p body i v (Suc j))"
proof (rule hoareI)
  fix s x s'
  assume s: "writing p body i v j s" and run: "insertStage n s = Inr (x, s')"
  define g where "g = \<lparr>wsId = ngId n, wsInstance = ngInstance n, wsIndex = ngIndex n, wsName = ngName n, wsRule = ngRule n,
     wsThreshold = ngThreshold n, wsOrdered = ngOrdered n, wsState = StgPENDING, wsActivatedAt = None,
     wsCompletedAt = None, wsDueAt = None, wsSkipReason = None\<rparr>"
  have s': "s' = s\<lparr>stages := stages s @ [g]\<rparr>" and new: "\<forall>h \<in> set (stages s). wsId h \<noteq> wsId g"
    "\<forall>h \<in> set (stages s). \<not> (wsInstance h = wsInstance g \<and> wsIndex h = wsIndex g)"
    using run by (simp_all add: insertStage_def bindT_Inr thenT_Inr g_def)
  have g: "wsInstance g = i" "wsIndex g = j" "wsState g = StgPENDING" "wsRule g = sdRule (dbStages body ! j)"
    "wsThreshold g = sdThreshold (dbStages body ! j)" using assms by (simp_all add: g_def written_def)
  have own: "wsInstance g \<in> set (map wiId (instances s))" using s g by (fastforce simp: writing_def intro: rev_image_eqI)
  have old: "rowShape (instances s) (stages s) (tasks s)" using s by (simp add: writing_def okBut_def shapely_def)
  note ins = shape_insert_stage [OF old own new]
  have "instanceOk p (stages s @ [g]) (tasks s) w = instanceOk p (stages s) (tasks s) w" if "wiId w \<noteq> i" for w
  proof -
    have "h \<in> set (stages s @ [g]) \<and> wsInstance h = wiId w \<longleftrightarrow> h \<in> set (stages s) \<and> wsInstance h = wiId w" for h
      using that g by auto
    then show ?thesis unfolding instanceOk_def
      using phases_local [of "stages s @ [g]" "wiId w" "stages s" "tasks s" "tasks s"]
      by (intro conj_cong imp_cong ex_cong1 refl) simp_all
  qed
  then have "okBut p i s'" using s ins(1) by (simp add: writing_def okBut_def shapely_def s')
  moreover have "untouched g (tasks s)" using ins(2) g by (simp add: untouched_def)
  moreover have "{h \<in> set (stages s'). wsInstance h = i} = insert g {h \<in> set (stages s). wsInstance h = i}" using g by (auto simp: s')
  ultimately show "writing p body i v (Suc j) s'" using s g by (auto simp: writing_def s' lessThan_Suc)
qed

lemma createStages_writes:
  assumes "list_all2 (written body i) [j..<m] ns" and "j \<le> m"
  shows "hoare (writing p body i v j) (createStages ns) (\<lambda>_. writing p body i v m)"
  unfolding createStages_def using assms
proof (induction ns arbitrary: j rule: list.induct)
  case Nil
  then have "m = j" by auto
  then show ?case by (simp add: hoare_return)
next
  case (Cons n ns)
  then have "j < m" by (cases "j < m") auto
  then have "written body i j n" "list_all2 (written body i) [Suc j..<m] ns" using Cons.prems(1) by (simp_all add: upt_conv_Cons)
  then show ?case using hoare_then [OF insertStage_writes Cons.IH] \<open>j < m\<close> by simp
qed

lemma createInstance_writes:
  assumes inv: "wfInv p s" and run: "createInstance rq n s = Inr (x, s')" and i: "niId n = i" "niVersionId n = v"
  shows "writing p body i v 0 s'"
proof -
  define w where "w = \<lparr>wiId = niId n, wiDocumentId = niDocumentId n, wiRevisionId = niRevisionId n,
     wiDefinitionId = niDefinitionId n, wiVersionId = niVersionId n, wiState = InsRUNNING, wiStageIndex = -1,
     wiStartedAt = niStartedAt n, wiStartedBy = userId rq, wiEndedAt = None, wiEndReason = None,
     wiPausedAt = None, wiPauseReason = None, wiEscalations = 0, wiNumberAssigned = False, wiVersion = 1\<rparr>"
  have s': "s' = s\<lparr>instances := instances s @ [w]\<rparr>" and new: "\<forall>u \<in> set (instances s). wiId u \<noteq> wiId w"
    and lone: "\<forall>u \<in> set (instances s). \<not> (liveInstance u \<and> wiDocumentId u = wiDocumentId w)"
    using run by (simp_all add: createInstance_def bindT_Inr thenT_Inr w_def)
  have w: "wiId w = i" "wiVersionId w = v" "liveInstance w" "wiEndedAt w = None" using i by (simp_all add: w_def liveInstance_def)
  have sh: "rowShape (instances s) (stages s) (tasks s)" using inv by (simp add: wfInv_def shapely_def)
  have "uniqueWhere liveInstance wiDocumentId wiId (instances s @ [w])"
    by (rule uniqueWhere_append) (use sh lone in \<open>auto simp: rowShape_def\<close>)
  then have "rowShape (instances s @ [w]) (stages s) (tasks s)" using sh new w unfolding rowShape_def by (auto simp: endedInstance_iff)
  then have "okBut p i s'" using inv w by (auto simp: okBut_def wfInv_def shapely_def s')
  moreover have "\<forall>g \<in> set (stages s). wsInstance g \<noteq> i" using sh new w by (fastforce simp: rowShape_def)
  ultimately show ?thesis using w by (auto simp: writing_def s')
qed

lemma writing_starts:
  assumes "writing p body i v (length (dbStages body)) s" and "definitionFor p v = Some body"
  shows "okBut p i s" and "boundTo p i v (stages s)" and "inPhase i v (frontier i 0) s s"
proof -
  show "okBut p i s" using assms(1) by (simp add: writing_def)
  show "boundTo p i v (stages s)" using assms by (auto simp: writing_def boundTo_def)
  show "inPhase i v (frontier i 0) s s"
    using assms(1) by (auto simp: writing_def inPhase_def frontier_def okBut_def intro: within_refl)
qed

definition keepsVersions :: "wf_ports \<Rightarrow> bool" where
  "keepsVersions p \<longleftrightarrow> (\<forall>d v. wpPublished p d = Some v \<longrightarrow> wpVersionById p (vnId v) = Some v)"

lemma startApproval_keeps:
  assumes "definitionFor p (vnId v) = Some (vnBody v)"
  shows "preserves (wfInv p) (startApproval p rq d remark actor cx r df v)"
proof (rule preservesI)
  fix s :: "'a wf_state_scheme" and x s'
  let ?i = "mkId rq (serial s)"
  define rest :: "('a, ((ident \<times> document_status) \<times> timer_row list) \<times> change) wtx" where
    "rest = thenT (gateTransition rq d SUBMITTED ?i None None)
     (thenT (withNumbering p (\<lambda>n. bindT (reserveForSubmission n rq d ?i) (\<lambda>_. returnT ())))
     (thenT (case remark of None \<Rightarrow> returnT () | Some text \<Rightarrow> plainComment rq ?i d actor text)
     (thenT (publishT [Event ''workflow.started'' ?i
        [(''workflowInstanceId'', JStr ?i), (''documentId'', JStr d), (''revisionId'', JStr r),
         (''workflowVersionId'', JStr (vnId v))]])
     (bindT (requireAggregate ?i) (\<lambda>ag. bindT (advanceFrom p rq ag 0 cx (vnBody v) []) (\<lambda>(status, armed).
     returnT (((?i, status), armed), submitChange d status ?i v r)))))))"
  assume inv: "wfInv p s" and run: "startApproval p rq d remark actor cx r df v s = Inr (x, s')"
  obtain s1 s2 ns s3 s4 u1 u2 where first: "s1 = s\<lparr>serial := Suc (serial s)\<rparr>"
    and made: "createInstance rq \<lparr>niId = ?i, niDocumentId = d, niRevisionId = r,
        niDefinitionId = df, niVersionId = vnId v, niStartedAt = now rq\<rparr> s1 = Inr (u1, s2)"
    and drawn: "newStages rq ?i (vnBody v) s2 = Inr (ns, s3)" and put: "createStages ns s3 = Inr (u2, s4)"
    and go: "rest s4 = Inr (x, s')"
    using run by (simp only: startApproval_def bindT_Inr [of "nextId rq"] nextId_Inr)
      (simp only: bindT_Inr [of "newStages _ _ _"] thenT_Inr [of "createInstance _ _"] thenT_Inr [of "createStages _"] prod.inject
        rest_def, blast)
  have "wfInv p s1" using inv by (simp add: first wfInv_def shapely_def)
  then have "writing p (vnBody v) ?i (vnId v) 0 s2" by (rule createInstance_writes [OF _ made]) simp_all
  moreover have "wfTables s3 = wfTables s2" using leavesD [of wfTables, OF leaves_tables_readers(7) drawn] .
  ultimately have "writing p (vnBody v) ?i (vnId v) 0 s3" using writing_tables by blast
  from hoareD [OF createStages_writes [OF newStages_written [OF drawn]] this put]
  have done': "writing p (vnBody v) ?i (vnId v) (length (dbStages (vnBody v))) s4" by simp
  note start = writing_starts [OF done' assms]
  have "hoare (inPhase ?i (vnId v) (frontier ?i 0) s4) rest (\<lambda>_. finished p ?i s4)"
    unfolding withNumbering_def rest_def
    by (rule frame_then, intro leaves_intros, rule frame_then, intro leaves_intros, rule frame_then, intro leaves_intros,
        rule frame_then, intro leaves_intros leaves_log, rule hoare_bind [OF requireAggregate_ordered [OF start(2) assms]],
        rule hoare_conj_pre, rule hoare_bind [OF advanceFrom_finishes [OF start(2) assms]])
      (auto intro!: hoare_prod hoare_return)
  then have "finished p ?i s4 s'" using start(3) go unfolding hoare_def by blast
  then show "wfInv p s'" by (rule wfInv_finished [OF start(1)])
qed

lemma submit_keeps:
  assumes "keepsVersions p"
  shows "preserves (wfInv p) (submit p rq d remark)"
proof -
  have go: "preserves (wfInv p) (case wpPublished p df of None \<Rightarrow> throwT e
      | Some v \<Rightarrow> thenT (requireT (appliesTo (vnBody v) cx) e') (startApproval p rq d remark actor cx r df v))" for df e e' cx actor r
  proof (cases "wpPublished p df")
    case (Some v)
    then have "definitionFor p (vnId v) = Some (vnBody v)" using assms by (simp add: keepsVersions_def definitionFor_def)
    then show ?thesis using Some by (simp, intro preserves_then preserves_basic startApproval_keeps)
  qed (simp add: preserves_basic)
  show ?thesis
    unfolding submit_def
    by (intro go preserves_bind write_keeps preserves_then preserves_basic preserves_prod leaves_keeps
        leaves_intros preserves_option)
qed

subsection \<open>Reachable states\<close>

text \<open>
  One committed request to the engine, a timer the worker hands it, a recovery pass, or a transaction of another
  module, which leaves the approval tables alone.
\<close>

inductive engine_step :: "wf_ports \<Rightarrow> 'z wf_state_scheme \<Rightarrow> 'z wf_state_scheme \<Rightarrow> bool" for p where
  submission: "submit p rq d remark s = Inr (x, s') \<Longrightarrow> engine_step p s s'"
| decision: "decide p rq t k remark s = Inr (x, s') \<Longrightarrow> engine_step p s s'"
| withdrawal: "withdraw p rq d remark s = Inr (x, s') \<Longrightarrow> engine_step p s s'"
| cancellation: "cancelApproval p rq i why remark s = Inr (x, s') \<Longrightarrow> engine_step p s s'"
| pausing: "pauseApproval rq i why remark s = Inr (x, s') \<Longrightarrow> engine_step p s s'"
| resumption: "resumeApproval rq i s = Inr (x, s') \<Longrightarrow> engine_step p s s'"
| remark: "commentOn p rq i b s = Inr (x, s') \<Longrightarrow> engine_step p s s'"
| firing: "onTimerFired p rq j s = Inr (x, s') \<Longrightarrow> engine_step p s s'"
| recovery: "recoverTenant rq fuel s = Some (n, s') \<Longrightarrow> engine_step p s s'"
| elsewhere: "wfTables s' = wfTables s \<Longrightarrow> engine_step p s s'"

lemma recoverPages_tables: "recoverPages rq fuel page a s = Some (n, s') \<Longrightarrow> wfTables s' = wfTables s"
proof (induction rq fuel page a s arbitrary: n s' rule: recoverPages.induct)
  case (2 rq fuel page a s)
  let ?ts = "listArmableTimers a page s"
  have "leaves wfTables (rearm rq ?ts)" unfolding rearm_def enqueueOne_def by (intro leaves_intros)
  then have arm: "wfTables s1 = wfTables s" if "rearm rq ?ts s = Inr (m, s1)" for m s1 using that unfolding leaves_def by blast
  show ?case using 2 arm by (auto simp: Let_def split: if_splits sum.splits)
qed simp

definition engine_start :: "'z wf_state_scheme \<Rightarrow> bool" where
  "engine_start s \<longleftrightarrow> instances s = [] \<and> stages s = [] \<and> tasks s = []"

definition versioned_step :: "wf_ports \<Rightarrow> 'z wf_state_scheme \<Rightarrow> 'z wf_state_scheme \<Rightarrow> bool" where
  "versioned_step p s s' \<longleftrightarrow> keepsVersions p \<and> engine_step p s s'"

lemmas engine_keeps = decide_keeps withdraw_keeps cancelApproval_keeps hold_keeps commentOn_keeps onTimerFired_keeps

lemma wfInv_tables: "wfTables s' = wfTables s \<Longrightarrow> wfInv p s' = wfInv p s"
  by (simp add: wfInv_def shapely_def wfTables_def)

interpretation approvals: transactional engine_start "versioned_step p" "wfInv p" for p
proof
  show "engine_start s \<Longrightarrow> wfInv p s" for s :: "'a wf_state_scheme"
    by (simp add: engine_start_def wfInv_def shapely_def rowShape_def uniqueWhere_def)
  show "wfInv p s'" if inv: "wfInv p s" and step: "versioned_step p s s'" for s s' :: "'a wf_state_scheme"
    using step [unfolded versioned_step_def, THEN conjunct2]
  proof (cases rule: engine_step.cases)
    case (submission rq d remark x)
    then show ?thesis using preservesD [OF submit_keeps inv] step by (simp add: versioned_step_def)
  next
    case (recovery rq fuel n)
    then have "wfTables s' = wfTables s" unfolding recoverTenant_def by (rule recoverPages_tables)
    then show ?thesis using inv wfInv_tables by blast
  next
    case elsewhere
    then show ?thesis using inv wfInv_tables by blast
  qed (use inv in \<open>blast intro: preservesD [OF engine_keeps(1)] preservesD [OF engine_keeps(2)] preservesD [OF engine_keeps(3)]
        preservesD [OF engine_keeps(4)] preservesD [OF engine_keeps(5)] preservesD [OF engine_keeps(6)] preservesD [OF engine_keeps(7)]\<close>)+
qed

lemma reached_invariant:
  assumes "keepsVersions p" and "engine_start s0" and "(engine_step p)\<^sup>*\<^sup>* s0 s"
  shows "wfInv p (s :: 'z wf_state_scheme)"
proof (rule approvals.reachable_keeps [OF assms(2)])
  have "versioned_step p = (engine_step p :: 'z wf_state_scheme \<Rightarrow> 'z wf_state_scheme \<Rightarrow> bool)" using assms(1) by (intro ext) (simp add: versioned_step_def)
  then show "(versioned_step p)\<^sup>*\<^sup>* s0 s" using assms(3) by simp
qed

end
