(* ===== verification/Workflow_Properties.thy ===== *)
theory Workflow_Properties
  imports Workflow_Reach Document_System
begin

text \<open>
  What an approval can be relied on for: what a completed one proves, where a live one stands, that a decision is
  final, when it can be withdrawn, what a pause keeps of a deadline, and the three places where the engine cannot
  go on.
\<close>

subsection \<open>Decisions are final\<close>

definition kept :: "task_row \<Rightarrow> 'z wf_state_scheme \<Rightarrow> bool" where
  "kept k s \<longleftrightarrow> k \<in> set (tasks s)"

lemma leaves_kept: "leaves wfTables m \<Longrightarrow> preserves (kept k) m"
  by (auto intro!: preservesI dest!: leavesD simp: kept_def wfTables_def)

lemma write_kept: "preserves (kept k) m \<Longrightarrow> preserves (kept k) (writeT rq m)"
  by (rule preserves_write) (simp_all add: kept_def)

lemma kept_primitives:
  "preserves (kept k) (updateStages P f)" "preserves (kept k) (updateInstances R h)" "preserves (kept k) (createInstance rq n)"
  "preserves (kept k) (insertStage g)" "preserves (kept k) (insertTask w t)" "preserves (kept k) (setPaused i b why w)"
  "preserves (kept k) (recordEscalation i)"
  unfolding updateStages_def updateInstances_def createInstance_def insertStage_def insertTask_def setPaused_def
    recordEscalation_def
  by (auto intro!: preservesI simp: kept_def bindT_Inr thenT_Inr updateInstances_def split: option.splits)

lemma kept_updated: "\<lbrakk>kept k s; \<not> P k\<rbrakk> \<Longrightarrow> kept k (s\<lparr>tasks := updateWhere P f (tasks s)\<rparr>)"
  by (auto simp: kept_def updateWhere_def intro: rev_image_eqI)

lemma kept_decisions:
  assumes "taDecision k \<noteq> None"
  shows "preserves (kept k) (decideIfPending d)" and "preserves (kept k) (closePendingTasks g ph)"
  unfolding decideIfPending_def closePendingTasks_def
  by (auto intro!: preservesI kept_updated simp: bindT_Inr thenT_Inr Let_def assms)

lemma preserves_overdue:
  "\<lbrakk>preserves I a; \<And>t b. preserves I (e t b); preserves I c; preserves I d\<rbrakk> \<Longrightarrow>
   preserves I (case v of NotifyOnly \<Rightarrow> a | Escalate t b \<Rightarrow> e t b | AutoApprove \<Rightarrow> c | TerminateOverdue \<Rightarrow> d)"
  by (cases v) auto

lemmas preserves_control = preserves_bind preserves_then preserves_if preserves_option preserves_prod preserves_let
  preserves_forEach preserves_read preserves_overdue write_kept preserves_basic

lemma leaves_tables_log:
  "leaves wfTables (publishT es)" "leaves wfTables (recordChange rq c)" "leaves wfTables (nextId rq)"
  by (intro leaves_log leaves_recordChange; simp)+

lemma leaves_tables_authorise: "leaves wfTables (authoriseDecision p rq actor task d)"
  by (rule leaves_authorise)

lemmas kept_frames = leaves_tables_numbering [THEN leaves_kept] leaves_tables_docs [THEN leaves_kept]
  leaves_tables_timers [THEN leaves_kept] leaves_tables_queue [THEN leaves_kept] leaves_tables_readers [THEN leaves_kept]
  leaves_tables_log [THEN leaves_kept] leaves_tables_authorise [THEN leaves_kept]

lemmas kept_rules = kept_primitives kept_decisions kept_frames preserves_control

lemma kept_ends:
  assumes "taDecision k \<noteq> None"
  shows "preserves (kept k) (endWithin p rq ag why to)" and "preserves (kept k) (refuseApproval p rq ag g r)"
    and "preserves (kept k) (completeApproval p rq ag body)"
  unfolding endWithin_def refuseApproval_def completeApproval_def cancelRemainingStages_def endInstance_def completeStage_def
    withNumbering_def
  by (intro kept_rules assms)+

lemma kept_opens:
  assumes "taDecision k \<noteq> None"
  shows "preserves (kept k) (activate p rq ag n g d cx prev)" and "preserves (kept k) (recordDecision rq ag g t a dl dc c)"
    and "preserves (kept k) (escalate p rq ag g au ks)"
  unfolding activate_def recordDecision_def escalate_def escalateTo_def activateStage_def moveToStage_def createTasks_def
    Let_def
  by (intro kept_rules assms)+

lemma kept_advance:
  assumes "taDecision k \<noteq> None"
  shows "preserves (kept k) (advance p rq ag cx body prev n gs)"
proof (induction gs arbitrary: n)
  case Nil
  show ?case using kept_ends [OF assms] by (simp, intro preserves_then preserves_basic)
next
  case (Cons g gs)
  have "preserves (kept k) (skipStage (wsId g) why w)" for why w unfolding skipStage_def by (rule kept_primitives)
  then show ?case using Cons.IH kept_ends [OF assms] kept_opens [OF assms]
    by (simp add: Let_def, intro conjI impI preserves_then preserves_bind preserves_basic)
qed

lemma kept_settle:
  assumes "taDecision k \<noteq> None"
  shows "preserves (kept k) (settleStage p rq ag g)"
  unfolding settleStage_def settleApproved_def advanceFrom_def completeStage_def
  by (intro kept_rules kept_advance kept_ends assms)

lemma kept_operations:
  assumes "taDecision k \<noteq> None"
  shows "preserves (kept k) (submit p rq d remark)" and "preserves (kept k) (decide p rq t dc remark)"
    and "preserves (kept k) (endApproval p rq i why remark to)" and "preserves (kept k) (pauseApproval rq i why remark)"
    and "preserves (kept k) (resumeApproval rq i)" and "preserves (kept k) (onTimerFired p rq j)"
  unfolding submit_def startApproval_def createStages_def withNumbering_def advanceFrom_def decide_def decideLoaded_def
    endApproval_def pauseApproval_def resumeApproval_def onTimerFired_def fireLoaded_def onOverdue_def
    Let_def
  by (intro kept_rules kept_advance kept_settle kept_ends kept_opens assms)+

lemma kept_step:
  assumes "engine_step p s s'" and "taDecision k \<noteq> None" and "kept k s"
  shows "kept k s'"
proof -
  note ops = kept_operations [OF assms(2)]
  have closing: "preserves (kept k) (withdraw p rq d remark)" "preserves (kept k) (cancelApproval p rq i why remark)"
    "preserves (kept k) (commentOn p rq i b)" for rq d remark i why b
    unfolding withdraw_def cancelApproval_def commentOn_def changeT_def by (intro kept_rules ops)+
  show ?thesis using assms(1)
  proof (cases rule: engine_step.cases)
    case (recovery rq fuel n)
    then have "wfTables s' = wfTables s" unfolding recoverTenant_def by (rule recoverPages_tables)
    then show ?thesis using assms(3) by (simp add: kept_def wfTables_def)
  next
    case elsewhere
    then show ?thesis using assms(3) by (simp add: kept_def wfTables_def)
  qed (use assms(3) in \<open>blast intro: preservesD [OF ops(1)] preservesD [OF ops(2)] preservesD [OF ops(4)] preservesD [OF ops(5)]
      preservesD [OF ops(6)] preservesD [OF closing(1)] preservesD [OF closing(2)] preservesD [OF closing(3)]\<close>)+
qed

text \<open>
  C5: a decision is final. Whatever the engine does afterwards (later decisions, the timer that approves on its
  own, escalation, withdrawal, the end of the approval), the row of a task somebody has decided stays in the
  table exactly as the decision wrote it: who decided, what, when, on whose behalf.
\<close>
theorem decision_is_final:
  assumes "(engine_step p)\<^sup>*\<^sup>* s s'" and "k \<in> set (tasks s)" and "taDecision k \<noteq> None"
  shows "k \<in> set (tasks s')"
proof -
  have "kept k s'" using assms(1)
  proof (induction rule: rtranclp_induct)
    case base
    then show ?case using assms(2) by (simp add: kept_def)
  next
    case (step y z)
    then show ?case using kept_step [OF step(2) assms(3)] by blast
  qed
  then show ?thesis by (simp add: kept_def)
qed

subsection \<open>A sample approval\<close>

text \<open>
  A concrete approval for the witnesses: a draft of ana's under a workflow of two stages. The first asks bo; the
  second applies to restricted documents only, and this one is not.
\<close>

definition reviewStage :: stage_def where
  "reviewStage = \<lparr>sdName = ''Review'', sdParticipants = [ByUSER ''bo''], sdRule = RuleALL, sdThreshold = None,
     sdOrdered = False, sdCondition = None, sdDeadline = None, sdReminders = [], sdOnOverdue = NotifyOnly,
     sdOnReject = RETURN_TO_AUTHOR, sdMaxEscalations = 1\<rparr>"

definition scopedStage :: stage_def where
  "scopedStage = reviewStage\<lparr>sdName := ''Security'',
     sdCondition := Some \<lparr>cdField = ''confidentiality.rank'', cdOp = GREATER_OR_EQUAL, cdValue = FNum 3\<rparr>\<rparr>"

definition sampleVersion :: "stage_def list \<Rightarrow> workflow_version" where
  "sampleVersion gs = \<lparr>vnId = ''v'', vnVersion = 1,
     vnBody = \<lparr>dbTypes = [], dbCondition = None, dbStages = gs, dbAssignNumber = False\<rparr>\<rparr>"

definition approvalPorts :: "stage_def list \<Rightarrow> wf_ports" where
  "approvalPorts gs = \<lparr>
     wpContext = \<lparr>cpType = (\<lambda>_. Some (''SOP'', Some ''f'')), cpRank = (\<lambda>_. Some 1), cpCategoryCode = (\<lambda>_. None),
       cpFolderOwner = (\<lambda>_. None), cpScopeChain = (\<lambda>_ _. []), cpMetadata = (\<lambda>_. []), cpCreatedBy = (\<lambda>_. Some ''ana'')\<rparr>,
     wpDirectory = \<lparr>holdersOfRole = (\<lambda>_ _. []), membersOfDepartment = (\<lambda>_ _. []), managersOfUser = (\<lambda>_. []),
       membersOfGroup = (\<lambda>_. []), activeAmong = (\<lambda>us. us)\<rparr>,
     wpCalendar = (\<lambda>_. \<lparr>weekendDays = [], holidays = [], timeZone = (\<lambda>_. 0)\<rparr>),
     wpPublished = (\<lambda>d. if d = ''f'' then Some (sampleVersion gs) else None),
     wpVersionById = (\<lambda>i. if i = ''v'' then Some (sampleVersion gs) else None),
     wpNumbering = None, wpAuthority = None, wpMayView = (\<lambda>_ _. True)\<rparr>"

definition approvalStart :: wf_state where
  "approvalStart = \<lparr>trail = [], outbox = [], invalidations = 0, serial = 0,
     docs = [\<lparr>dId = ''d'', dFolderId = ''qa'', dDocumentTypeId = ''sop'', dCategoryId = None,
       dConfidentialityId = ''open'', dRetentionPolicyId = None, dTitle = ''Procedure'', dDescription = None,
       dOrigin = ''UPLOAD'', dOwnerUserId = ''ana'', dStatus = DRAFT, dDocumentNumber = None,
       dLatestRevisionId = Some ''r'', dCurrentRevisionId = None, dMetadata = [], dVersion = 1, dDeletedAt = None,
       dDeleteReason = None, dDeleteCascadeId = None\<rparr>],
     revs = [], locks = [], files = [], retentionCalls = [], sequences = [], reservations = [], instances = [], stages = [],
     tasks = [], timers = [], comments = [], queueCalls = []\<rparr>"

definition asUser :: "ident \<Rightarrow> request" where
  "asUser u = sampleRequest\<lparr>userId := Some u\<rparr>"

definition approvalOpen :: wf_state where
  "approvalOpen = exec (submit (approvalPorts [reviewStage, scopedStage]) (asUser ''ana'') ''d'' None) approvalStart"

definition approvalDone :: wf_state where
  "approvalDone = exec (decide (approvalPorts [reviewStage, scopedStage]) (asUser ''bo'') ''kiii'' DecAPPROVED None) approvalOpen"

abbreviation twoStages :: wf_ports where
  "twoStages \<equiv> approvalPorts [reviewStage, scopedStage]"

lemma exec_engine:
  "(engine_step p)\<^sup>*\<^sup>* r s \<Longrightarrow> (\<And>x s'. m s = Inr (x, s') \<Longrightarrow> engine_step p s s') \<Longrightarrow> (engine_step p)\<^sup>*\<^sup>* r (exec m s)"
  by (cases "m s") (auto simp: exec_def runTx_def)

lemma approvalOpen_reached: "(engine_step twoStages)\<^sup>*\<^sup>* approvalStart approvalOpen"
  unfolding approvalOpen_def by (rule exec_engine) (auto intro: engine_step.submission)

lemma approvalDone_reached: "(engine_step twoStages)\<^sup>*\<^sup>* approvalStart approvalDone"
  unfolding approvalDone_def by (rule exec_engine [OF approvalOpen_reached]) (rule engine_step.decision)

lemma approvalStart_start: "engine_start approvalStart"
  by (simp add: engine_start_def approvalStart_def)

lemma approvalPorts_keep: "keepsVersions (approvalPorts gs)"
  by (simp add: keepsVersions_def approvalPorts_def sampleVersion_def)

lemma approvalDone_row:
  "map wiState (instances approvalDone) = [InsCOMPLETED]" "map wiVersionId (instances approvalDone) = [''v'']"
  by code_simp+

lemma approvalOpen_row: "map wiState (instances approvalOpen) = [InsRUNNING]"
  by code_simp

lemma approvalOpen_decided:
  "map taDecision (tasks approvalOpen) = [None]" "map taDecision (tasks approvalDone) = [Some DecAPPROVED]"
  by code_simp+

theorem decision_is_final_witness:
  "\<exists>k. k \<in> set (tasks approvalDone) \<and> taDecision k = Some DecAPPROVED \<and>
     k \<in> set (tasks (exec (cancelApproval twoStages (asUser ''ana'') ''k'' ''ADMINISTRATIVE'' None) approvalDone))"
proof -
  let ?s = "exec (cancelApproval twoStages (asUser ''ana'') ''k'' ''ADMINISTRATIVE'' None) approvalDone"
  obtain k where k: "k \<in> set (tasks approvalDone)" "taDecision k = Some DecAPPROVED"
    using approvalOpen_decided(2) by (auto simp: map_eq_Cons_conv)
  have "(engine_step twoStages)\<^sup>*\<^sup>* approvalDone ?s"
    by (rule exec_engine [OF rtranclp.rtrancl_refl]) (rule engine_step.cancellation)
  from decision_is_final [OF this k(1)] k show ?thesis by auto
qed

subsection \<open>What a completed approval proves\<close>

definition approvedUnder :: "stage_def \<Rightarrow> task_row list \<Rightarrow> bool" where
  "approvedUnder d ks \<longleftrightarrow>
     (let rule = \<lparr>srRule = sdRule d, srThreshold = sdThreshold d\<rparr> in
      ks \<noteq> [] \<and> (\<forall>k \<in> set ks. taState k \<noteq> TaskPENDING \<and> taDecision k \<noteq> Some DecREJECTED \<and> taDecision k \<noteq> Some DecCHANGES) \<and>
      approvalsRequired rule (populationOf rule ks) \<le> countTasks (\<lambda>k. taDecision k = Some DecAPPROVED) ks)"

lemma settled_approved:
  assumes "settled g ks" and "wsRule g = sdRule d" and "wsThreshold g = sdThreshold d"
  shows "approvedUnder d (tasksOf ks (wsId g))"
  using assms unfolding settled_def evaluateStage_approved_iff approvedUnder_def stageRule_def find_None_iff_all
  by (simp add: Let_def)

text \<open>
  C4: a completed approval was approved. In every state the engine reaches, an instance that is COMPLETED has a row
  for each stage of the version it is bound to, and each of them was either scoped away by its condition or is
  completed with at least as many approvals as the rule and threshold the version gives it require, nobody having
  refused or asked for changes and nobody still being asked.
\<close>
theorem completed_was_approved:
  assumes "keepsVersions p" and "engine_start s0" and "(engine_step p)\<^sup>*\<^sup>* s0 s"
    and "w \<in> set (instances s)" and "wiState w = InsCOMPLETED"
  shows "\<exists>body. definitionFor p (wiVersionId w) = Some body \<and>
    (\<forall>j < length (dbStages body). \<exists>g \<in> set (stages s). wsInstance g = wiId w \<and> wsIndex g = j \<and>
       (wsState g = StgSKIPPED \<or> wsState g = StgCOMPLETED \<and> approvedUnder (dbStages body ! j) (tasksOf (tasks s) (wsId g))))"
proof -
  have "instanceOk p (stages s) (tasks s) w" using reached_invariant [OF assms(1,2,3)] assms(4) by (simp add: wfInv_def)
  then have bound: "boundTo p (wiId w) (wiVersionId w) (stages s)"
    and all: "\<forall>g \<in> set (stages s). wsInstance g = wiId w \<longrightarrow> passed g (tasks s)" using assms(5) by (simp_all add: instanceOk_def)
  obtain body where body: "definitionFor p (wiVersionId w) = Some body"
    and idx: "wsIndex ` {g \<in> set (stages s). wsInstance g = wiId w} = {..<length (dbStages body)}"
    and rules: "\<forall>g \<in> set (stages s). wsInstance g = wiId w \<longrightarrow>
       wsRule g = sdRule (dbStages body ! wsIndex g) \<and> wsThreshold g = sdThreshold (dbStages body ! wsIndex g)"
    using bound by (auto simp: boundTo_def split: option.splits)
  have "\<exists>g \<in> set (stages s). wsInstance g = wiId w \<and> wsIndex g = j \<and>
       (wsState g = StgSKIPPED \<or> wsState g = StgCOMPLETED \<and> approvedUnder (dbStages body ! j) (tasksOf (tasks s) (wsId g)))"
    if "j < length (dbStages body)" for j
  proof -
    have "j \<in> wsIndex ` {g \<in> set (stages s). wsInstance g = wiId w}" using that idx by simp
    then obtain g where g: "g \<in> set (stages s)" "wsInstance g = wiId w" "wsIndex g = j" by auto
    then have "passed g (tasks s)" "wsRule g = sdRule (dbStages body ! j)" "wsThreshold g = sdThreshold (dbStages body ! j)"
      using all rules by auto
    then show ?thesis using g settled_approved [of g "tasks s" "dbStages body ! j"] by (auto simp: passed_def)
  qed
  then show ?thesis using body by blast
qed

theorem completed_was_approved_witness:
  "\<exists>g. g \<in> set (stages approvalDone) \<and> wsIndex g = 0 \<and>
     (wsState g = StgSKIPPED \<or> wsState g = StgCOMPLETED \<and> approvedUnder reviewStage (tasksOf (tasks approvalDone) (wsId g)))"
proof -
  obtain w where w: "w \<in> set (instances approvalDone)" "wiState w = InsCOMPLETED" "wiVersionId w = ''v''"
    using approvalDone_row by (auto simp: map_eq_Cons_conv)
  have "definitionFor twoStages ''v'' = Some (vnBody (sampleVersion [reviewStage, scopedStage]))"
    by (simp add: definitionFor_def approvalPorts_def)
  then show ?thesis
    using completed_was_approved [OF approvalPorts_keep approvalStart_start approvalDone_reached w(1,2)] w(3)
    by (fastforce simp: sampleVersion_def)
qed

text \<open>
  C6: a document has at most one live approval, and a live approval stands at exactly one active stage: every
  earlier stage is skipped or completed, every later one has not begun, and nobody is asked to decide anywhere
  else.
\<close>
theorem live_approval_stands_at_one_stage:
  assumes "keepsVersions p" and "engine_start s0" and "(engine_step p)\<^sup>*\<^sup>* s0 s"
    and "w \<in> set (instances s)" and "liveInstance w"
  shows "(\<forall>u \<in> set (instances s). liveInstance u \<and> wiDocumentId u = wiDocumentId w \<longrightarrow> u = w) \<and>
    (\<exists>g \<in> set (stages s). wsInstance g = wiId w \<and> wsState g = StgACTIVE \<and>
       (\<forall>h \<in> set (stages s). wsInstance h = wiId w \<longrightarrow>
          (wsIndex h < wsIndex g \<longrightarrow> wsState h = StgSKIPPED \<or> wsState h = StgCOMPLETED) \<and>
          (wsIndex g < wsIndex h \<longrightarrow> wsState h = StgPENDING) \<and> (wsIndex h = wsIndex g \<longrightarrow> h = g)) \<and>
       (\<forall>k \<in> set (tasks s). tkInstance k = wiId w \<and> taState k = TaskPENDING \<longrightarrow> tkStage k = wsId g))"
proof -
  have inv: "wfInv p s" by (rule reached_invariant [OF assms(1,2,3)])
  then have sh: "rowShape (instances s) (stages s) (tasks s)" and ok: "instanceOk p (stages s) (tasks s) w"
    using assms(4) by (simp_all add: wfInv_def shapely_def)
  obtain n where rest: "atRest (wiId w) n (stages s) (tasks s)" using ok assms(5) by (auto simp: instanceOk_def)
  then have mid: "mid (wiId w) n (stages s) (tasks s)" by (simp add: atRest_def)
  obtain g where g: "g \<in> set (stages s)" "wsInstance g = wiId w" "wsIndex g = n" "wsState g = StgACTIVE"
    using rest by (auto simp: atRest_def)
  then have at: "stageAt (wiId w) n (wsId g) (stages s)" by (auto simp: stageAt_def)
  have one: "u = w" if "u \<in> set (instances s)" "liveInstance u" "wiDocumentId u = wiDocumentId w" for u
    using sh that assms(4,5) uniqueWhereD [of liveInstance wiDocumentId wiId "instances s" u w]
      distinct_map_eq [of wiId "instances s" u w] by (simp add: rowShape_def)
  have own: "h = g" if "h \<in> set (stages s)" "wsInstance h = wiId w" "wsIndex h = wsIndex g" for h
    using stageAt_id [OF sh at that(1)] that g sh distinct_map_eq [of wsId "stages s" h g] by (simp add: rowShape_def)
  have asked: "tkStage k = wsId g" if "k \<in> set (tasks s)" "tkInstance k = wiId w" "taState k = TaskPENDING" for k
    using pending_task_at_rest [OF sh mid that] stageAt_id [OF sh at] unfolding stageAt_def by metis
  have around: "(wsIndex h < wsIndex g \<longrightarrow> wsState h = StgSKIPPED \<or> wsState h = StgCOMPLETED) \<and>
      (wsIndex g < wsIndex h \<longrightarrow> wsState h = StgPENDING)" if "h \<in> set (stages s)" "wsInstance h = wiId w" for h
    using mid that unfolding mid_def g(3) passed_def untouched_def by blast
  show ?thesis using one own asked around g(1,2,4) by blast
qed

theorem live_approval_stands_at_one_stage_witness:
  "\<exists>w g. w \<in> set (instances approvalOpen) \<and> g \<in> set (stages approvalOpen) \<and> wsInstance g = wiId w \<and> wsState g = StgACTIVE"
proof -
  obtain w where w: "w \<in> set (instances approvalOpen)" "liveInstance w"
    using approvalOpen_row by (auto simp: map_eq_Cons_conv liveInstance_def)
  show ?thesis
    using live_approval_stands_at_one_stage [OF approvalPorts_keep approvalStart_start approvalOpen_reached w] w(1) by blast
qed

subsection \<open>Withdrawing\<close>

lemma loadLive_reload:
  assumes "distinct (map wiId (instances s))" and "loadLiveForDocument d s = Some ag"
  shows "loadAggregate (wiId (agInstance ag)) s = Some ag" and "liveInstance (agInstance ag)"
proof -
  obtain w where w: "List.find (\<lambda>w. wiDocumentId w = d \<and> liveInstance w) (instances s) = Some w" "ag = toAggregate s w"
    using assms(2) by (auto simp: loadLiveForDocument_def)
  then have mem: "w \<in> set (instances s)" "liveInstance w" using find_Some_mem [OF w(1)] by simp_all
  have "List.find (\<lambda>u. wiId u = wiId w) (instances s) = Some w"
  proof (cases "List.find (\<lambda>u. wiId u = wiId w) (instances s)")
    case (Some u)
    then show ?thesis using find_Some_mem [OF Some] distinct_map_eq [OF assms(1), of u w] mem by simp
  qed (use mem in \<open>auto simp: find_None_iff_all\<close>)
  then show "loadAggregate (wiId (agInstance ag)) s = Some ag" "liveInstance (agInstance ag)"
    using w mem by (simp_all add: loadAggregate_def toAggregate_def)
qed

text \<open>
  C36: once anybody has decided, a submission cannot be withdrawn. The owner or author of a document whose live
  approval has a decided task is refused with the error that says so, and nothing changes.
\<close>
theorem withdraw_refused_once_decided:
  assumes "tenantStatus rq = None \<or> tenantStatus rq = Some ACTIVE" and "userId rq = Some u"
    and "contextForDocument p d s = Some c" and "cxOwnerUserId c = u \<or> cxAuthorUserId c = Some u"
    and "distinct (map wiId (instances s))" and "loadLiveForDocument d s = Some ag"
    and "k \<in> set (agTasks ag)" and "taDecision k \<noteq> None"
  shows "runTx (withdraw p rq d remark) s
    = (Inl (ValidationError ''Somebody has already decided; this can no longer be withdrawn.'' [(''tasks'', ''decided'')]), s)"
proof -
  note again = loadLive_reload [OF assms(5,6)]
  have held: "lockInstance (wiId (agInstance ag)) s"
    using again(1) by (auto simp: lockInstance_def loadAggregate_def)
  have decided: "list_ex (\<lambda>k. \<exists>y. taDecision k = Some y) (agTasks ag)" using assms(7,8) by (auto simp: list_ex_iff)
  have "withdraw p rq d remark s
    = Inl (ValidationError ''Somebody has already decided; this can no longer be withdrawn.'' [(''tasks'', ''decided'')])"
    using assms(1-4,6) again held decided
    by (auto simp: withdraw_def endApproval_def writeT_def refuseWhenReadOnly_def lockApproval_def requireAggregate_def
        requireApprover_def requireUser_def tx_defs readT_def liveInstance_def)
  then show ?thesis by (simp add: runTx_def)
qed

subsection \<open>Holding\<close>

text \<open>
  C37: a pause stops the clock. Holding an approval and resuming it later arms every timer that was scheduled again,
  due exactly the time it still had when it was held, counted from the moment of resumption; the queue is
  asked for that delay.
\<close>
theorem pause_keeps_time_left:
  assumes "pauseApproval rq i why remark s = Inr (x, s1)" and "resumeApproval rq' i s1 = Inr (y, s2)"
    and "t \<in> set (timers s)" and "tmInstance t = i" and "tmState t = TimSCHEDULED"
  shows "t\<lparr>tmFireAt := now rq' + max 0 (tmFireAt t - now rq), tmRemaining := None\<rparr> \<in> set (timers s2) \<and>
    EnqueueJob (tmJobId t) (max 0 (tmFireAt t - now rq)) \<in> set (queueCalls s2)"
proof -
  let ?held = "t\<lparr>tmState := TimPAUSED, tmRemaining := Some (remainingAt (now rq) t)\<rparr>"
  let ?again = "t\<lparr>tmFireAt := now rq' + max 0 (tmFireAt t - now rq), tmRemaining := None\<rparr>"
  obtain ins ts sb where pause: "pauseTimers i (now rq) (s\<lparr>instances := ins\<rparr>) = Inr (ts, sb)"
    and s1: "timers s1 = timers sb"
    using assms(1) by (auto simp: pauseApproval_def writeT_Inr thenT_Inr bindT_Inr lockApproval_def requireAggregate_def
        setPaused_def updateInstances_def pauseInstanceTimers_def dest!: dropJobs_calls split: option.splits)
  have "?held \<in> set (timers s1)"
    using assms(3,4,5) pause unfolding s1 pauseTimers_Inr by (auto simp: updateWhere_def intro!: rev_image_eqI [of t])
  moreover obtain ins' us sd where resume: "resumeTimers i (now rq') (s1\<lparr>instances := ins'\<rparr>) = Inr (us, sd)"
    and s2: "timers s2 = timers sd" "queueCalls s2 = queueCalls sd @ armCalls rq' us"
    using assms(2) by (auto simp: resumeApproval_def writeT_Inr thenT_Inr bindT_Inr lockApproval_def requireAggregate_def
        setPaused_def updateInstances_def resumeInstanceTimers_def enqueue_only_calls split: option.splits)
  have rearmed: "resumedTimer (now rq') ?held = ?again" using assms(5) by (simp add: resumedTimer_def remainingAt_def)
  ultimately have "?held \<in> set (filter (\<lambda>t. tmInstance t = i \<and> tmState t = TimPAUSED) (timers s1))" using assms(4) by simp
  then have us: "?again \<in> set us" and sd: "?again \<in> set (timers sd)"
    using resume rearmed unfolding resumeTimers_Inr by (auto simp: updateWhere_def image_iff intro!: bexI [of _ ?held])
  have "EnqueueJob (tmJobId t) (max 0 (tmFireAt t - now rq)) \<in> set (armCalls rq' us)"
    using imageI [OF us, of "\<lambda>t. EnqueueJob (tmJobId t) (max 0 (tmFireAt t - now rq'))"] by (simp add: armCalls_def)
  then show ?thesis using s2 sd by simp
qed

definition heldApproval :: wf_state where
  "heldApproval = exec (pauseApproval sampleRequest ''w'' ''HOLIDAY'' None) (sampleApproval\<lparr>timers := [sampleTimer\<lparr>tmFireAt := 5000\<rparr>]\<rparr>)"

definition resumedApproval :: wf_state where
  "resumedApproval = exec (resumeApproval (sampleRequest\<lparr>now := 9000\<rparr>) ''w'') heldApproval"

lemma sample_hold_runs:
  "\<exists>x. pauseApproval sampleRequest ''w'' ''HOLIDAY'' None (sampleApproval\<lparr>timers := [sampleTimer\<lparr>tmFireAt := 5000\<rparr>]\<rparr>) = Inr (x, heldApproval)"
  "\<exists>x. resumeApproval (sampleRequest\<lparr>now := 9000\<rparr>) ''w'' heldApproval = Inr (x, resumedApproval)"
proof -
  have runs: "\<exists>x. m s = Inr (x, exec m s)" if "\<not> isl (m s)" for m :: "wf_state \<Rightarrow> (unit \<times> wf_state) result" and s
    using that by (cases "m s") (auto simp: exec_def runTx_def)
  have "\<not> isl (pauseApproval sampleRequest ''w'' ''HOLIDAY'' None (sampleApproval\<lparr>timers := [sampleTimer\<lparr>tmFireAt := 5000\<rparr>]\<rparr>))"
    by code_simp
  then show "\<exists>x. pauseApproval sampleRequest ''w'' ''HOLIDAY'' None (sampleApproval\<lparr>timers := [sampleTimer\<lparr>tmFireAt := 5000\<rparr>]\<rparr>) = Inr (x, heldApproval)"
    unfolding heldApproval_def by (rule runs)
  have "\<not> isl (resumeApproval (sampleRequest\<lparr>now := 9000\<rparr>) ''w'' heldApproval)" by code_simp
  then show "\<exists>x. resumeApproval (sampleRequest\<lparr>now := 9000\<rparr>) ''w'' heldApproval = Inr (x, resumedApproval)"
    unfolding resumedApproval_def by (rule runs)
qed

theorem pause_keeps_time_left_witness:
  "sampleTimer\<lparr>tmFireAt := 13000\<rparr> \<in> set (timers resumedApproval) \<and> EnqueueJob ''wf-timer:m'' 4000 \<in> set (queueCalls resumedApproval)"
proof -
  obtain x where pause: "pauseApproval sampleRequest ''w'' ''HOLIDAY'' None (sampleApproval\<lparr>timers := [sampleTimer\<lparr>tmFireAt := 5000\<rparr>]\<rparr>) = Inr (x, heldApproval)"
    using sample_hold_runs(1) by blast
  obtain y where resume: "resumeApproval (sampleRequest\<lparr>now := 9000\<rparr>) ''w'' heldApproval = Inr (y, resumedApproval)"
    using sample_hold_runs(2) by blast
  show ?thesis using pause_keeps_time_left [OF pause resume, of "sampleTimer\<lparr>tmFireAt := 5000\<rparr>"]
    by (simp add: sampleTimer_def sampleRequest_def)
qed

text \<open>
  C38: when an approval can be held. A running approval, asked for by a writable tenant, is held exactly when every
  timer it has scheduled is due within 2147483647 milliseconds; with a deadline further away than that (some
  twenty-five days) the request always fails.
\<close>
theorem pause_only_within_four_bytes:
  assumes "tenantStatus rq = None \<or> tenantStatus rq = Some ACTIVE" and "loadAggregate i s = Some ag"
    and "wiState (agInstance ag) = InsRUNNING" and "\<forall>w \<in> set (instances s). wiId w = i \<longrightarrow> wiEndedAt w = None"
  shows "(\<exists>r. pauseApproval rq i why remark s = Inr r) \<longleftrightarrow>
    (\<forall>t \<in> set (timers s). tmInstance t = i \<and> tmState t = TimSCHEDULED \<longrightarrow> tmFireAt t - now rq \<le> 2147483647)"
proof -
  have held: "lockInstance i s" using assms(2) by (auto simp: lockInstance_def loadAggregate_def)
  have jobs: "\<exists>u. dropJobs ts z = Inr u" for ts :: "timer_row list" and z :: "'a wf_state_scheme"
    by (induction ts arbitrary: z) (auto simp: dropJobs_def returnT_def thenT_def bindT_def callQueue_def modifyT_def)
  have fits: "remainingAt (now rq) t \<le> INT4_MAX \<longleftrightarrow> tmFireAt t - now rq \<le> 2147483647" for t
    by (simp add: remainingAt_def INT4_MAX_def)
  have "(\<exists>r. pauseInstanceTimers rq i z = Inr r) \<longleftrightarrow> (\<forall>t \<in> set (timers z). tmInstance t = i \<and> tmState t = TimSCHEDULED \<longrightarrow>
      tmFireAt t - now rq \<le> 2147483647)" for z :: "'a wf_state_scheme"
    using jobs unfolding pauseInstanceTimers_def fits [symmetric] by (simp add: bindT_Inr pauseTimers_Inr)
  then show ?thesis using assms held
    by (auto simp: pauseApproval_def writeT_def refuseWhenReadOnly_def thenT_Inr bindT_Inr lockApproval_def requireAggregate_def
        setPaused_def updateInstances_def recordChange_def)
qed

theorem pause_only_within_four_bytes_witness:
  "\<not> (\<exists>r. pauseApproval sampleRequest ''w'' ''HOLIDAY'' None (sampleApproval\<lparr>timers := [sampleTimer\<lparr>tmFireAt := 2592001000\<rparr>]\<rparr>) = Inr r)"
  using pause_only_within_four_bytes [of sampleRequest "''w''" "sampleApproval\<lparr>timers := [sampleTimer\<lparr>tmFireAt := 2592001000\<rparr>]\<rparr>" _ "''HOLIDAY''" None]
  by (simp add: loadAggregate_def toAggregate_def sampleApproval_def sampleTimer_def sampleInstance_def sampleRequest_def)

definition twoReviewers :: stage_def where
  "twoReviewers = reviewStage\<lparr>sdParticipants := [ByUSER ''bo'', ByUSER ''cy'']\<rparr>"

definition approvalHalf :: wf_state where
  "approvalHalf = exec (decide (approvalPorts [twoReviewers]) (asUser ''bo'') ''kii'' DecAPPROVED None)
     (exec (submit (approvalPorts [twoReviewers]) (asUser ''ana'') ''d'' None) approvalStart)"

lemma approvalHalf_facts:
  "distinct (map wiId (instances approvalHalf))"
  "map_option (\<lambda>ag. map taDecision (agTasks ag)) (loadLiveForDocument ''d'' approvalHalf) = Some [Some DecAPPROVED, None]"
  "map_option cxOwnerUserId (contextForDocument (approvalPorts [twoReviewers]) ''d'' approvalHalf) = Some ''ana''"
  by code_simp+

theorem withdraw_refused_once_decided_witness:
  "fst (runTx (withdraw (approvalPorts [twoReviewers]) (asUser ''ana'') ''d'' None) approvalHalf)
    = Inl (ValidationError ''Somebody has already decided; this can no longer be withdrawn.'' [(''tasks'', ''decided'')])"
proof -
  obtain ag where ag: "loadLiveForDocument ''d'' approvalHalf = Some ag" "map taDecision (agTasks ag) = [Some DecAPPROVED, None]"
    using approvalHalf_facts(2) by auto
  then have k: "hd (agTasks ag) \<in> set (agTasks ag)" "taDecision (hd (agTasks ag)) \<noteq> None" by (auto simp: map_eq_Cons_conv)
  obtain c where c: "contextForDocument (approvalPorts [twoReviewers]) ''d'' approvalHalf = Some c" "cxOwnerUserId c = ''ana''"
    using approvalHalf_facts(3) by auto
  show ?thesis
    using withdraw_refused_once_decided [OF _ _ c(1) _ approvalHalf_facts(1) ag(1) k, of "asUser ''ana''" "''ana''" None] c(2)
    by (simp add: asUser_def sampleRequest_def)
qed

subsection \<open>Escalation\<close>


definition openAggregate :: aggregate where
  "openAggregate = the (loadAggregate ''k'' approvalOpen)"

definition openStage :: stage_row where
  "openStage = hd (agStages openAggregate)"

lemma sample_escalation:
  "(case escalateTo twoStages (asUser ''ana'') openAggregate openStage (ByUSER ''bo'') False (agTasks openAggregate) approvalOpen of
      Inl _ \<Rightarrow> False | Inr (e, s') \<Rightarrow> esTo e = [] \<and> map wsState (stages s') = [StgACTIVE, StgPENDING])"
  by code_simp


subsection \<open>A submission never ends approved\<close>

definition statusOf :: "ident \<Rightarrow> 'z wf_state_scheme \<Rightarrow> document_status option" where
  "statusOf d s = map_option dStatus (List.find (\<lambda>x. dId x = d \<and> dDeletedAt x = None) (docs s))"

lemma statusOf_truncate: "statusOf d s = map_option dStatus (findById d False (doc_state.truncate s))"
  by (simp add: statusOf_def findById_def doc_state.defs)

lemma aside_status [simp]: "aside (statusOf d)"
  by (simp add: aside_def statusOf_def)

lemmas leaves_status_log = leaves_aside [OF aside_status]

lemma status_updates [simp]:
  "statusOf d (s\<lparr>sequences := a\<rparr>) = statusOf d s" "statusOf d (s\<lparr>reservations := b\<rparr>) = statusOf d s"
  "statusOf d (s\<lparr>instances := c\<rparr>) = statusOf d s" "statusOf d (s\<lparr>stages := e\<rparr>) = statusOf d s"
  "statusOf d (s\<lparr>timers := f\<rparr>) = statusOf d s" "statusOf d (s\<lparr>comments := g\<rparr>) = statusOf d s"
  "statusOf d (s\<lparr>queueCalls := h\<rparr>) = statusOf d s"
  by (simp_all add: statusOf_def)

lemma leaves_status_assign: "leaves (statusOf d) (onDocs (assignNumber i n))"
proof (rule leavesI)
  fix s :: "'a wf_state_scheme" and x s'
  assume "onDocs (assignNumber i n) s = Inr (x, s')"
  then obtain P where "docs s' = updateWhere P (\<lambda>d. d\<lparr>dDocumentNumber := Some n, dVersion := dVersion d + 1\<rparr>) (docs s)"
    by (auto simp: onDocs_Inr assignNumber_def bindT_Inr thenT_Inr Let_def doc_state.defs)
  then show "statusOf d s' = statusOf d s"
    unfolding statusOf_def by (simp add: find_updateWhere option.map_comp comp_def if_distrib cong: if_cong)
qed

lemma leaves_status_require: "leaves (statusOf d) (onDocs (requireDocument i b))"
  by (rule leavesI) simp

lemma leaves_status_numbers:
  "leaves (statusOf d) (reserveNumber c rq rule codes i w)" "leaves (statusOf d) (commitNumber rq r i)"
  "leaves (statusOf d) (reservationForInstance w)"
  unfolding reserveNumber_def commitNumber_def reservationForInstance_def draw_def claimNext_def
    upsertSequence_def insertReservation_def markAssigned_def claimReservation_def requireRule_def
  by (intro leaves_intros leaves_status_log; simp)+

lemma leaves_status_ports:
  "leaves (statusOf d) (reserveForSubmission n rq i w)" "leaves (statusOf d) (assignAtApproval n rq i w)"
  unfolding reserveForSubmission_def assignAtApproval_def writeNumber_def requireNumbering_def
  by (intro leaves_bind leaves_then leaves_if leaves_option leaves_basic leaves_status_assign leaves_status_require
      leaves_status_numbers leaves_status_log)+

lemma transition_status:
  assumes "applyLifecycleTransition rq inp s = Inr (b, s')"
  shows "map_option dStatus (findById (tDocumentId inp) False s') = Some (tTo inp)"
    and "\<exists>c. findById (tDocumentId inp) False s = Some c \<and> (dStatus c = tTo inp \<or> isLegalTransition (dStatus c) (tTo inp))"
proof -
  let ?i = "tDocumentId inp"
  obtain c e s1 where c: "findById ?i False s = Some c" and s': "docs s' = docs s1"
    and run: "(if dStatus c = tTo inp then returnT (False, transitioned inp (dStatus c) True)
       else thenT (requireT (isLegalTransition (dStatus c) (tTo inp))
                    (InvalidTransitionError (statusName (dStatus c)) (statusName (tTo inp))))
            (thenT (setStatus ?i (dVersion c) (tTo inp))
            (thenT (syncRevision c (tTo inp))
            (thenT (announce rq c inp)
            (returnT (True, transitioned inp (dStatus c) False)))))) s = Inr (e, s1)"
    using assms by (auto simp: applyLifecycleTransition_def writeT_Inr bindT_Inr requireDocument_found_iff)
  have i: "dId c = ?i" "dDeletedAt c = None" using find_Some_mem [OF c [unfolded findById_def]] by simp_all
  show "\<exists>c. findById ?i False s = Some c \<and> (dStatus c = tTo inp \<or> isLegalTransition (dStatus c) (tTo inp))"
    using c run by (auto simp: thenT_Inr split: if_splits)
  show "map_option dStatus (findById ?i False s') = Some (tTo inp)"
  proof (cases "dStatus c = tTo inp")
    case True
    then show ?thesis using c run s' by (simp add: findById_def)
  next
    case False
    let ?hit = "\<lambda>d. dId d = ?i \<and> dVersion d = dVersion c \<and> dDeletedAt d = None"
    let ?moved = "\<lambda>d. d\<lparr>dStatus := tTo inp, dVersion := dVersion c + 1\<rparr>"
    obtain s2 s3 s4 u1 u2 u3 where set: "setStatus ?i (dVersion c) (tTo inp) s = Inr (u1, s2)"
      and sync: "syncRevision c (tTo inp) s2 = Inr (u2, s3)" and say: "announce rq c inp s3 = Inr (u3, s4)" and s1: "s1 = s4"
      using run False by (auto simp: thenT_Inr)
    have "leaves docs (syncRevision c (tTo inp))" "leaves docs (announce rq c inp)" by (intro leaves_intros)+
    then have "docs s3 = docs s2" "docs s4 = docs s3" using sync say unfolding leaves_def by blast+
    then have "docs s' = updateWhere ?hit ?moved (docs s)"
      using set s' s1 by (auto simp: setStatus_def bindT_Inr thenT_Inr Let_def)
    then have "findById ?i False s' = map_option (\<lambda>x. if ?hit x then ?moved x else x) (findById ?i False s)"
      unfolding findById_def by (simp add: find_updateWhere)
    then show ?thesis using c i by simp
  qed
qed

lemma gate_status:
  assumes "gateTransition rq d to i why remark s = Inr (x, s')"
  shows "statusOf d s' = Some to" and "\<exists>st. statusOf d s = Some st \<and> (st = to \<or> isLegalTransition st to)"
proof -
  define inp where "inp = \<lparr>tDocumentId = d, tTo = to, tWorkflowInstanceId = Some i, tReason = why,
        tAuditAction = None, tAuditFacts = [], tAttestReason = False, tDecisionComment = remark\<rparr>"
  have inp: "tDocumentId inp = d" "tTo inp = to" by (simp_all add: inp_def)
  obtain b sd where run: "applyLifecycleTransition rq inp (doc_state.truncate s) = Inr (b, sd)"
    and s': "s' = doc_state.extend sd (doc_state.more s)"
    using assms by (auto simp: gateTransition_def bindT_Inr onDocs_Inr inp_def)
  have "doc_state.truncate s' = sd" unfolding s' by (simp add: doc_state.defs)
  then show "statusOf d s' = Some to" using transition_status(1) [OF run] inp by (simp add: statusOf_truncate)
  show "\<exists>st. statusOf d s = Some st \<and> (st = to \<or> isLegalTransition st to)"
    using transition_status(2) [OF run] inp by (auto simp: statusOf_truncate)
qed

lemma complete_from_submitted:
  assumes "wiDocumentId (agInstance ag) = d"
  shows "hoare (\<lambda>s. statusOf d s = Some SUBMITTED) (completeApproval p rq ag body) (\<lambda>_ _. False)"
proof -
  have gate: "hoare (\<lambda>s. statusOf d s = Some SUBMITTED) (thenT (gateTransition rq d APPROVED i None None) m) (\<lambda>_ _. False)"
    for i and m :: "('a, unit) wtx"
    by (rule hoareI) (auto simp: thenT_Inr isLegalTransition_def dest!: gate_status(2))
  have keep: "hoare (\<lambda>s. statusOf d s = Some SUBMITTED) m (\<lambda>_ s. statusOf d s = Some SUBMITTED)"
    if "leaves (statusOf d) m" for m :: "('a, 'b) wtx" using that unfolding hoare_def leaves_def by metis
  show ?thesis unfolding completeApproval_def Let_def assms
    by (rule hoare_bind [OF keep], intro leaves_option leaves_if leaves_bind leaves_basic leaves_status_ports,
        rule hoare_then [OF keep], unfold endInstance_def updateInstances_def cancelInstanceTimers_def cancelTimersForInstance_def
          cancelTimers_def updateTimers_def dropJobs_def callQueue_def, intro leaves_intros, simp,
        rule hoare_then [OF keep], (intro leaves_intros; simp), rule gate)
qed

lemma advance_from_submitted:
  assumes "wiDocumentId (agInstance ag) = d"
  shows "hoare (\<lambda>s. statusOf d s = Some SUBMITTED) (advance p rq ag cx body prev n gs :: ('z, document_status \<times> timer_row list) wtx)
    (\<lambda>(st, _) _. st = UNDER_REVIEW)"
proof (induction gs arbitrary: n)
  case Nil
  show ?case by (simp, rule hoare_then [OF complete_from_submitted [OF assms]]) (simp add: hoare_def)
next
  case (Cons g gs)
  have done': "hoare (\<lambda>s. statusOf d s = Some SUBMITTED) (thenT (completeApproval p rq ag body) (returnT (APPROVED, []))
      :: ('z, document_status \<times> timer_row list) wtx) (\<lambda>(st, _) _. st = UNDER_REVIEW)"
    by (rule hoare_then [OF complete_from_submitted [OF assms]]) (simp add: hoare_def)
  have skip: "hoare (\<lambda>s. statusOf d s = Some SUBMITTED) (thenT (skipStage (wsId g) why w)
      (advance p rq ag cx body prev (Suc n) gs :: ('z, document_status \<times> timer_row list) wtx))
      (\<lambda>(st, _) _. st = UNDER_REVIEW)" for why w
    by (rule hoare_then [OF _ Cons.IH]) (simp add: hoare_def skipStage_def updateStages_def)
  have act: "hoare P (bindT m (\<lambda>armed. returnT (UNDER_REVIEW, armed))) (\<lambda>(st, _) _. st = UNDER_REVIEW)"
    for P and m :: "('z, timer_row list) wtx"
    by (auto simp: hoare_def bindT_Inr)
  show ?case using done' skip act by (simp add: Let_def)
qed

definition ofDocument :: "ident \<Rightarrow> ident \<Rightarrow> 'z wf_state_scheme \<Rightarrow> bool" where
  "ofDocument i d s \<longleftrightarrow> (\<forall>w \<in> set (instances s). wiId w = i \<longrightarrow> wiDocumentId w = d)"

definition ready :: "ident \<Rightarrow> ident \<Rightarrow> 'z wf_state_scheme \<Rightarrow> bool" where
  "ready i d s \<longleftrightarrow> ofDocument i d s \<and> statusOf d s = Some SUBMITTED"

lemma ofDocument_frame: "leaves wfTables m \<Longrightarrow> hoare (ofDocument i d) m (\<lambda>_. ofDocument i d)"
  by (rule hoare_frame) (auto simp: ofDocument_def wfTables_def)

lemma ready_frame:
  assumes "leaves wfTables m" and "leaves (statusOf d) m"
  shows "hoare (ready i d) m (\<lambda>_. ready i d)"
  using ofDocument_frame [OF assms(1), of i d] assms(2) unfolding hoare_def leaves_def ready_def by metis

lemma gate_ready: "hoare (ofDocument i d) (gateTransition rq d SUBMITTED w why remark) (\<lambda>_. ready i d)"
proof (rule hoareI)
  fix s x s'
  assume s: "ofDocument i d s" and run: "gateTransition rq d SUBMITTED w why remark s = Inr (x, s')"
  show "ready i d s'"
    using hoareD [OF ofDocument_frame [OF leaves_tables_docs(2)] s run] gate_status(1) [OF run] by (simp add: ready_def)
qed

lemma createStages_leaves: "leaves instances (createStages ns)"
  unfolding createStages_def insertStage_def by (intro leaves_intros) simp

lemma startApproval_review:
  "hoare (\<lambda>_. True) (startApproval p rq d remark actor cx r df v) (\<lambda>(((_, st), _), _) _. st = UNDER_REVIEW)"
proof -
  have created: "hoare (\<lambda>_. True) (createInstance rq n) (\<lambda>_. ofDocument (niId n) (niDocumentId n))" for n :: new_instance
    by (rule hoareI) (auto simp: createInstance_def bindT_Inr thenT_Inr ofDocument_def)
  have staged: "hoare (ofDocument i d) (createStages ns) (\<lambda>_. ofDocument i d)" for i ns
    using createStages_leaves [of ns] unfolding hoare_def leaves_def ofDocument_def by metis
  have comment: "leaves (statusOf d) (case remark of None \<Rightarrow> returnT () | Some text \<Rightarrow> plainComment rq i d actor text)" for i
    unfolding plainComment_def addComment_def by (intro leaves_intros leaves_status_log) simp
  have numbers: "leaves (statusOf d) (withNumbering p (\<lambda>n. bindT (reserveForSubmission n rq d i) (\<lambda>_. returnT ())))" for i
    unfolding withNumbering_def by (intro leaves_option leaves_bind leaves_basic leaves_status_ports)
  have loaded: "hoare (ready i d) (requireAggregate i) (\<lambda>ag s. wiDocumentId (agInstance ag) = d \<and> statusOf d s = Some SUBMITTED)" for i
  proof (rule hoareI)
    fix s ag s'
    assume s: "ready i d s" and "requireAggregate i s = Inr (ag, s')"
    then have ag: "loadAggregate i s = Some ag" "s' = s" by (auto simp: requireAggregate_def bindT_Inr split: option.splits)
    show "wiDocumentId (agInstance ag) = d \<and> statusOf d s' = Some SUBMITTED"
      using s loaded_rows(1,2) [OF ag(1)] ag(2) by (simp add: ready_def ofDocument_def)
  qed
  have last: "hoare (ready i d) (bindT (requireAggregate i) (\<lambda>ag.
     bindT (advanceFrom p rq ag 0 cx (vnBody v) []) (\<lambda>(status, armed).
     returnT (((i, status), armed), submitChange d status i v r)))) (\<lambda>(((_, st), _), _) _. st = UNDER_REVIEW)" for i
    unfolding advanceFrom_def
    by (rule hoare_bind [OF loaded], rule hoare_conj_pre, rule hoare_bind [OF advance_from_submitted], assumption)
      (auto intro!: hoare_prod hoare_return)
  have going: "hoare (ofDocument i d) (bindT (newStages rq i (vnBody v)) (\<lambda>gs.
     thenT (createStages gs)
     (thenT (gateTransition rq d SUBMITTED i None None)
     (thenT (withNumbering p (\<lambda>n. bindT (reserveForSubmission n rq d i) (\<lambda>_. returnT ())))
     (thenT (case remark of None \<Rightarrow> returnT () | Some text \<Rightarrow> plainComment rq i d actor text)
     (thenT (publishT [Event ''workflow.started'' i
        [(''workflowInstanceId'', JStr i), (''documentId'', JStr d), (''revisionId'', JStr r),
         (''workflowVersionId'', JStr (vnId v))]])
     (bindT (requireAggregate i) (\<lambda>ag.
     bindT (advanceFrom p rq ag 0 cx (vnBody v) []) (\<lambda>(status, armed).
     returnT (((i, status), armed), submitChange d status i v r)))))))))) (\<lambda>(((_, st), _), _) _. st = UNDER_REVIEW)" for i
    by (rule hoare_bind [OF ofDocument_frame [OF leaves_tables_readers(7)]], rule hoare_then [OF staged], rule hoare_then [OF gate_ready],
        rule hoare_then [OF ready_frame [OF _ numbers]], unfold withNumbering_def, intro leaves_intros,
        rule hoare_then [OF ready_frame [OF _ comment]], intro leaves_intros,
        rule hoare_then [OF ready_frame [OF leaves_tables_log(1) leaves_status_log(2)]], rule last)
  show ?thesis
    unfolding startApproval_def
    by (rule hoare_bind [where R = "\<lambda>_ _. True"], simp add: hoare_def, rule hoare_then [OF created], simp, rule going)
qed



end
