(* ===== verification/Spec2Isabelle.thy ===== *)
theory Spec2Isabelle
  imports Tree_Path Recycle_Bin Acl_Agreement Text_Diff Audit_Trail Document_Number Workflow_Properties
begin

text \<open>
  A model of the document control core of the repository (\<open>src/apps/api\<close> and \<open>src/packages/domain\<close>):
  a multi-tenant document management system in which documents are filed in folders of libraries,
  checked out and in, revised, approved, published, archived, deleted and restored, and in which
  access is decided by entries inherited along the organisation and folder trees.

  \<^bold>\<open>Parts and theories\<close>

  \<^item> \<open>Prelude\<close>: JavaScript string operations, decimal numerals, tables as lists of rows with SQL-like
    updates and partial unique indexes, the application errors and the result type.
  \<^item> \<open>Tree_Path\<close>: materialised paths (\<open>packages/domain/src/tree.ts\<close>) and the placement rules of the
    folder, department and category trees. The string operations refine operations on identifier
    lists; the three placement checks are instances of one locale, \<open>tree_ceiling\<close>.
  \<^item> \<open>Transaction\<close>: the administered transaction (\<open>core/persistence/administered-writer.ts\<close>) as an error
    and state monad that keeps the old state on failure, a small Hoare logic, and the locale
    \<open>transactional\<close> in which invariants are carried over arbitrary histories of commits.
  \<^item> \<open>Lifecycle\<close>, \<open>Revision_Label\<close>: the transition tables and the revision labels.
  \<^item> \<open>Document_Store\<close>: the rows and the statements of the document, revision, lock and file repositories.
  \<^item> \<open>Document_Service\<close>, \<open>Revision_Control\<close>, \<open>Folder_Contents\<close>: the use cases, whole, each a program of
    the monad: \<open>document.service.ts\<close>, \<open>revision-control.service.ts\<close>, \<open>folder-contents.participant.ts\<close>.
  \<^item> \<open>Document_Frames\<close>, \<open>Document_Invariants\<close>, \<open>Document_References\<close>, \<open>Document_Locks\<close>, \<open>Document_System\<close>,
    \<open>Document_History\<close>: the invariants and that every use case keeps them; \<open>Document_System\<close>
    interprets \<open>transactional\<close> on the step relation of all use cases.
  \<^item> \<open>Document_Properties\<close>, \<open>Check_Out_Properties\<close>, \<open>Recycle_Bin\<close>: the properties of the document component.
  \<^item> \<open>Acl_Walk\<close>, \<open>Scope_Chain\<close>, \<open>Acl_Resolver\<close>, \<open>Acl_Agreement\<close>: the access decision
    (\<open>library/domain/acl-walk.ts\<close>), the chains it walks, the resolver, and the agreement of its answers:
    decision, capabilities, search index and list predicate.

  \<^bold>\<open>State\<close>. A document state holds the rows of one tenant (documents, revisions, locks, stored files),
  the audit trail, the outbox and the calls made to retention. Requests carry the clock, the
  identifier source, the actor and the tenant status. Reads of other modules (folder placement,
  document types, legal holds, number allocation) are functions of the record \<open>ports\<close>. Transactions
  are atomic: the database's isolation is taken as given, a unique index that a statement can
  violate is an error branch of that statement.

  \<^bold>\<open>Parameters\<close>. The evaluation of an empty filter object inside an \<open>OR\<close> by the database client is the
  parameter \<open>orEmpty\<close> of \<open>matches\<close>. The ports above are arguments.

  \<^bold>\<open>Bounds\<close>. Loops run over finite lists and recursions are structural or have termination proofs; no
  fuel is used.

  \<^bold>\<open>Not modelled\<close>. The web application, HTTP controllers, message catalogues, object storage, rendering,
  cryptography, identity protocols, notification delivery and caches: input and output, generated
  or declarative code, or third-party protocols.
\<close>

end
